(* ===== verification/Prelude.thy ===== *)
theory Prelude
  imports Main "HOL-Library.Char_ord"
begin

text \<open>
  Shared vocabulary of the development: Go strings as byte lists, the functions of the
  Go packages \<^verbatim>\<open>strings\<close> and \<^verbatim>\<open>strconv\<close> that the server calls, slices, and the
  generic list lemmas the component theories share.

  A Go string is a sequence of bytes; it is a \<open>string\<close> (a \<open>char list\<close>) here, one
  \<open>char\<close> per byte.  Case conversion, white space and character classes are those of
  ASCII: on text that is ASCII they are exactly Go's, which on other text would also
  consult the Unicode tables.
\<close>

named_theorems go_str \<open>equations that compute the Go string functions\<close>
named_theorems re_at \<open>what each kind of pattern matches at an index of the subject\<close>
named_theorems re_first \<open>rules that derive the preferred match of a pattern\<close>
named_theorems go_bounds \<open>bounds of indices and lengths\<close>

type_synonym gostr = string

section \<open>Characters\<close>

abbreviation code :: "char \<Rightarrow> nat" where
  "code c \<equiv> of_char c"

definition is_upper :: "char \<Rightarrow> bool" where
  "is_upper c \<longleftrightarrow> 65 \<le> code c \<and> code c \<le> 90"

definition is_lower :: "char \<Rightarrow> bool" where
  "is_lower c \<longleftrightarrow> 97 \<le> code c \<and> code c \<le> 122"

definition is_digit :: "char \<Rightarrow> bool" where
  "is_digit c \<longleftrightarrow> 48 \<le> code c \<and> code c \<le> 57"

definition is_letter :: "char \<Rightarrow> bool" where
  "is_letter c \<longleftrightarrow> is_upper c \<or> is_lower c"

definition is_word :: "char \<Rightarrow> bool" where
  "is_word c \<longleftrightarrow> is_letter c \<or> is_digit c \<or> code c = 95"

text \<open>White space of \<^verbatim>\<open>strings.Fields\<close> and \<^verbatim>\<open>strings.TrimSpace\<close>: tab, newline,
  vertical tab, form feed, carriage return and blank.\<close>

definition is_space :: "char \<Rightarrow> bool" where
  "is_space c \<longleftrightarrow> (9 \<le> code c \<and> code c \<le> 13) \<or> code c = 32"

text \<open>White space of the regular-expression class \<^verbatim>\<open>\s\<close>, which has no vertical tab.\<close>

definition is_re_space :: "char \<Rightarrow> bool" where
  "is_re_space c \<longleftrightarrow> code c = 9 \<or> code c = 10 \<or> code c = 12 \<or> code c = 13 \<or> code c = 32"

definition upper_char :: "char \<Rightarrow> char" where
  "upper_char c = (if is_lower c then char_of (code c - 32) else c)"

definition lower_char :: "char \<Rightarrow> char" where
  "lower_char c = (if is_upper c then char_of (code c + 32) else c)"

lemma code_less: "code c < 256"
  by (metis mod_less_divisor of_char_mod_256 zero_less_numeral)

lemma is_re_space_is_space: "is_re_space c \<Longrightarrow> is_space c"
  by (auto simp: is_re_space_def is_space_def)

lemma is_upper_lower_char [simp]: "\<not> is_upper (lower_char c)"
  by (auto simp: is_upper_def lower_char_def)

lemma is_lower_upper_char [simp]: "\<not> is_lower (upper_char c)"
  by (auto simp: is_lower_def upper_char_def)

lemma lower_lower_char [simp]: "lower_char (lower_char c) = lower_char c"
  by (metis is_upper_lower_char lower_char_def)

lemma upper_upper_char [simp]: "upper_char (upper_char c) = upper_char c"
  by (metis is_lower_upper_char upper_char_def)

lemma lower_upper_char [simp]: "lower_char (upper_char c) = lower_char c"
  by (auto simp: lower_char_def upper_char_def is_lower_def is_upper_def)

lemma is_upper_upper_char: "is_lower c \<Longrightarrow> is_upper (upper_char c)"
  by (auto simp: is_lower_def is_upper_def upper_char_def)

lemma is_lower_lower_char: "is_upper c \<Longrightarrow> is_lower (lower_char c)"
  by (auto simp: is_lower_def is_upper_def lower_char_def)

lemma upper_char_eq_iff: "\<not> is_letter d \<Longrightarrow> upper_char c = d \<longleftrightarrow> c = d"
  by (metis is_letter_def is_upper_upper_char upper_char_def)

lemma lower_char_eq_iff: "\<not> is_letter d \<Longrightarrow> lower_char c = d \<longleftrightarrow> c = d"
  by (metis is_letter_def is_lower_lower_char lower_char_def)

lemma upper_of_lower_eq: "is_upper w \<Longrightarrow> lower_char v = lower_char w \<Longrightarrow> is_letter v \<and> upper_char v = w"
proof -
  assume w: "is_upper w" and e: "lower_char v = lower_char w"
  have "is_lower (lower_char v)" using is_lower_lower_char [OF w] e by simp
  then have l: "is_letter v" by (auto simp: is_letter_def lower_char_def split: if_splits)
  have "upper_char (lower_char v) = upper_char (lower_char w)" using e by simp
  moreover have "upper_char (lower_char c) = upper_char c" for c
    by (auto simp: lower_char_def upper_char_def is_lower_def is_upper_def)
  moreover have "upper_char w = w" using w by (auto simp: upper_char_def is_lower_def is_upper_def)
  ultimately show ?thesis using l by simp
qed

lemma is_word_not_space: "is_word c \<Longrightarrow> \<not> is_space c"
  by (auto simp: is_word_def is_space_def is_letter_def is_upper_def is_lower_def is_digit_def)

lemma is_space_upper [simp]: "is_space (upper_char c) = is_space c"
  by (auto simp: is_space_def upper_char_def is_lower_def)

lemma is_word_lower [simp]: "is_word (lower_char c) = is_word c"
  by (auto simp: is_word_def is_letter_def is_upper_def is_lower_def is_digit_def lower_char_def)

text \<open>The single quote; a string literal of the logic can hold one only where no second one
  follows, so texts that end in a quote are written with \<open>@ [quote]\<close>.\<close>

abbreviation quote :: char where "quote \<equiv> CHR 0x27"

section \<open>The package strings\<close>

definition ToUpper :: "gostr \<Rightarrow> gostr" where
  "ToUpper s = map upper_char s"

definition ToLower :: "gostr \<Rightarrow> gostr" where
  "ToLower s = map lower_char s"

fun HasPrefix :: "gostr \<Rightarrow> gostr \<Rightarrow> bool" where
  "HasPrefix s [] = True"
| "HasPrefix [] (p # ps) = False"
| "HasPrefix (c # cs) (p # ps) = (c = p \<and> HasPrefix cs ps)"

definition HasSuffix :: "gostr \<Rightarrow> gostr \<Rightarrow> bool" where
  "HasSuffix s p = HasPrefix (rev s) (rev p)"

fun Contains :: "gostr \<Rightarrow> gostr \<Rightarrow> bool" where
  "Contains [] p = HasPrefix [] p"
| "Contains (c # cs) p = (HasPrefix (c # cs) p \<or> Contains cs p)"

definition TrimPrefix :: "gostr \<Rightarrow> gostr \<Rightarrow> gostr" where
  "TrimPrefix s p = (if HasPrefix s p then drop (length p) s else s)"

definition TrimSuffix :: "gostr \<Rightarrow> gostr \<Rightarrow> gostr" where
  "TrimSuffix s p = (if HasSuffix s p then take (length s - length p) s else s)"

definition trim_right :: "(char \<Rightarrow> bool) \<Rightarrow> gostr \<Rightarrow> gostr" where
  "trim_right P s = rev (dropWhile P (rev s))"

definition TrimSpace :: "gostr \<Rightarrow> gostr" where
  "TrimSpace s = trim_right is_space (dropWhile is_space s)"

text \<open>\<^verbatim>\<open>strings.Trim\<close> and \<^verbatim>\<open>strings.TrimLeft\<close> with a cutset.\<close>

definition Trim :: "gostr \<Rightarrow> gostr \<Rightarrow> gostr" where
  "Trim s cutset = trim_right (\<lambda>c. c \<in> set cutset) (dropWhile (\<lambda>c. c \<in> set cutset) s)"

definition TrimLeft :: "gostr \<Rightarrow> gostr \<Rightarrow> gostr" where
  "TrimLeft s cutset = dropWhile (\<lambda>c. c \<in> set cutset) s"

text \<open>\<open>fields_acc w s\<close> scans \<open>s\<close> with the current word \<open>w\<close> held reversed.\<close>

fun fields_acc :: "gostr \<Rightarrow> gostr \<Rightarrow> gostr list" where
  "fields_acc w [] = (if w = [] then [] else [rev w])"
| "fields_acc w (c # cs) =
     (if is_space c then (if w = [] then fields_acc [] cs else rev w # fields_acc [] cs)
      else fields_acc (c # w) cs)"

definition Fields :: "gostr \<Rightarrow> gostr list" where
  "Fields s = fields_acc [] s"

text \<open>\<^verbatim>\<open>strings.ReplaceAll\<close> for a one-byte old string.\<close>

definition ReplaceChar :: "gostr \<Rightarrow> char \<Rightarrow> gostr \<Rightarrow> gostr" where
  "ReplaceChar s old new = concat (map (\<lambda>c. if c = old then new else [c]) s)"

text \<open>\<^verbatim>\<open>strings.ReplaceAll\<close> for a non-empty old string: leftmost, not overlapping.\<close>

function ReplaceAll :: "gostr \<Rightarrow> gostr \<Rightarrow> gostr \<Rightarrow> gostr" where
  "ReplaceAll [] old new = []"
| "ReplaceAll (c # cs) old new =
     (if old \<noteq> [] \<and> HasPrefix (c # cs) old
      then new @ ReplaceAll (drop (length old) (c # cs)) old new
      else c # ReplaceAll cs old new)"
  by pat_completeness auto
termination
  by (relation "measure (\<lambda>(s, old, new). length s)") auto

text \<open>\<^verbatim>\<open>strings.Split\<close> on a one-byte separator and \<^verbatim>\<open>strings.Join\<close>.\<close>

fun split_acc :: "char \<Rightarrow> gostr \<Rightarrow> gostr \<Rightarrow> gostr list" where
  "split_acc sep w [] = [rev w]"
| "split_acc sep w (c # cs) =
     (if c = sep then rev w # split_acc sep [] cs else split_acc sep (c # w) cs)"

definition SplitChar :: "gostr \<Rightarrow> char \<Rightarrow> gostr list" where
  "SplitChar s sep = split_acc sep [] s"

fun Join :: "gostr list \<Rightarrow> gostr \<Rightarrow> gostr" where
  "Join [] sep = []"
| "Join [x] sep = x"
| "Join (x # y # xs) sep = x @ sep @ Join (y # xs) sep"

text \<open>\<^verbatim>\<open>strings.NewReplacer(...).Replace\<close>: at each position the first pair, in argument
  order, whose old string occurs there is applied; replaced text is not scanned again.\<close>

fun first_pair :: "(gostr \<times> gostr) list \<Rightarrow> gostr \<Rightarrow> (gostr \<times> gostr) option" where
  "first_pair [] s = None"
| "first_pair ((old, new) # ps) s =
     (if old \<noteq> [] \<and> HasPrefix s old then Some (old, new) else first_pair ps s)"

lemma first_pair_nonempty: "first_pair ps s = Some (old, new) \<Longrightarrow> old \<noteq> []"
  by (induction ps s rule: first_pair.induct) (auto split: if_splits)

function replacer :: "(gostr \<times> gostr) list \<Rightarrow> gostr \<Rightarrow> gostr" where
  "replacer ps [] = []"
| "replacer ps (c # cs) =
     (case first_pair ps (c # cs) of
        Some (old, new) \<Rightarrow> new @ replacer ps (drop (length old) (c # cs))
      | None \<Rightarrow> c # replacer ps cs)"
  by pat_completeness auto
termination
  by (relation "measure (\<lambda>(ps, s). length s)")
     (auto dest: first_pair_nonempty simp: Suc_le_eq)

section \<open>Slices and positions\<close>

text \<open>\<^verbatim>\<open>s[i:j]\<close>; the places where Go would panic (\<open>i > j\<close> or \<open>j > len(s)\<close>) are
  excluded by bound lemmas at each use.\<close>

definition slice :: "gostr \<Rightarrow> nat \<Rightarrow> nat \<Rightarrow> gostr" where
  "slice s i j = take (j - i) (drop i s)"

lemma length_slice [simp]: "j \<le> length s \<Longrightarrow> length (slice s i j) = j - i"
  by (simp add: slice_def)

lemma slice_append_left [simp]: "slice (xs @ ys) 0 (length xs) = xs"
  by (simp add: slice_def)

lemma slice_self [simp]: "slice s i i = []"
  by (simp add: slice_def)

lemma slice_drop: "i \<le> j \<Longrightarrow> slice s i j @ drop j s = drop i s"
  by (simp add: slice_def) (metis append_take_drop_id drop_drop le_add_diff_inverse2)

lemma take_slice_drop: "i \<le> j \<Longrightarrow> take i s @ slice s i j @ drop j s = s"
  by (simp add: slice_drop)

lemma slice_Suc: "i < j \<Longrightarrow> j \<le> length s \<Longrightarrow> slice s i j = s ! i # slice s (Suc i) j"
  by (auto simp: slice_def Cons_nth_drop_Suc [symmetric] take_Cons')

section \<open>Decimal text\<close>

fun digit_char :: "nat \<Rightarrow> char" where
  "digit_char d = char_of (48 + d mod 10)"

fun itoa_nat :: "nat \<Rightarrow> gostr" where
  "itoa_nat n = (if n < 10 then [digit_char n] else itoa_nat (n div 10) @ [digit_char (n mod 10)])"

declare itoa_nat.simps [simp del]

text \<open>\<^verbatim>\<open>strconv.FormatInt(n, 10)\<close>, also what the verb \<^verbatim>\<open>%d\<close> prints.\<close>

definition FormatInt :: "int \<Rightarrow> gostr" where
  "FormatInt n = (if n < 0 then CHR ''-'' # itoa_nat (nat (- n)) else itoa_nat (nat n))"

definition digit_val :: "char \<Rightarrow> nat" where
  "digit_val c = code c - 48"

definition digits_val :: "gostr \<Rightarrow> nat" where
  "digits_val s = foldl (\<lambda>n c. 10 * n + digit_val c) 0 s"

section \<open>Quoted text\<close>

text \<open>The verb \<^verbatim>\<open>%q\<close> on a string and on a byte.\<close>

definition hex2 :: "nat \<Rightarrow> gostr" where
  "hex2 n = (let h = (\<lambda>d. if d < 10 then char_of (48 + d) else char_of (87 + d)) in [h (n div 16), h (n mod 16)])"

definition escape_char :: "char \<Rightarrow> char \<Rightarrow> gostr" where
  "escape_char q c =
     (if c = q \<or> c = CHR 0x5C then [CHR 0x5C, c]
      else if 32 \<le> code c \<and> code c < 127 then [c]
      else if c = CHR 0x07 then [CHR 0x5C, CHR ''a'']
      else if c = CHR 0x08 then [CHR 0x5C, CHR ''b'']
      else if c = CHR 0x0C then [CHR 0x5C, CHR ''f'']
      else if c = CHR 0x0A then [CHR 0x5C, CHR ''n'']
      else if c = CHR 0x0D then [CHR 0x5C, CHR ''r'']
      else if c = CHR 0x09 then [CHR 0x5C, CHR ''t'']
      else if c = CHR 0x0B then [CHR 0x5C, CHR ''v'']
      else [CHR 0x5C, CHR ''x''] @ hex2 (code c))"

definition GoQuote :: "gostr \<Rightarrow> gostr" where
  "GoQuote s = [CHR 0x22] @ concat (map (escape_char (CHR 0x22)) s) @ [CHR 0x22]"

definition GoQuoteByte :: "char \<Rightarrow> gostr" where
  "GoQuoteByte c = [quote] @ escape_char quote c @ [quote]"

section \<open>Lemmas on the string functions\<close>

lemma length_ToUpper [simp]: "length (ToUpper s) = length s"
  by (simp add: ToUpper_def)

lemma ToUpper_append [simp]: "ToUpper (s @ t) = ToUpper s @ ToUpper t"
  by (simp add: ToUpper_def)

lemma ToLower_append [simp]: "ToLower (s @ t) = ToLower s @ ToLower t"
  by (simp add: ToLower_def)

lemma HasPrefix_append [simp]: "HasPrefix (p @ s) p"
  by (induction p) auto

lemma HasPrefix_iff: "HasPrefix s p \<longleftrightarrow> take (length p) s = p"
  by (induction s p rule: HasPrefix.induct) auto

lemma HasPrefix_length: "HasPrefix s p \<Longrightarrow> length p \<le> length s"
  by (induction s p rule: HasPrefix.induct) auto

lemma HasPrefix_exists: "HasPrefix s p \<longleftrightarrow> (\<exists>t. s = p @ t)"
  by (metis HasPrefix_append HasPrefix_iff append_take_drop_id)

lemma Contains_iff: "Contains s p \<longleftrightarrow> (\<exists>a b. s = a @ p @ b)"
proof (induction s)
  case Nil
  then show ?case by (cases p) auto
next
  case (Cons c cs)
  show ?case
  proof
    assume "Contains (c # cs) p"
    then show "\<exists>a b. c # cs = a @ p @ b"
      using Cons by (auto simp: HasPrefix_exists) (metis append_Cons append_Nil)+
  next
    assume "\<exists>a b. c # cs = a @ p @ b"
    then obtain a b where "c # cs = a @ p @ b" by blast
    then show "Contains (c # cs) p"
    proof (cases a)
      case Nil
      with \<open>c # cs = a @ p @ b\<close> have "HasPrefix (c # cs) p" by simp
      then show ?thesis by simp
    next
      case (Cons x xs)
      with \<open>c # cs = a @ p @ b\<close> Cons.IH show ?thesis by auto
    qed
  qed
qed

lemma ReplaceChar_Nil [simp]: "ReplaceChar [] old new = []"
  by (simp add: ReplaceChar_def)

lemma ReplaceChar_Cons [simp]:
  "ReplaceChar (c # s) old new = (if c = old then new else [c]) @ ReplaceChar s old new"
  by (simp add: ReplaceChar_def)

lemma trim_right_append_last:
  "\<not> P c \<Longrightarrow> trim_right P (s @ [c]) = s @ [c]"
  by (simp add: trim_right_def)

lemma trim_right_none: "(s = [] \<or> \<not> P (last s)) \<Longrightarrow> trim_right P s = s"
  by (cases s rule: rev_cases) (auto simp: trim_right_def)

lemma TrimSpace_id:
  assumes "s = [] \<or> (\<not> is_space (hd s) \<and> \<not> is_space (last s))"
  shows "TrimSpace s = s"
  using assms by (cases s) (auto simp: TrimSpace_def intro!: trim_right_none)

lemma trim_right_length: "length (trim_right P s) \<le> length s"
  by (metis length_dropWhile_le length_rev trim_right_def)

lemma TrimSpace_length: "length (TrimSpace s) \<le> length s"
  unfolding TrimSpace_def by (meson length_dropWhile_le order_trans trim_right_length)

lemma TrimSpace_Nil [simp]: "TrimSpace [] = []"
  by (simp add: TrimSpace_def trim_right_def)

lemma dropWhile_suffix: "\<exists>p. s = p @ dropWhile P s"
  by (metis takeWhile_dropWhile_id)

lemma trim_right_prefix: "\<exists>t. s = trim_right P s @ t"
  by (metis dropWhile_suffix rev_append rev_rev_ident trim_right_def)

lemma TrimSpace_sub: "\<exists>a b. s = a @ TrimSpace s @ b"
  unfolding TrimSpace_def by (metis dropWhile_suffix trim_right_prefix)

lemma TrimSpace_empty_iff: "TrimSpace s = [] \<longleftrightarrow> (\<forall>c \<in> set s. is_space c)"
  by (auto simp: TrimSpace_def trim_right_def dropWhile_eq_Nil_conv dest: set_dropWhileD)
     (metis dropWhile_eq_Nil_conv hd_dropWhile hd_in_set)

lemma digit_char_is_digit [simp]: "is_digit (digit_char d)"
  by (simp add: is_digit_def)

lemma digit_val_digit_char [simp]: "digit_val (digit_char d) = d mod 10"
  by (simp add: digit_val_def)

lemma itoa_nat_nonempty [simp]: "itoa_nat n \<noteq> []"
  by (subst itoa_nat.simps) simp

lemma itoa_nat_digits: "c \<in> set (itoa_nat n) \<Longrightarrow> is_digit c"
proof (induction n rule: itoa_nat.induct)
  case (1 n)
  then show ?case
    by (subst (asm) (2) itoa_nat.simps) (auto split: if_splits simp del: digit_char.simps)
qed

text \<open>Printing a number and reading its digits back gives the number.\<close>

lemma digits_val_itoa_nat [simp]: "digits_val (itoa_nat n) = n"
proof (induction n rule: itoa_nat.induct)
  case (1 n)
  then show ?case
    by (subst itoa_nat.simps) (auto simp: digits_val_def simp del: digit_char.simps)
qed

section \<open>Splitting and joining\<close>

lemma split_acc_sep:
  "sep \<notin> set p \<Longrightarrow> split_acc sep w (p @ sep # rest) = (rev w @ p) # split_acc sep [] rest"
  "sep \<notin> set p \<Longrightarrow> split_acc sep w p = [rev w @ p]"
  by (induction p arbitrary: w) auto

lemma SplitChar_Join:
  "ps \<noteq> [] \<Longrightarrow> \<forall>p \<in> set ps. sep \<notin> set p \<Longrightarrow> SplitChar (Join ps [sep]) sep = ps"
  unfolding SplitChar_def
  by (induction ps rule: induct_list012) (auto simp: split_acc_sep)

lemma split_acc_append: "split_acc sep w (a @ sep # b) = split_acc sep w a @ split_acc sep [] b"
  by (induction a arbitrary: w) auto

lemma SplitChar_append: "SplitChar (a @ sep # b) sep = SplitChar a sep @ SplitChar b sep"
  by (simp add: SplitChar_def split_acc_append)

text \<open>Every piece is a stretch of the text without the separator.\<close>

lemma split_acc_piece:
  "el \<in> set (split_acc sep w s) \<Longrightarrow> sep \<notin> set w \<Longrightarrow> sep \<notin> set el \<and> (\<exists>a b. rev w @ s = a @ el @ b)"
proof (induction sep w s rule: split_acc.induct)
  case (1 sep w)
  then show ?case by (auto intro: exI [of _ "[]"])
next
  case (2 sep w c cs)
  show ?case
  proof (cases "c = sep")
    case True
    then consider "el = rev w" | "el \<in> set (split_acc sep [] cs)" using 2(3) by auto
    then show ?thesis
    proof cases
      case 1
      have "rev w @ c # cs = [] @ el @ c # cs" using 1 by simp
      with 1 2(4) show ?thesis by (metis set_rev)
    next
      case 2
      with "2.IH"(1) [OF True 2] obtain a b where "sep \<notin> set el" "cs = a @ el @ b" by auto
      then have "rev w @ c # cs = (rev w @ c # a) @ el @ b" by simp
      with \<open>sep \<notin> set el\<close> show ?thesis by blast
    qed
  next
    case False
    with 2 show ?thesis by auto
  qed
qed

lemma SplitChar_piece: "el \<in> set (SplitChar s sep) \<Longrightarrow> sep \<notin> set el \<and> (\<exists>a b. s = a @ el @ b)"
  using split_acc_piece [of el sep "[]" s] by (simp add: SplitChar_def)

end
