(* ===== verification/Regex.thy ===== *)
theory Regex
  imports Prelude
begin

text \<open>
  The part of Go's package \<^verbatim>\<open>regexp\<close> that the server uses: the syntax tree of a pattern,
  leftmost-first matching with capture groups, \<^verbatim>\<open>FindStringSubmatchIndex\<close>,
  \<^verbatim>\<open>FindAllStringSubmatch\<close>, and \<^verbatim>\<open>ReplaceAllString\<close> with its expansion of
  \<^verbatim>\<open>$\<close>-references in the replacement text.

  \<open>matches r st\<close> is the list of all states \<open>r\<close> can reach from \<open>st\<close>, in the order of
  preference of a leftmost-first (Perl-like) matcher; the match is its first element.
  No starred sub-expression of the server's patterns matches the empty string, and the
  progress test of \<open>star_iter\<close> keeps the matcher total on every other pattern.
\<close>

section \<open>Patterns\<close>

datatype citem = CChar char | CRange char char | CWord | CSpace | CDigit

text \<open>\<open>Cls neg items\<close>: a bracket expression, negated when \<open>neg\<close>.\<close>

datatype cclass = Cls bool "citem list"

datatype re =
    REmpty
  | RLit bool gostr              \<comment> \<open>a literal, under \<^verbatim>\<open>(?i)\<close> when the flag is set\<close>
  | RCls bool cclass
  | RBegin                       \<comment> \<open>\<^verbatim>\<open>^\<close>, start of text\<close>
  | REnd                         \<comment> \<open>\<^verbatim>\<open>$\<close>, end of text\<close>
  | RWordB                       \<comment> \<open>\<^verbatim>\<open>\b\<close>\<close>
  | RSeq re re
  | RAlt re re
  | RStar bool re                \<comment> \<open>greedy when the flag is set\<close>
  | RGroup nat re                \<comment> \<open>capturing group\<close>

abbreviation ROpt :: "re \<Rightarrow> re" where
  "ROpt r \<equiv> RAlt r REmpty"

abbreviation RPlus :: "re \<Rightarrow> re" where
  "RPlus r \<equiv> RSeq r (RStar True r)"

primrec RSeqs :: "re list \<Rightarrow> re" where
  "RSeqs [] = REmpty"
| "RSeqs (r # rs) = RSeq r (RSeqs rs)"

fun RAlts :: "re list \<Rightarrow> re" where
  "RAlts [] = RCls False (Cls False [])"
| "RAlts [r] = r"
| "RAlts (r # rs) = RAlt r (RAlts rs)"

abbreviation r_s :: cclass where "r_s \<equiv> Cls False [CSpace]"
abbreviation r_w :: cclass where "r_w \<equiv> Cls False [CWord]"
abbreviation r_d :: cclass where "r_d \<equiv> Cls False [CDigit]"
abbreviation r_dot :: cclass where "r_dot \<equiv> Cls True [CChar (CHR 0x0A)]"

abbreviation Sp :: re where "Sp \<equiv> RCls False r_s"
abbreviation Sps :: re where "Sps \<equiv> RStar True Sp"
abbreviation Sps1 :: re where "Sps1 \<equiv> RPlus Sp"
abbreviation Wd :: re where "Wd \<equiv> RCls False r_w"
abbreviation Wds1 :: re where "Wds1 \<equiv> RPlus Wd"
abbreviation NotIn :: "gostr \<Rightarrow> re" where "NotIn cs \<equiv> RCls False (Cls True (map CChar cs))"

section \<open>The matcher\<close>

fun citem_has :: "citem \<Rightarrow> char \<Rightarrow> bool" where
  "citem_has (CChar d) c = (c = d)"
| "citem_has (CRange a b) c = (code a \<le> code c \<and> code c \<le> code b)"
| "citem_has CWord c = is_word c"
| "citem_has CSpace c = is_re_space c"
| "citem_has CDigit c = is_digit c"

text \<open>Under \<^verbatim>\<open>(?i)\<close> an item also has the characters whose other case it has; a negated
  class is the complement of the folded items.\<close>

definition citem_match :: "bool \<Rightarrow> char \<Rightarrow> citem \<Rightarrow> bool" where
  "citem_match ci c i \<longleftrightarrow>
     citem_has i c \<or> (ci \<and> (citem_has i (lower_char c) \<or> citem_has i (upper_char c)))"

fun cls_match :: "bool \<Rightarrow> cclass \<Rightarrow> char \<Rightarrow> bool" where
  "cls_match ci (Cls neg items) c = (list_ex (citem_match ci c) items \<noteq> neg)"

definition lit_char :: "bool \<Rightarrow> char \<Rightarrow> char \<Rightarrow> bool" where
  "lit_char ci p c = (if ci then lower_char p = lower_char c else p = c)"

text \<open>The capture groups set so far, innermost assignment first.\<close>

type_synonym caps = "(nat \<times> (nat \<times> nat)) list"

record cursor =
  cpos :: nat
  cprev :: "char option"
  crest :: gostr

type_synonym mstate = "cursor \<times> caps"

fun advance :: "cursor \<Rightarrow> cursor" where
  "advance k = (case crest k of [] \<Rightarrow> k
     | c # cs \<Rightarrow> \<lparr>cpos = Suc (cpos k), cprev = Some c, crest = cs\<rparr>)"

definition word_at :: "char option \<Rightarrow> bool" where
  "word_at oc = (case oc of None \<Rightarrow> False | Some c \<Rightarrow> is_word c)"

definition at_boundary :: "cursor \<Rightarrow> bool" where
  "at_boundary k \<longleftrightarrow>
     word_at (cprev k) \<noteq> word_at (case crest k of [] \<Rightarrow> None | c # _ \<Rightarrow> Some c)"

fun match_lit :: "bool \<Rightarrow> gostr \<Rightarrow> cursor \<Rightarrow> cursor option" where
  "match_lit ci [] k = Some k"
| "match_lit ci (p # ps) k =
     (case crest k of [] \<Rightarrow> None
      | c # cs \<Rightarrow> if lit_char ci p c
                  then match_lit ci ps \<lparr>cpos = Suc (cpos k), cprev = Some c, crest = cs\<rparr>
                  else None)"

fun star_iter :: "bool \<Rightarrow> (mstate \<Rightarrow> mstate list) \<Rightarrow> nat \<Rightarrow> mstate \<Rightarrow> mstate list" where
  "star_iter greedy f 0 st = [st]"
| "star_iter greedy f (Suc n) st =
     (let more = concat (map (star_iter greedy f n)
                   (filter (\<lambda>st'. cpos (fst st) < cpos (fst st')) (f st)))
      in if greedy then more @ [st] else st # more)"

primrec matches :: "re \<Rightarrow> mstate \<Rightarrow> mstate list" where
  "matches REmpty st = [st]"
| "matches (RLit ci ps) st =
     (case match_lit ci ps (fst st) of None \<Rightarrow> [] | Some k \<Rightarrow> [(k, snd st)])"
| "matches (RCls ci cl) st =
     (case crest (fst st) of [] \<Rightarrow> []
      | c # cs \<Rightarrow> if cls_match ci cl c then [(advance (fst st), snd st)] else [])"
| "matches RBegin st = (if cpos (fst st) = 0 then [st] else [])"
| "matches REnd st = (if crest (fst st) = [] then [st] else [])"
| "matches RWordB st = (if at_boundary (fst st) then [st] else [])"
| "matches (RSeq r1 r2) st = concat (map (matches r2) (matches r1 st))"
| "matches (RAlt r1 r2) st = matches r1 st @ matches r2 st"
| "matches (RStar greedy r) st = star_iter greedy (matches r) (length (crest (fst st))) st"
| "matches (RGroup n r) st =
     map (\<lambda>(k, g). (k, (n, (cpos (fst st), cpos k)) # g)) (matches r st)"

section \<open>Searching\<close>

text \<open>A match: its start, its end and its groups.\<close>

record rmatch =
  mstart :: nat
  mend :: nat
  mcaps :: caps

definition match_here :: "re \<Rightarrow> cursor \<Rightarrow> rmatch option" where
  "match_here r k = (case matches r (k, []) of [] \<Rightarrow> None
     | (k', g) # _ \<Rightarrow> Some \<lparr>mstart = cpos k, mend = cpos k', mcaps = g\<rparr>)"

fun search :: "re \<Rightarrow> nat \<Rightarrow> char option \<Rightarrow> gostr \<Rightarrow> rmatch option" where
  "search r i p [] = match_here r \<lparr>cpos = i, cprev = p, crest = []\<rparr>"
| "search r i p (c # cs) =
     (case match_here r \<lparr>cpos = i, cprev = p, crest = c # cs\<rparr> of
        Some m \<Rightarrow> Some m
      | None \<Rightarrow> search r (Suc i) (Some c) cs)"

definition cursor_at :: "gostr \<Rightarrow> nat \<Rightarrow> cursor" where
  "cursor_at s i = \<lparr>cpos = i, cprev = (if i = 0 then None else Some (s ! (i - 1))), crest = drop i s\<rparr>"

text \<open>The leftmost match that starts at \<open>pos\<close> or later; \<open>pos \<le> length s\<close>.\<close>

definition search_from :: "re \<Rightarrow> gostr \<Rightarrow> nat \<Rightarrow> rmatch option" where
  "search_from r s pos =
     search r pos (if pos = 0 then None else Some (s ! (pos - 1))) (drop pos s)"

text \<open>\<^verbatim>\<open>FindStringSubmatchIndex\<close> and \<^verbatim>\<open>FindStringIndex\<close>.\<close>

definition find :: "re \<Rightarrow> gostr \<Rightarrow> rmatch option" where
  "find r s = search r 0 None s"

definition MatchString :: "re \<Rightarrow> gostr \<Rightarrow> bool" where
  "MatchString r s \<longleftrightarrow> find r s \<noteq> None"

text \<open>The text of group \<open>n\<close> of a match (group 0 is the match), empty if it took no part.\<close>

definition group_span :: "rmatch \<Rightarrow> nat \<Rightarrow> (nat \<times> nat) option" where
  "group_span m n = (if n = 0 then Some (mstart m, mend m) else map_of (mcaps m) n)"

definition group :: "gostr \<Rightarrow> rmatch \<Rightarrow> nat \<Rightarrow> gostr" where
  "group s m n = (case group_span m n of None \<Rightarrow> [] | Some (a, b) \<Rightarrow> slice s a b)"

section \<open>Bounds of a match\<close>

text \<open>A cursor is in step with its subject; groups lie inside it.\<close>

definition cur_ok :: "gostr \<Rightarrow> cursor \<Rightarrow> bool" where
  "cur_ok s k \<longleftrightarrow> cpos k \<le> length s \<and> k = cursor_at s (cpos k)"

definition caps_ok :: "gostr \<Rightarrow> caps \<Rightarrow> bool" where
  "caps_ok s g \<longleftrightarrow> (\<forall>(n, a, b) \<in> set g. a \<le> b \<and> b \<le> length s)"

fun st_ok :: "gostr \<Rightarrow> mstate \<Rightarrow> bool" where
  "st_ok s (k, g) = (cur_ok s k \<and> caps_ok s g)"

primrec min_len :: "re \<Rightarrow> nat" where
  "min_len REmpty = 0"
| "min_len (RLit ci ps) = length ps"
| "min_len (RCls ci cl) = 1"
| "min_len RBegin = 0"
| "min_len REnd = 0"
| "min_len RWordB = 0"
| "min_len (RSeq r1 r2) = min_len r1 + min_len r2"
| "min_len (RAlt r1 r2) = min (min_len r1) (min_len r2)"
| "min_len (RStar greedy r) = 0"
| "min_len (RGroup n r) = min_len r"

lemma cur_ok_cursor_at: "i \<le> length s \<Longrightarrow> cur_ok s (cursor_at s i)"
  by (simp add: cur_ok_def cursor_at_def)

lemma caps_ok_Nil [simp]: "caps_ok s []"
  by (simp add: caps_ok_def)

lemma caps_ok_Cons [simp]:
  "caps_ok s ((n, a, b) # g) \<longleftrightarrow> a \<le> b \<and> b \<le> length s \<and> caps_ok s g"
  by (auto simp: caps_ok_def)

lemma cursor_at_sel [simp]:
  "cpos (cursor_at s i) = i" "crest (cursor_at s i) = drop i s"
  by (simp_all add: cursor_at_def)

lemma cur_okD:
  assumes "cur_ok s k"
  shows "cpos k \<le> length s" "crest k = drop (cpos k) s" "length (crest k) = length s - cpos k"
proof -
  from assms have k: "k = cursor_at s (cpos k)" and le: "cpos k \<le> length s"
    by (auto simp: cur_ok_def)
  show "cpos k \<le> length s" by (rule le)
  show "crest k = drop (cpos k) s" by (subst k) simp
  then show "length (crest k) = length s - cpos k" by simp
qed

lemma cursor_at_step:
  assumes "i < length s"
  shows "\<lparr>cpos = Suc i, cprev = Some (s ! i), crest = drop (Suc i) s\<rparr> = cursor_at s (Suc i)"
  by (simp add: cursor_at_def)

lemma cur_ok_step:
  assumes "cur_ok s k" and "crest k = c # cs"
  shows "\<lparr>cpos = Suc (cpos k), cprev = Some c, crest = cs\<rparr> = cursor_at s (Suc (cpos k))"
    and "cur_ok s \<lparr>cpos = Suc (cpos k), cprev = Some c, crest = cs\<rparr>"
    and "cpos k < length s"
proof -
  have d: "drop (cpos k) s = c # cs" using assms cur_okD(2) by metis
  then show lt: "cpos k < length s" by (metis drop_all list.distinct(1) not_le_imp_less)
  with d have "s ! cpos k = c" "drop (Suc (cpos k)) s = cs"
    by (metis nth_via_drop, metis Cons_nth_drop_Suc list.inject)
  with cursor_at_step [OF lt]
  show e: "\<lparr>cpos = Suc (cpos k), cprev = Some c, crest = cs\<rparr> = cursor_at s (Suc (cpos k))"
    by simp
  show "cur_ok s \<lparr>cpos = Suc (cpos k), cprev = Some c, crest = cs\<rparr>"
    unfolding e using lt by (intro cur_ok_cursor_at) simp
qed

lemma match_lit_ok:
  "match_lit ci ps k = Some k' \<Longrightarrow> cur_ok s k \<Longrightarrow> cur_ok s k' \<and> cpos k' = cpos k + length ps"
proof (induction ci ps k rule: match_lit.induct)
  case (2 ci p ps k)
  then obtain c cs where c: "crest k = c # cs" and l: "lit_char ci p c"
    and m: "match_lit ci ps \<lparr>cpos = Suc (cpos k), cprev = Some c, crest = cs\<rparr> = Some k'"
    by (auto split: list.splits if_splits)
  from "2.IH" [OF c l m] cur_ok_step(2) [OF "2.prems"(2) c] show ?case by simp
qed simp

text \<open>What one step of a sub-pattern keeps, iteration keeps.\<close>

lemma star_iter_inv:
  assumes f: "\<And>st st'. P st \<Longrightarrow> st' \<in> set (f st) \<Longrightarrow> P st' \<and> cpos (fst st) \<le> cpos (fst st')"
  shows "P st \<Longrightarrow> st' \<in> set (star_iter greedy f n st) \<Longrightarrow> P st' \<and> cpos (fst st) \<le> cpos (fst st')"
proof (induction n arbitrary: st)
  case 0
  then show ?case by simp
next
  case (Suc n)
  show ?case
  proof (cases "st' = st")
    case True
    with Suc.prems show ?thesis by simp
  next
    case False
    with Suc.prems(2) obtain st1 where 1: "st1 \<in> set (f st)" "st' \<in> set (star_iter greedy f n st1)"
      by (auto simp: Let_def split: if_splits)
    from f [OF Suc.prems(1) 1(1)] Suc.IH [OF _ 1(2)] show ?thesis by fastforce
  qed
qed

lemma matches_ok:
  "st_ok s st \<Longrightarrow> st' \<in> set (matches r st) \<Longrightarrow>
     st_ok s st' \<and> cpos (fst st) + min_len r \<le> cpos (fst st')"
proof (induction r arbitrary: st st')
  case (RLit ci ps)
  then show ?case
    by (cases st) (auto split: option.splits dest: match_lit_ok [OF sym])
next
  case (RCls ci cl)
  then show ?case
  proof (cases st)
    case (Pair k g)
    with RCls.prems obtain c cs where c: "crest k = c # cs" and st': "st' = (advance k, g)"
      by (cases "crest k") (auto simp del: advance.simps split: if_splits)
    from cur_ok_step(2) [OF _ c] RCls.prems(1) Pair st' c show ?thesis by simp
  qed
next
  case (RSeq r1 r2)
  from RSeq.prems(2) obtain st1 where 1: "st1 \<in> set (matches r1 st)" "st' \<in> set (matches r2 st1)"
    by auto
  note a = RSeq.IH(1) [OF RSeq.prems(1) 1(1)]
  from a RSeq.IH(2) [OF conjunct1 [OF a] 1(2)] show ?case by simp
next
  case (RAlt r1 r2)
  from RAlt.prems(2) consider "st' \<in> set (matches r1 st)" | "st' \<in> set (matches r2 st)" by auto
  then show ?case
  proof cases
    case 1
    from RAlt.IH(1) [OF RAlt.prems(1) 1] show ?thesis by (simp add: min_def)
  next
    case 2
    from RAlt.IH(2) [OF RAlt.prems(1) 2] show ?thesis by (simp add: min_def)
  qed
next
  case (RStar greedy r)
  have "st_ok s st2 \<and> cpos (fst st1) \<le> cpos (fst st2)"
    if "st_ok s st1" "st2 \<in> set (matches r st1)" for st1 st2
    using RStar.IH [OF that] by linarith
  from star_iter_inv [where P = "st_ok s" and f = "matches r", OF this RStar.prems(1)] RStar.prems(2)
  show ?case by simp
next
  case (RGroup n r)
  from RGroup.prems(2) obtain k g where kg: "(k, g) \<in> set (matches r st)"
    and st': "st' = (k, (n, cpos (fst st), cpos k) # g)" by auto
  from RGroup.IH [OF RGroup.prems(1) kg] st' show ?case
    by (auto simp: cur_okD(1))
qed (auto split: if_splits)

lemma match_here_ok:
  assumes "match_here r k = Some m" and "cur_ok s k"
  shows "mstart m = cpos k" "mstart m + min_len r \<le> mend m" "mend m \<le> length s"
    "caps_ok s (mcaps m)"
proof -
  from assms(1) obtain k' g ms where ms: "matches r (k, []) = (k', g) # ms"
    and m: "m = \<lparr>mstart = cpos k, mend = cpos k', mcaps = g\<rparr>"
    by (auto simp: match_here_def split: list.splits)
  have "st_ok s (k', g) \<and> cpos k + min_len r \<le> cpos k'"
    using matches_ok [of s "(k, [])" "(k', g)" r] assms(2) ms by simp
  with m show "mstart m = cpos k" "mstart m + min_len r \<le> mend m" "mend m \<le> length s"
    "caps_ok s (mcaps m)"
    by (auto dest: cur_okD(1))
qed

text \<open>The search returns the leftmost position at which the pattern matches.\<close>

lemma search_spec:
  assumes "drop i s = t" "i \<le> length s" "p = (if i = 0 then None else Some (s ! (i - 1)))"
  shows "(case search r i p t of
            None \<Rightarrow> (\<forall>j. i \<le> j \<and> j \<le> length s \<longrightarrow> match_here r (cursor_at s j) = None)
          | Some m \<Rightarrow> i \<le> mstart m \<and> mstart m \<le> length s
                \<and> match_here r (cursor_at s (mstart m)) = Some m
                \<and> (\<forall>j. i \<le> j \<and> j < mstart m \<longrightarrow> match_here r (cursor_at s j) = None))"
  using assms
proof (induction t arbitrary: i p)
  case Nil
  then have i: "i = length s" by simp
  with Nil have "\<lparr>cpos = i, cprev = p, crest = []\<rparr> = cursor_at s i"
    by (simp add: cursor_at_def)
  then show ?case using i match_here_ok(1) [OF _ cur_ok_cursor_at [of i s]]
    by (fastforce split: option.splits)
next
  case (Cons c t)
  have lt: "i < length s" using Cons.prems(1) by (metis drop_all list.distinct(1) not_le_imp_less)
  have c: "s ! i = c" and d: "drop (Suc i) s = t"
    using Cons.prems(1) lt by (metis nth_via_drop, metis Cons_nth_drop_Suc list.inject)
  have cur: "\<lparr>cpos = i, cprev = p, crest = c # t\<rparr> = cursor_at s i"
    using Cons.prems by (simp add: cursor_at_def)
  show ?case
  proof (cases "match_here r (cursor_at s i)")
    case (Some m)
    then show ?thesis
      using lt cur match_here_ok(1) [OF Some cur_ok_cursor_at [of i s]] by auto
  next
    case None
    have step: "i \<le> j \<longleftrightarrow> j = i \<or> Suc i \<le> j" for j by auto
    from Cons.IH [of "Suc i" "Some c"] lt c d
    show ?thesis
      by (auto simp: None cur step split: option.splits)
  qed
qed

lemma search_from_None:
  "pos \<le> length s \<Longrightarrow> search_from r s pos = None \<longleftrightarrow>
     (\<forall>j. pos \<le> j \<and> j \<le> length s \<longrightarrow> match_here r (cursor_at s j) = None)"
  using search_spec [of pos s _ _ r]
  by (fastforce simp: search_from_def split: option.splits)

lemma search_from_Some:
  assumes "search_from r s pos = Some m" "pos \<le> length s"
  shows "pos \<le> mstart m" "match_here r (cursor_at s (mstart m)) = Some m"
    "\<And>j. pos \<le> j \<Longrightarrow> j < mstart m \<Longrightarrow> match_here r (cursor_at s j) = None"
    "mstart m + min_len r \<le> mend m" "mend m \<le> length s" "caps_ok s (mcaps m)"
proof -
  note sp = search_spec [OF refl assms(2) refl, of r, folded search_from_def, unfolded assms(1), simplified]
  then show "pos \<le> mstart m" "match_here r (cursor_at s (mstart m)) = Some m"
    "\<And>j. pos \<le> j \<Longrightarrow> j < mstart m \<Longrightarrow> match_here r (cursor_at s j) = None" by auto
  then show "mstart m + min_len r \<le> mend m" "mend m \<le> length s" "caps_ok s (mcaps m)"
    using match_here_ok [of r "cursor_at s (mstart m)" m s] cur_ok_cursor_at [of "mstart m" s] sp
    by auto
qed

lemma find_search_from: "find r s = search_from r s 0"
  by (simp add: find_def search_from_def)

lemmas find_Some = search_from_Some(2-6) [of _ _ 0, folded find_search_from, simplified]
lemmas find_None = search_from_None [of 0, folded find_search_from, simplified]

lemma search_from_bounds [go_bounds]:
  assumes "search_from r s pos = Some m" "pos \<le> length s"
  shows "pos \<le> mstart m" "mstart m \<le> mend m" "mend m \<le> length s"
  using search_from_Some [OF assms] by auto

section \<open>Replacing\<close>

text \<open>
  \<^verbatim>\<open>Regexp.replaceAll\<close>: \<open>le\<close> is the end of the most recent match, \<open>pos\<close> where the
  next search starts, \<open>buf\<close> the output so far.  \<open>next_pos\<close> advances by at least one byte.
\<close>

definition next_pos :: "gostr \<Rightarrow> nat \<Rightarrow> rmatch \<Rightarrow> nat" where
  "next_pos s pos m =
     (let width = (if pos < length s then 1 else 0) in
      if mend m < pos + width then pos + width
      else if mend m < pos + 1 then pos + 1
      else mend m)"

lemma next_pos_less:
  assumes "search_from r s pos = Some m" "pos \<le> length s"
  shows "pos < next_pos s pos m"
  using search_from_bounds [OF assms] by (auto simp: next_pos_def Let_def)

function replace_loop :: "re \<Rightarrow> (rmatch \<Rightarrow> gostr) \<Rightarrow> gostr \<Rightarrow> nat \<Rightarrow> nat \<Rightarrow> gostr \<Rightarrow> gostr" where
  "replace_loop r f s le pos buf =
     (if pos \<le> length s then
        (case search_from r s pos of
           None \<Rightarrow> buf @ drop le s
         | Some m \<Rightarrow>
             (let buf1 = buf @ slice s le (mstart m);
                  buf2 = (if le < mend m \<or> mstart m = 0 then buf1 @ f m else buf1)
              in replace_loop r f s (mend m) (next_pos s pos m) buf2))
      else buf @ drop le s)"
  by pat_completeness auto
termination
  by (relation "measure (\<lambda>(r, f, s, le, pos, buf). Suc (length s) - pos)")
     (auto dest: next_pos_less)

declare replace_loop.simps [simp del]

definition ReplaceAllFunc :: "re \<Rightarrow> gostr \<Rightarrow> (rmatch \<Rightarrow> gostr) \<Rightarrow> gostr" where
  "ReplaceAllFunc r s f = replace_loop r f s 0 0 []"

subsection \<open>Templates\<close>

text \<open>\<^verbatim>\<open>regexp.extract\<close>: the name or number that follows a \<^verbatim>\<open>$\<close>.  \<open>None\<close> is a malformed
  reference; \<open>Some (num, rest)\<close> has \<open>num = None\<close> for a name that is not a group number
  (the server's patterns have no named groups).\<close>

definition parse_num :: "gostr \<Rightarrow> nat option" where
  "parse_num name =
     (if list_all is_digit name \<and> int (digits_val (butlast name)) < 100000000
         \<and> \<not> (length name > 1 \<and> hd name = CHR ''0'')
      then Some (digits_val name) else None)"

definition extract_ref :: "gostr \<Rightarrow> (nat option \<times> gostr) option" where
  "extract_ref str =
     (let brace = HasPrefix str ''{'';
          body = (if brace then tl str else str);
          name = takeWhile is_word body;
          rest = dropWhile is_word body
      in if name = [] then None
         else if brace then
           (if HasPrefix rest ''}'' then Some (parse_num name, tl rest) else None)
         else Some (parse_num name, rest))"

lemma extract_ref_length: "extract_ref str = Some (n, rest) \<Longrightarrow> length rest < length str"
proof -
  have dw: "takeWhile P xs \<noteq> [] \<Longrightarrow> length (dropWhile P xs) < length xs" for P :: "char \<Rightarrow> bool" and xs
    by (cases xs) (auto simp: length_dropWhile_le less_Suc_eq_le split: if_splits)
  assume "extract_ref str = Some (n, rest)"
  then show ?thesis
    using dw [of is_word str] dw [of is_word "tl str"]
    by (auto simp: extract_ref_def Let_def split: if_splits)
qed

text \<open>\<^verbatim>\<open>Regexp.expand\<close>; \<open>grp\<close> gives the text of a group of the match.\<close>

function expand :: "gostr \<Rightarrow> (nat \<Rightarrow> gostr) \<Rightarrow> gostr" where
  "expand [] grp = []"
| "expand (c # cs) grp =
     (if c \<noteq> CHR ''$'' then c # expand cs grp
      else if HasPrefix cs ''$'' then CHR ''$'' # expand (tl cs) grp
      else (case extract_ref cs of
              None \<Rightarrow> CHR ''$'' # expand cs grp
            | Some (None, rest) \<Rightarrow> expand rest grp
            | Some (Some n, rest) \<Rightarrow> grp n @ expand rest grp))"
  by pat_completeness auto
termination
  by (relation "measure (\<lambda>(t, grp). length t)")
     (auto dest: extract_ref_length simp: less_Suc_eq_le)

definition ReplaceAllString :: "re \<Rightarrow> gostr \<Rightarrow> gostr \<Rightarrow> gostr" where
  "ReplaceAllString r s repl = ReplaceAllFunc r s (\<lambda>m. expand repl (group s m))"

text \<open>\<^verbatim>\<open>ReplaceAllStringFunc\<close>: the callback sees the matched text only.\<close>

definition ReplaceAllStringFunc :: "re \<Rightarrow> gostr \<Rightarrow> (gostr \<Rightarrow> gostr) \<Rightarrow> gostr" where
  "ReplaceAllStringFunc r s f = ReplaceAllFunc r s (\<lambda>m. f (group s m 0))"

section \<open>All matches\<close>

text \<open>\<^verbatim>\<open>Regexp.allMatches\<close>; \<open>prev\<close> is the end of the previous match.\<close>

lemma search_from_less:
  "search_from r s pos = Some m \<Longrightarrow> pos \<le> length s \<Longrightarrow> mend m \<noteq> pos \<Longrightarrow>
     Suc (length s) - mend m < Suc (length s) - pos"
  by (frule (1) search_from_bounds, drule (1) search_from_bounds(2)) linarith

function all_matches :: "re \<Rightarrow> gostr \<Rightarrow> nat \<Rightarrow> nat option \<Rightarrow> rmatch list" where
  "all_matches r s pos prev =
     (if pos \<le> length s then
        (case search_from r s pos of
           None \<Rightarrow> []
         | Some m \<Rightarrow>
             (let accept = \<not> (mend m = pos \<and> Some (mstart m) = prev);
                  pos' = (if mend m = pos then pos + 1 else mend m);
                  ms = all_matches r s pos' (Some (mend m))
              in if accept then m # ms else ms))
      else [])"
  by pat_completeness auto
termination
  by (relation "measure (\<lambda>(r, s, pos, prev). Suc (length s) - pos)")
     (auto dest: search_from_less)

declare all_matches.simps [simp del]

definition FindAll :: "re \<Rightarrow> gostr \<Rightarrow> rmatch list" where
  "FindAll r s = all_matches r s 0 None"

section \<open>Laws of replacing\<close>

lemma ReplaceAllFunc_no_match: "find r s = None \<Longrightarrow> ReplaceAllFunc r s f = s"
  by (simp add: ReplaceAllFunc_def find_search_from replace_loop.simps)

lemma ReplaceAllString_no_match [go_str]: "\<not> MatchString r s \<Longrightarrow> ReplaceAllString r s t = s"
  by (simp add: MatchString_def ReplaceAllString_def ReplaceAllFunc_no_match)

lemma ReplaceAllStringFunc_no_match [go_str]:
  "\<not> MatchString r s \<Longrightarrow> ReplaceAllStringFunc r s f = s"
  by (simp add: MatchString_def ReplaceAllStringFunc_def ReplaceAllFunc_no_match)

text \<open>For a pattern that consumes at least one byte the loop takes the simple form: copy
  up to the match, put the replacement, go on behind the match.\<close>

lemma replace_loop_nonempty:
  assumes "0 < min_len r" "pos \<le> length s"
  shows "replace_loop r f s pos pos buf =
     (case search_from r s pos of
        None \<Rightarrow> buf @ drop pos s
      | Some m \<Rightarrow> replace_loop r f s (mend m) (mend m) (buf @ slice s pos (mstart m) @ f m))"
proof (cases "search_from r s pos")
  case None
  with assms show ?thesis by (simp add: replace_loop.simps)
next
  case (Some m)
  note b = search_from_Some [OF Some assms(2)]
  from b(1,4) assms(1) have "pos < mend m" by linarith
  then have n: "next_pos s pos m = mend m"
    by (auto simp: next_pos_def Let_def)
  show ?thesis
    using \<open>pos < mend m\<close> assms(2) by (subst replace_loop.simps) (simp add: Some n Let_def)
qed

lemma replace_loop_buf:
  "replace_loop r f s le pos buf = buf @ replace_loop r f s le pos []"
proof (induction "Suc (length s) - pos" arbitrary: pos le buf rule: less_induct)
  case less
  show ?case
  proof (cases "pos \<le> length s")
    case False
    then show ?thesis by (simp add: replace_loop.simps)
  next
    case True
    show ?thesis
    proof (cases "search_from r s pos")
      case None
      then show ?thesis by (simp add: replace_loop.simps)
    next
      case (Some m)
      have "Suc (length s) - next_pos s pos m < Suc (length s) - pos"
        using next_pos_less [OF Some True] True by linarith
      note ih = less [OF this, of "mend m"]
      show ?thesis
        using True ih [of "buf @ slice s le (mstart m) @ f m"] ih [of "slice s le (mstart m) @ f m"]
          ih [of "buf @ slice s le (mstart m)"] ih [of "slice s le (mstart m)"]
        by (subst (1 2) replace_loop.simps) (simp add: Some Let_def)
    qed
  qed
qed

text \<open>The output behind position \<open>pos\<close>, for a pattern that consumes.\<close>

abbreviation replaced_from :: "re \<Rightarrow> (rmatch \<Rightarrow> gostr) \<Rightarrow> gostr \<Rightarrow> nat \<Rightarrow> gostr" where
  "replaced_from r f s pos \<equiv> replace_loop r f s pos pos []"

lemma replaced_from_unfold:
  assumes "0 < min_len r" "pos \<le> length s"
  shows "replaced_from r f s pos =
     (case search_from r s pos of
        None \<Rightarrow> drop pos s
      | Some m \<Rightarrow> slice s pos (mstart m) @ f m @ replaced_from r f s (mend m))"
proof (cases "search_from r s pos")
  case None
  then show ?thesis using replace_loop_nonempty [OF assms, of f "[]"] by simp
next
  case (Some m)
  then have "replaced_from r f s pos = replace_loop r f s (mend m) (mend m) (slice s pos (mstart m) @ f m)"
    using replace_loop_nonempty [OF assms, of f "[]"] by simp
  also have "\<dots> = (slice s pos (mstart m) @ f m) @ replaced_from r f s (mend m)"
    by (rule replace_loop_buf)
  finally show ?thesis using Some by simp
qed

lemma ReplaceAllFunc_replaced: "ReplaceAllFunc r s f = replaced_from r f s 0"
  by (simp add: ReplaceAllFunc_def)

lemma ReplaceAllFunc_once:
  assumes "0 < min_len r" "find r s = Some m" "search_from r s (mend m) = None"
  shows "ReplaceAllFunc r s f = take (mstart m) s @ f m @ drop (mend m) s"
proof -
  have "mend m \<le> length s" using find_Some(4) [OF assms(2)] by simp
  then show ?thesis
    using assms replaced_from_unfold [OF assms(1), of 0 s f] replaced_from_unfold [OF assms(1), of "mend m" s f]
    by (simp add: ReplaceAllFunc_replaced find_search_from slice_def)
qed

text \<open>Induction over the matches of a pattern that consumes.\<close>

lemma replace_induct [consumes 2, case_names None Some]:
  assumes "0 < min_len r" "pos \<le> length s"
    and N: "\<And>pos. pos \<le> length s \<Longrightarrow> search_from r s pos = None \<Longrightarrow> P pos"
    and S: "\<And>pos m. pos \<le> length s \<Longrightarrow> search_from r s pos = Some m \<Longrightarrow> pos < mend m \<Longrightarrow>
              mend m \<le> length s \<Longrightarrow> P (mend m) \<Longrightarrow> P pos"
  shows "P pos"
  using assms(2)
proof (induction "length s - pos" arbitrary: pos rule: less_induct)
  case less
  show ?case
  proof (cases "search_from r s pos")
    case None
    with less.prems show ?thesis by (rule N)
  next
    case (Some m)
    note b = search_from_Some [OF Some less.prems]
    from b(1,4) assms(1) have lt: "pos < mend m" by linarith
    have "P (mend m)"
      using less.hyps [of "mend m"] b(5) lt less.prems by linarith
    from S [OF less.prems Some lt b(5) this] show ?thesis .
  qed
qed

text \<open>Every byte of the output comes from the subject or from a replacement.\<close>

lemma set_slice: "set (slice s i j) \<subseteq> set s"
  by (metis slice_def set_drop_subset set_take_subset subset_trans)

lemma set_group: "set (group s m n) \<subseteq> set s"
  by (auto simp: group_def split: option.splits dest: set_slice [THEN subsetD])

lemma ReplaceAllFunc_set:
  assumes "0 < min_len r"
  shows "set (ReplaceAllFunc r s f) \<subseteq> set s \<union> (\<Union>m. set (f m))"
proof -
  have "set (replaced_from r f s pos) \<subseteq> set s \<union> (\<Union>m. set (f m))" if "pos \<le> length s" for pos
    using assms that
  proof (induction pos rule: replace_induct)
    case (None pos)
    then have "replaced_from r f s pos = drop pos s"
      by (subst replaced_from_unfold [OF assms]) simp_all
    then show ?case using set_drop_subset [of pos s] by auto
  next
    case (Some pos m)
    then have "replaced_from r f s pos = slice s pos (mstart m) @ f m @ replaced_from r f s (mend m)"
      by (subst replaced_from_unfold [OF assms]) simp_all
    then show ?case using Some.IH Some.hyps set_slice [of s pos "mstart m"] by auto
  qed
  then show ?thesis by (simp add: ReplaceAllFunc_replaced)
qed

section \<open>Matching at an index\<close>

text \<open>The equations of the matcher on cursors of a subject \<open>s\<close>, by index.\<close>

definition boundary :: "gostr \<Rightarrow> nat \<Rightarrow> bool" where
  "boundary s i \<longleftrightarrow> (0 < i \<and> is_word (s ! (i - 1))) \<noteq> (i < length s \<and> is_word (s ! i))"

definition lit_at :: "bool \<Rightarrow> gostr \<Rightarrow> gostr \<Rightarrow> nat \<Rightarrow> bool" where
  "lit_at ci ps s i \<longleftrightarrow> i + length ps \<le> length s \<and> list_all2 (lit_char ci) ps (slice s i (i + length ps))"

text \<open>Length of the run of bytes with property \<open>P\<close> that starts at \<open>i\<close>.\<close>

definition run :: "(char \<Rightarrow> bool) \<Rightarrow> gostr \<Rightarrow> nat \<Rightarrow> nat" where
  "run P s i = length (takeWhile P (drop i s))"

lemma drop_Cons_nth: "i < length s \<Longrightarrow> drop i s = s ! i # drop (Suc i) s"
  by (rule Cons_nth_drop_Suc [symmetric])

lemma run_step [simp]:
  "i < length s \<Longrightarrow> P (s ! i) \<Longrightarrow> run P s i = Suc (run P s (Suc i))"
  "i < length s \<Longrightarrow> \<not> P (s ! i) \<Longrightarrow> run P s i = 0"
  "length s \<le> i \<Longrightarrow> run P s i = 0"
  by (simp_all add: run_def drop_Cons_nth)

lemma run_le [go_bounds]: "i \<le> length s \<Longrightarrow> i + run P s i \<le> length s"
  using length_takeWhile_le [of P "drop i s"] by (simp add: run_def)

lemma run_nth: "j < run P s i \<Longrightarrow> P (s ! (i + j))"
proof -
  assume j: "j < run P s i"
  then have "takeWhile P (drop i s) ! j = drop i s ! j" by (simp add: run_def takeWhile_nth)
  moreover have "P (takeWhile P (drop i s) ! j)"
    using j by (auto simp: run_def dest!: nth_mem set_takeWhileD)
  moreover have "i + j < length s"
    using j length_takeWhile_le [of P "drop i s"] by (simp add: run_def)
  ultimately show ?thesis by simp
qed

lemma run_end: "i + run P s i < length s \<Longrightarrow> \<not> P (s ! (i + run P s i))"
  using nth_length_takeWhile [of P "drop i s"] by (simp add: run_def)

lemma cursor_at_prev: "cprev (cursor_at s i) = (if i = 0 then None else Some (s ! (i - 1)))"
  by (simp add: cursor_at_def)

lemma advance_cursor_at [simp]: "i < length s \<Longrightarrow> advance (cursor_at s i) = cursor_at s (Suc i)"
  by (simp add: drop_Cons_nth) (simp add: cursor_at_def)

lemma matches_cls_at [re_at]:
  "matches (RCls ci cl) (cursor_at s i, g) =
     (if i < length s \<and> cls_match ci cl (s ! i) then [(cursor_at s (Suc i), g)] else [])"
proof (cases "i < length s")
  case True
  then show ?thesis
    using advance_cursor_at [OF True] by (simp add: drop_Cons_nth del: advance.simps advance_cursor_at)
qed simp

lemma match_lit_at:
  "i \<le> length s \<Longrightarrow> match_lit ci ps (cursor_at s i) =
     (if lit_at ci ps s i then Some (cursor_at s (i + length ps)) else None)"
proof (induction ps arbitrary: i)
  case Nil
  then show ?case by (simp add: lit_at_def)
next
  case (Cons p ps)
  show ?case
  proof (cases "i < length s")
    case False
    with Cons.prems show ?thesis by (simp add: lit_at_def)
  next
    case True
    have "lit_at ci (p # ps) s i \<longleftrightarrow> lit_char ci p (s ! i) \<and> lit_at ci ps s (Suc i)"
      using True by (auto simp: lit_at_def slice_Suc)
    with True Cons.IH [of "Suc i"] show ?thesis
      by (simp add: drop_Cons_nth cursor_at_step)
  qed
qed

lemma matches_lit_at [re_at]:
  "i \<le> length s \<Longrightarrow> matches (RLit ci ps) (cursor_at s i, g) =
     (if lit_at ci ps s i then [(cursor_at s (i + length ps), g)] else [])"
  by (simp add: match_lit_at)

lemma matches_begin_at [re_at]:
  "matches RBegin (cursor_at s i, g) = (if i = 0 then [(cursor_at s i, g)] else [])"
  by simp

lemma matches_end_at [re_at]:
  "matches REnd (cursor_at s i, g) = (if length s \<le> i then [(cursor_at s i, g)] else [])"
  by simp

lemma matches_wordb_at [re_at]:
  "matches RWordB (cursor_at s i, g) = (if boundary s i then [(cursor_at s i, g)] else [])"
proof -
  have "at_boundary (cursor_at s i) \<longleftrightarrow> boundary s i"
    by (cases "i < length s") (auto simp: at_boundary_def boundary_def word_at_def cursor_at_prev
        drop_Cons_nth)
  then show ?thesis by simp
qed

text \<open>A greedy loop over a class prefers the whole run, then its prefixes, longest first.\<close>

lemma rev_upt_Suc_shift: "rev [0..<Suc (Suc n)] = map Suc (rev [0..<Suc n]) @ [0]"
  by (simp only: rev_map [symmetric] map_Suc_upt) (simp add: upt_conv_Cons del: upt_Suc)

lemma star_iter_cls:
  assumes "run (cls_match ci cl) s i \<le> n" "i \<le> length s"
  shows "star_iter True (matches (RCls ci cl)) n (cursor_at s i, g) =
     map (\<lambda>j. (cursor_at s (i + j), g)) (rev [0..<Suc (run (cls_match ci cl) s i)])"
  using assms
proof (induction n arbitrary: i)
  case 0
  then show ?case by simp
next
  case (Suc n)
  show ?case
  proof (cases "i < length s \<and> cls_match ci cl (s ! i)")
    case False
    then have "run (cls_match ci cl) s i = 0"
      using Suc.prems(2) by (cases "i < length s") auto
    with False show ?thesis by (auto simp: re_at Let_def simp del: matches.simps)
  next
    case True
    then have r: "run (cls_match ci cl) s i = Suc (run (cls_match ci cl) s (Suc i))" by simp
    have "star_iter True (matches (RCls ci cl)) n (cursor_at s (Suc i), g) =
        map (\<lambda>j. (cursor_at s (Suc i + j), g)) (rev [0..<Suc (run (cls_match ci cl) s (Suc i))])"
      using Suc.prems(1) True r by (intro Suc.IH) auto
    then show ?thesis
      using True by (simp add: re_at Let_def r rev_upt_Suc_shift comp_def
          del: matches.simps upt_Suc run_step)
  qed
qed

lemma matches_star_cls_at [re_at]:
  assumes "i \<le> length s"
  shows "matches (RStar True (RCls ci cl)) (cursor_at s i, g) =
     map (\<lambda>j. (cursor_at s (i + j), g)) (rev [0..<Suc (run (cls_match ci cl) s i)])"
proof -
  have "run (cls_match ci cl) s i \<le> length s - i"
    using run_le [OF assms, of "cls_match ci cl"] by linarith
  from star_iter_cls [OF this assms] show ?thesis by simp
qed

text \<open>The preferred match of a sequence that starts with such a loop, when what follows
  matches behind the whole run.\<close>

lemma hd_star_cls:
  assumes "i \<le> length s" "f (cursor_at s (i + run (cls_match ci cl) s i), g) = x # xs"
  shows "\<exists>ys. concat (map f (matches (RStar True (RCls ci cl)) (cursor_at s i, g))) = x # ys"
  unfolding matches_star_cls_at [OF assms(1)] by (simp add: assms(2))

lemma cls_match_simps [simp]:
  "cls_match False r_s = is_re_space" "cls_match False r_w = is_word" "cls_match False r_d = is_digit"
  by (auto simp: citem_match_def fun_eq_iff)

section \<open>Deriving the preferred match\<close>

text \<open>\<open>first_match s r i g j g'\<close>: from index \<open>i\<close> of \<open>s\<close> the preferred match of \<open>r\<close> ends at
  \<open>j\<close>, and takes the groups from \<open>g\<close> to \<open>g'\<close>.  The rules follow the syntax of \<open>r\<close>; where a
  run of a class is followed by something that matches behind the run, no backtracking is
  needed.\<close>

definition first_match :: "gostr \<Rightarrow> re \<Rightarrow> nat \<Rightarrow> caps \<Rightarrow> nat \<Rightarrow> caps \<Rightarrow> bool" where
  "first_match s r i g j g' \<longleftrightarrow> (\<exists>ys. matches r (cursor_at s i, g) = (cursor_at s j, g') # ys)"

definition no_match :: "gostr \<Rightarrow> re \<Rightarrow> nat \<Rightarrow> bool" where
  "no_match s r i \<longleftrightarrow> (\<forall>g. matches r (cursor_at s i, g) = [])"

lemma fm_empty [re_first]: "first_match s REmpty i g i g"
  by (simp add: first_match_def)

lemma fm_begin [re_first]: "first_match s RBegin 0 g 0 g"
  by (simp add: first_match_def)

lemma fm_end [re_first]: "length s \<le> i \<Longrightarrow> first_match s REnd i g i g"
  by (simp add: first_match_def)

lemma fm_wordb [re_first]: "boundary s i \<Longrightarrow> first_match s RWordB i g i g"
  unfolding first_match_def matches_wordb_at by simp

lemma lit_at_drop:
  assumes "drop i s = u @ rest" "list_all2 (lit_char ci) ps u" "i \<le> length s"
  shows "lit_at ci ps s i" and "drop (i + length ps) s = rest" and "i + length ps \<le> length s"
proof -
  have l: "length ps = length u" using assms(2) by (rule list_all2_lengthD)
  have "length (drop i s) = length u + length rest" by (simp add: assms(1))
  then show le: "i + length ps \<le> length s" using l assms(3) by simp
  show "drop (i + length ps) s = rest"
    using assms(1) l by (metis add.commute append_eq_conv_conj drop_drop)
  show "lit_at ci ps s i"
    using assms(1,2) l le by (simp add: lit_at_def slice_def)
qed

lemma fm_lit [re_first]:
  assumes "drop i s = u @ rest" "list_all2 (lit_char ci) ps u" "i \<le> length s"
  shows "first_match s (RLit ci ps) i g (i + length ps) g"
  unfolding first_match_def using lit_at_drop(1) [OF assms] matches_lit_at [OF assms(3)] by simp

lemma fm_lit_to:
  assumes "drop i s = u @ rest" "list_all2 (lit_char ci) ps u" "i \<le> length s" "j = i + length ps"
  shows "first_match s (RLit ci ps) i g j g"
  using fm_lit [OF assms(1-3)] assms(4) by simp

lemma fm_cls [re_first]:
  assumes "drop i s = c # rest" "cls_match ci cl c"
  shows "first_match s (RCls ci cl) i g (Suc i) g"
proof -
  have "i < length s" "s ! i = c" using assms(1)
    by (metis drop_all list.distinct(1) not_le_imp_less, metis nth_via_drop)
  with assms(2) show ?thesis unfolding first_match_def matches_cls_at by simp
qed

lemma fm_seq [re_first]:
  "first_match s r1 i g j g1 \<Longrightarrow> first_match s r2 j g1 k g2 \<Longrightarrow> first_match s (RSeq r1 r2) i g k g2"
  by (auto simp: first_match_def)

lemma fm_alt1 [re_first]: "first_match s r1 i g j g' \<Longrightarrow> first_match s (RAlt r1 r2) i g j g'"
  by (auto simp: first_match_def)

lemma fm_alt2 [re_first]:
  "no_match s r1 i \<Longrightarrow> first_match s r2 i g j g' \<Longrightarrow> first_match s (RAlt r1 r2) i g j g'"
  by (auto simp: first_match_def no_match_def)

lemma fm_group [re_first]:
  "first_match s r i g j g' \<Longrightarrow> first_match s (RGroup n r) i g j ((n, (i, j)) # g')"
  by (auto simp: first_match_def)

lemma run_drop:
  "drop i s = w @ rest \<Longrightarrow> \<forall>c \<in> set w. P c \<Longrightarrow> rest = [] \<or> \<not> P (hd rest) \<Longrightarrow> run P s i = length w"
  by (cases rest) (simp_all add: run_def takeWhile_append2 takeWhile_eq_all_conv [THEN iffD2])

lemma fm_star [re_first]:
  assumes "drop i s = w @ rest" "\<forall>c \<in> set w. cls_match ci cl c" "rest = [] \<or> \<not> cls_match ci cl (hd rest)"
    "i \<le> length s"
  shows "first_match s (RStar True (RCls ci cl)) i g (i + length w) g"
  using run_drop [OF assms(1-3)]
  unfolding first_match_def matches_star_cls_at [OF assms(4)] by simp

lemma drop_append_index: "drop i s = w @ rest \<Longrightarrow> drop (i + length w) s = rest"
  by (metis add.commute append_eq_conv_conj drop_drop)

lemma nm_lit:
  assumes "drop i s = c # rest" "\<not> lit_char ci p c"
  shows "no_match s (RLit ci (p # ps)) i"
proof -
  have i: "i < length s" "s ! i = c" using assms(1)
    by (metis drop_all list.distinct(1) not_le_imp_less, metis nth_via_drop)
  then have "\<not> lit_at ci (p # ps) s i" using assms(2) by (auto simp: lit_at_def slice_Suc)
  then show ?thesis using i matches_lit_at [of i s ci "p # ps"] by (simp add: no_match_def)
qed

lemma nm_lit_at: "i < length s \<longrightarrow> \<not> lit_char ci p (s ! i) \<Longrightarrow> i \<le> length s \<Longrightarrow> no_match s (RLit ci (p # ps)) i"
  using nm_lit [of i s "s ! i" "drop (Suc i) s" ci p ps] matches_lit_at [of i s ci "p # ps"]
  by (cases "i < length s") (auto simp: drop_Cons_nth no_match_def lit_at_def)

lemma nm_cls:
  "drop i s = c # rest \<Longrightarrow> \<not> cls_match ci cl c \<Longrightarrow> no_match s (RCls ci cl) i"
  unfolding no_match_def matches_cls_at by (metis nth_via_drop)

lemma nm_seq: "no_match s r1 i \<Longrightarrow> no_match s (RSeq r1 r2) i"
  by (simp add: no_match_def)

lemma nm_alt: "no_match s r1 i \<Longrightarrow> no_match s r2 i \<Longrightarrow> no_match s (RAlt r1 r2) i"
  by (simp add: no_match_def)

lemma lower_char_quote_eq: "\<not> is_letter p \<Longrightarrow> lit_char True p c \<longleftrightarrow> c = p"
  by (metis lit_char_def lower_char_eq_iff)


lemma fm_star_sp:
  assumes "drop i s = w @ rest" "\<forall>c \<in> set w. is_re_space c" "rest = [] \<or> \<not> is_re_space (hd rest)" "i \<le> length s"
  shows "first_match s Sps i g (i + length w) g"
  using assms by (intro fm_star) simp_all

lemma fm_plus:
  assumes "drop i s = w @ rest" "w \<noteq> []" "\<forall>c \<in> set w. cls_match ci cl c"
    "rest = [] \<or> \<not> cls_match ci cl (hd rest)" "i \<le> length s"
  shows "first_match s (RPlus (RCls ci cl)) i g (i + length w) g"
proof -
  from assms(2) obtain c cs where w: "w = c # cs" by (cases w) auto
  have i: "i < length s" using assms(1) w by (metis append_Cons drop_all list.distinct(1) not_le_imp_less)
  have "first_match s (RStar True (RCls ci cl)) (Suc i) g (Suc i + length cs) g"
    using assms w i by (intro fm_star) (auto simp: drop_Suc tl_drop [symmetric])
  with fm_cls [of i s c "cs @ rest"] assms(1,3) w show ?thesis
    by (auto intro: fm_seq)
qed

lemma nm_wordb_seq: "no_match s r i \<Longrightarrow> no_match s (RSeq RWordB r) i"
  by (simp add: no_match_def)

lemma nm_begin: "0 < i \<Longrightarrow> no_match s (RSeq RBegin r) i"
  by (simp add: no_match_def)

lemma match_here_first:
  "first_match s r i [] j g \<Longrightarrow> match_here r (cursor_at s i) = Some \<lparr>mstart = i, mend = j, mcaps = g\<rparr>"
  by (auto simp: first_match_def match_here_def)

lemma match_here_no: "no_match s r i \<Longrightarrow> match_here r (cursor_at s i) = None"
  by (simp add: no_match_def match_here_def)

lemma nm_lit_seq:
  "i \<le> length s \<Longrightarrow> no_match s r (i + length ps) \<Longrightarrow> no_match s (RSeq (RLit ci ps) r) i"
  using matches_lit_at [of i s ci ps] by (simp add: no_match_def del: matches.simps(2))

text \<open>The loop over white space leaves the word behind the whole run.\<close>

lemma nm_sps_lit:
  assumes "i \<le> length q" "\<And>c. is_re_space c \<Longrightarrow> \<not> lit_char ci p c"
    "\<not> lit_at ci (p # ps) q (i + run is_re_space q i)"
  shows "no_match q (RSeq Sps (RSeq (RLit ci (p # ps)) r)) i"
proof -
  have "\<not> lit_at ci (p # ps) q (i + j)" if "j \<le> run is_re_space q i" for j
  proof (cases "j = run is_re_space q i")
    case False
    with that have "is_re_space (q ! (i + j))" using run_nth [of j is_re_space q i] by simp
    with assms(2) show ?thesis by (auto simp: lit_at_def slice_Suc)
  qed (use assms(3) in simp)
  moreover have "i + j \<le> length q" if "j \<le> run is_re_space q i" for j
    using run_le [OF assms(1), of is_re_space] that by simp
  ultimately show ?thesis
    unfolding no_match_def matches.simps(7) matches_star_cls_at [OF assms(1)] cls_match_simps
    by (auto simp: matches_lit_at simp del: matches.simps(2) upt_Suc)
qed


lemma search_from_first:
  assumes "first_match s r i [] j g" "\<And>k. p \<le> k \<Longrightarrow> k < i \<Longrightarrow> no_match s r k" "p \<le> i" "i \<le> length s"
  shows "search_from r s p = Some \<lparr>mstart = i, mend = j, mcaps = g\<rparr>"
proof (cases "search_from r s p")
  case None
  moreover have "p \<le> length s" using assms(3,4) by simp
  ultimately have "match_here r (cursor_at s i) = None" using search_from_None assms(3,4) by blast
  with match_here_first [OF assms(1)] show ?thesis by simp
next
  case (Some m)
  have "p \<le> length s" using assms(3,4) by simp
  note m = search_from_Some [OF Some this]
  have "\<not> mstart m < i" using m(1,2) assms(2) [THEN match_here_no] by force
  moreover have "\<not> i < mstart m" using m(3) [OF assms(3)] match_here_first [OF assms(1)] by force
  ultimately have "mstart m = i" by simp
  with m(2) match_here_first [OF assms(1)] Some show ?thesis by simp
qed

lemma find_first:
  "first_match s r i [] j g \<Longrightarrow> (\<And>k. k < i \<Longrightarrow> no_match s r k) \<Longrightarrow> i \<le> length s \<Longrightarrow>
     find r s = Some \<lparr>mstart = i, mend = j, mcaps = g\<rparr>"
  unfolding find_search_from by (rule search_from_first) simp_all

lemma find_anchored:
  assumes "first_match s (RSeq RBegin r) 0 [] j g"
  shows "find (RSeq RBegin r) s = Some \<lparr>mstart = 0, mend = j, mcaps = g\<rparr>"
  by (rule find_first [OF assms]) simp_all

lemma find_anchored_None: "no_match s (RSeq RBegin r) 0 \<Longrightarrow> find (RSeq RBegin r) s = None"
  by (metis find_None gr0I match_here_no nm_begin)

lemma find_matches: "find r s = Some m \<Longrightarrow> \<exists>st. st \<in> set (matches r (cursor_at s (mstart m), []))"
  using find_Some(1) [of r s m]
  by (cases "matches r (cursor_at s (mstart m), [])") (auto simp: match_here_def)

lemma matches_seqD:
  "st' \<in> set (matches (RSeq r1 r2) st) \<Longrightarrow> \<exists>st1. st1 \<in> set (matches r1 st) \<and> st' \<in> set (matches r2 st1)"
  by auto

section \<open>Text that a match must contain\<close>

text \<open>\<open>needs r ws\<close>: the literals of \<open>r\<close> show that every text \<open>r\<close> matches contains one of
  the words \<open>ws\<close>, up to case.  It is computed from the pattern.\<close>

definition mentions :: "gostr \<Rightarrow> gostr list \<Rightarrow> bool" where
  "mentions s ws \<longleftrightarrow> list_ex (Contains (ToLower s)) ws"

primrec needs :: "re \<Rightarrow> gostr list \<Rightarrow> bool" where
  "needs REmpty ws = False"
| "needs (RLit ci ps) ws = mentions ps ws"
| "needs (RCls ci cl) ws = False"
| "needs RBegin ws = False"
| "needs REnd ws = False"
| "needs RWordB ws = False"
| "needs (RSeq r1 r2) ws = (needs r1 ws \<or> needs r2 ws)"
| "needs (RAlt r1 r2) ws = (needs r1 ws \<and> needs r2 ws)"
| "needs (RStar greedy r) ws = False"
| "needs (RGroup n r) ws = needs r ws"

lemma Contains_append: "Contains a w \<or> Contains b w \<Longrightarrow> Contains (a @ b) w"
  by (auto simp: Contains_iff) (metis append.assoc)+

lemma mentions_append: "mentions a ws \<or> mentions b ws \<Longrightarrow> mentions (a @ b) ws"
  by (auto simp: mentions_def list_ex_iff intro: Contains_append)

lemma mentions_mono: "set ws \<subseteq> set vs \<Longrightarrow> mentions s ws \<Longrightarrow> mentions s vs"
  by (auto simp: mentions_def list_ex_iff)

lemma slice_join: "i \<le> j \<Longrightarrow> j \<le> k \<Longrightarrow> k \<le> length s \<Longrightarrow> slice s i k = slice s i j @ slice s j k"
proof -
  assume h: "i \<le> j" "j \<le> k" "k \<le> length s"
  then have "k - i = (j - i) + (k - j)" by simp
  then have "take (k - i) (drop i s) = take (j - i) (drop i s) @ take (k - j) (drop (j - i) (drop i s))"
    by (simp only: take_add)
  then show ?thesis using h by (simp add: slice_def)
qed

lemma lit_char_lower: "lit_char ci p c \<Longrightarrow> lower_char p = lower_char c"
  by (auto simp: lit_char_def split: if_splits)

lemma lit_at_ToLower: "lit_at ci ps s i \<Longrightarrow> ToLower (slice s i (i + length ps)) = ToLower ps"
  by (auto simp: lit_at_def ToLower_def list_all2_conv_all_nth list_eq_iff_nth_eq)
     (metis lit_char_lower)

lemma needs_matches:
  "needs r ws \<Longrightarrow> st_ok s st \<Longrightarrow> st' \<in> set (matches r st) \<Longrightarrow>
     mentions (slice s (cpos (fst st)) (cpos (fst st'))) ws"
proof (induction r arbitrary: st st')
  case (RLit ci ps)
  obtain k g where st: "st = (k, g)" by (cases st)
  from RLit.prems(2) st have k: "k = cursor_at s (cpos k)" "cpos k \<le> length s"
    by (auto simp: cur_ok_def)
  from RLit.prems(3) have "st' \<in> set (matches (RLit ci ps) (cursor_at s (cpos k), g))"
    using st k(1) by simp
  then have "lit_at ci ps s (cpos k)" "st' = (cursor_at s (cpos k + length ps), g)"
    unfolding matches_lit_at [OF k(2)] by (auto split: if_splits)
  with lit_at_ToLower RLit.prems(1) st show ?case by (fastforce simp: mentions_def)
next
  case (RSeq r1 r2)
  from RSeq.prems(3) obtain st1 where m1: "st1 \<in> set (matches r1 st)" and m2: "st' \<in> set (matches r2 st1)"
    by auto
  note a = matches_ok [OF RSeq.prems(2) m1]
  note b = matches_ok [OF conjunct1 [OF a] m2]
  have "cpos (fst st') \<le> length s" using b by (cases st') (auto dest: cur_okD)
  then have j: "slice s (cpos (fst st)) (cpos (fst st')) =
      slice s (cpos (fst st)) (cpos (fst st1)) @ slice s (cpos (fst st1)) (cpos (fst st'))"
    using a b by (intro slice_join) linarith+
  from RSeq.prems(1) consider "needs r1 ws" | "needs r2 ws" by auto
  then show ?case
  proof cases
    case 1
    from RSeq.IH(1) [OF this RSeq.prems(2) m1] show ?thesis
      unfolding j by (intro mentions_append disjI1)
  next
    case 2
    from RSeq.IH(2) [OF this conjunct1 [OF a] m2] show ?thesis
      unfolding j by (intro mentions_append disjI2)
  qed
next
  case (RGroup n r)
  from RGroup.prems(3) obtain k g where kg: "(k, g) \<in> set (matches r st)"
    and st': "st' = (k, (n, cpos (fst st), cpos k) # g)" by auto
  from RGroup.IH [OF _ RGroup.prems(2) kg] RGroup.prems(1) st' show ?case by simp
qed auto

lemma needs_find:
  assumes "needs r ws" "find r s = Some m"
  shows "mentions (slice s (mstart m) (mend m)) ws" "mentions s ws"
proof -
  note f = find_Some [OF assms(2)]
  from f(1) obtain k' g ms where ms: "matches r (cursor_at s (mstart m), []) = (k', g) # ms"
    and m: "mend m = cpos k'"
    by (cases "matches r (cursor_at s (mstart m), [])") (auto simp: match_here_def dest: arg_cong [of _ m mend])
  have "mstart m \<le> length s" using f(3,4) by linarith
  then have "st_ok s (cursor_at s (mstart m), [])" by (simp add: cur_ok_cursor_at)
  from needs_matches [OF assms(1) this, of "(k', g)"] ms m
  show c: "mentions (slice s (mstart m) (mend m)) ws" by simp
  have "s = take (mstart m) s @ slice s (mstart m) (mend m) @ drop (mend m) s"
    using f(3) take_slice_drop [of "mstart m" "mend m" s] by simp
  with c show "mentions s ws" by (metis mentions_append)
qed

lemma needs_no_match [go_str]: "needs r ws \<Longrightarrow> \<not> mentions s ws \<Longrightarrow> \<not> MatchString r s"
  using needs_find(2) [of r ws s] by (cases "find r s") (auto simp: MatchString_def)

end
