(* ===== verification/Sql_Scan.thy ===== *)
theory Sql_Scan
  imports Prelude
begin

text \<open>
  The two quote-aware scanners of \<^verbatim>\<open>rewrite.go\<close>, \<open>matchParen\<close> and \<open>splitArgs\<close>, on which
  the CONCAT and TO_CHAR rewrites and the enum reconstruction rest, with a grammar of
  balanced SQL text that says what they compute; and \<open>sqlStringLiteral\<close> of
  \<^verbatim>\<open>catalog.go\<close>.

  Go's \<open>-1\<close> of \<open>matchParen\<close> is \<open>None\<close> here.
\<close>

abbreviation lpar :: char where "lpar \<equiv> CHR ''(''"
abbreviation rpar :: char where "rpar \<equiv> CHR '')''"
abbreviation comma :: char where "comma \<equiv> CHR '',''"

section \<open>The scanners\<close>

text \<open>\<open>match_loop rest depth inStr i\<close>: the loop at index \<open>i\<close>, with \<open>rest\<close> the bytes from
  there on.\<close>

fun match_loop :: "gostr \<Rightarrow> int \<Rightarrow> bool \<Rightarrow> nat \<Rightarrow> nat option" where
  "match_loop [] depth inStr i = None"
| "match_loop (c # cs) depth True i =
     (if c = quote then
        (case cs of
           [] \<Rightarrow> match_loop cs depth False (i + 1)
         | c2 # cs2 \<Rightarrow> if c2 = quote then match_loop cs2 depth True (i + 2)
                        else match_loop cs depth False (i + 1))
      else match_loop cs depth True (i + 1))"
| "match_loop (c # cs) depth False i =
     (if c = quote then match_loop cs depth True (i + 1)
      else if c = lpar then match_loop cs (depth + 1) False (i + 1)
      else if c = rpar then
        (if depth - 1 = 0 then Some i else match_loop cs (depth - 1) False (i + 1))
      else match_loop cs depth False (i + 1))"

definition matchParen :: "gostr \<Rightarrow> nat \<Rightarrow> nat option" where
  "matchParen s opn = match_loop (drop opn s) 0 False opn"

text \<open>\<open>split_loop s rest depth inStr start i\<close>: the pieces still to be produced.\<close>

fun split_loop :: "gostr \<Rightarrow> gostr \<Rightarrow> int \<Rightarrow> bool \<Rightarrow> nat \<Rightarrow> nat \<Rightarrow> gostr list" where
  "split_loop s [] depth inStr start i = [drop start s]"
| "split_loop s (c # cs) depth True start i =
     (if c = quote then
        (case cs of
           [] \<Rightarrow> split_loop s cs depth False start (i + 1)
         | c2 # cs2 \<Rightarrow> if c2 = quote then split_loop s cs2 depth True start (i + 2)
                        else split_loop s cs depth False start (i + 1))
      else split_loop s cs depth True start (i + 1))"
| "split_loop s (c # cs) depth False start i =
     (if c = quote then split_loop s cs depth True start (i + 1)
      else if c = lpar then split_loop s cs (depth + 1) False start (i + 1)
      else if c = rpar then split_loop s cs (depth - 1) False start (i + 1)
      else if c = comma \<and> depth = 0 then slice s start i # split_loop s cs depth False (i + 1) (i + 1)
      else split_loop s cs depth False start (i + 1))"

definition splitArgs :: "gostr \<Rightarrow> gostr list" where
  "splitArgs s = split_loop s s 0 False 0 0"

definition sqlStringLiteral :: "gostr \<Rightarrow> gostr" where
  "sqlStringLiteral s = [quote] @ ReplaceChar s quote [quote, quote] @ [quote]"

section \<open>Balanced text\<close>

text \<open>Text in which parentheses outside string literals match.  A doubled quote inside a
  literal reads as the end of one literal and the start of the next, which leaves the same
  text outside literals.\<close>

inductive balanced :: "gostr \<Rightarrow> bool" where
  bal_nil: "balanced []"
| bal_chr: "c \<noteq> quote \<Longrightarrow> c \<noteq> lpar \<Longrightarrow> c \<noteq> rpar \<Longrightarrow> balanced s \<Longrightarrow> balanced (c # s)"
| bal_str: "quote \<notin> set w \<Longrightarrow> balanced s \<Longrightarrow> balanced (quote # w @ quote # s)"
| bal_par: "balanced a \<Longrightarrow> balanced b \<Longrightarrow> balanced (lpar # a @ rpar # b)"

text \<open>The same without a comma at the top level: one argument of a call.\<close>

inductive arg_text :: "gostr \<Rightarrow> bool" where
  arg_nil: "arg_text []"
| arg_chr: "c \<noteq> quote \<Longrightarrow> c \<noteq> lpar \<Longrightarrow> c \<noteq> rpar \<Longrightarrow> c \<noteq> comma \<Longrightarrow> arg_text s \<Longrightarrow> arg_text (c # s)"
| arg_str: "quote \<notin> set w \<Longrightarrow> arg_text s \<Longrightarrow> arg_text (quote # w @ quote # s)"
| arg_par: "balanced a \<Longrightarrow> arg_text b \<Longrightarrow> arg_text (lpar # a @ rpar # b)"

lemmas balanced_intros = balanced.intros
lemmas arg_text_intros = arg_text.intros

lemma arg_text_balanced: "arg_text s \<Longrightarrow> balanced s"
  by (induction rule: arg_text.induct) (auto intro: balanced_intros)

lemma balanced_append: "balanced a \<Longrightarrow> balanced b \<Longrightarrow> balanced (a @ b)"
  by (induction rule: balanced.induct) (auto intro: balanced_intros)

lemma arg_text_append: "arg_text a \<Longrightarrow> arg_text b \<Longrightarrow> arg_text (a @ b)"
  by (induction rule: arg_text.induct) (auto intro: arg_text_intros)

lemma arg_text_plain:
  "\<forall>c \<in> set s. c \<noteq> quote \<and> c \<noteq> lpar \<and> c \<noteq> rpar \<and> c \<noteq> comma \<Longrightarrow> arg_text s"
  by (induction s) (auto intro: arg_text_intros)

section \<open>The doubled quote is a toggle\<close>

lemma match_loop_quote:
  "match_loop (quote # cs) depth True i = match_loop cs depth False (i + 1)"
  by (cases cs) auto

lemma match_loop_other:
  "c \<noteq> quote \<Longrightarrow> match_loop (c # cs) depth True i = match_loop cs depth True (i + 1)"
  by simp

lemma match_loop_in_str:
  "quote \<notin> set w \<Longrightarrow> match_loop (w @ quote # cs) depth True i = match_loop cs depth False (i + length w + 1)"
  by (induction w arbitrary: i) (auto simp: match_loop_quote match_loop_other simp del: match_loop.simps(2))

lemma match_loop_str:
  "quote \<notin> set w \<Longrightarrow>
     match_loop (quote # w @ quote # cs) depth False i = match_loop cs depth False (i + length w + 2)"
  by (simp add: match_loop_in_str)

lemma match_loop_balanced:
  "balanced u \<Longrightarrow> 0 < depth \<Longrightarrow>
     match_loop (u @ cs) depth False i = match_loop cs depth False (i + length u)"
proof (induction arbitrary: cs depth i rule: balanced.induct)
  case (bal_str w s)
  then show ?case by (simp add: match_loop_str add.assoc del: match_loop.simps)
next
  case (bal_par a b)
  then show ?case by (simp add: add.assoc)
qed simp_all

text \<open>The scan inside a literal finds its end.\<close>

lemma match_loop_in_strD:
  "match_loop t depth True i = Some j \<Longrightarrow>
     \<exists>w cs. t = w @ quote # cs \<and> quote \<notin> set w \<and> match_loop cs depth False (i + length w + 1) = Some j"
proof (induction t arbitrary: i)
  case (Cons c t)
  show ?case
  proof (cases "c = quote")
    case True
    with Cons.prems have "match_loop t depth False (i + 1) = Some j"
      by (metis match_loop_quote)
    with True show ?thesis by (intro exI [of _ "[]"] exI [of _ t]) simp
  next
    case False
    with Cons.prems have "match_loop t depth True (i + 1) = Some j" by simp
    from Cons.IH [OF this] obtain w cs where "t = w @ quote # cs" "quote \<notin> set w"
      "match_loop cs depth False (i + 1 + length w + 1) = Some j" by blast
    with False show ?thesis by (intro exI [of _ "c # w"] exI [of _ cs]) simp
  qed
qed simp

text \<open>From depth \<open>d\<close> the scan passes \<open>d\<close> balanced pieces, each closed by a parenthesis.\<close>

abbreviation closed :: "gostr list \<Rightarrow> gostr" where
  "closed us \<equiv> concat (map (\<lambda>u. u @ [rpar]) us)"

lemma match_loop_sound:
  assumes "match_loop t (int d) False i = Some j" "0 < d"
  shows "\<exists>us r. length us = d \<and> list_all balanced us \<and> t = closed us @ r \<and> j + 1 = i + length (closed us)"
  using assms
proof (induction "length t" arbitrary: t d i rule: less_induct)
  case less
  from less.prems(1) obtain c t' where t: "t = c # t'" by (cases t) auto
  consider "c = quote" | "c = lpar" | "c = rpar" "d = 1" | "c = rpar" "1 < d"
    | "c \<noteq> quote" "c \<noteq> lpar" "c \<noteq> rpar"
    using less.prems(2) by fastforce
  then show ?case
  proof cases
    case 1
    with less.prems t have "match_loop t' (int d) True (i + 1) = Some j" by simp
    from match_loop_in_strD [OF this] obtain w cs where w: "t' = w @ quote # cs" "quote \<notin> set w"
      and m: "match_loop cs (int d) False (i + 1 + length w + 1) = Some j" by blast
    from less.hyps [OF _ m less.prems(2)] t w obtain us r where
      us: "length us = d" "list_all balanced us" "cs = closed us @ r"
        "j + 1 = i + 1 + length w + 1 + length (closed us)" by auto
    then obtain u us' where "us = u # us'" using less.prems(2) by (cases us) auto
    with us w 1 t show ?thesis
      by (intro exI [of _ "(quote # w @ quote # u) # us'"] exI [of _ r]) (auto intro: bal_str)
  next
    case 2
    with less.prems t have m: "match_loop t' (int (Suc d)) False (i + 1) = Some j"
      by (simp add: add.commute)
    from less.hyps [OF _ m] t obtain us r where
      us: "length us = Suc d" "list_all balanced us" "t' = closed us @ r"
        "j + 1 = i + 1 + length (closed us)" by auto
    then obtain u v us' where "us = u # v # us'" using less.prems(2)
      by (metis Suc_length_conv gr0_implies_Suc)
    with us 2 t show ?thesis
      by (intro exI [of _ "(lpar # u @ rpar # v) # us'"] exI [of _ r]) (auto intro: bal_par)
  next
    case 3
    with less.prems t show ?thesis
      by (intro exI [of _ "[[]]"] exI [of _ t']) (auto intro: bal_nil)
  next
    case 4
    with less.prems t have m: "match_loop t' (int (d - 1)) False (i + 1) = Some j"
      by (simp add: of_nat_diff)
    from less.hyps [OF _ m] t 4 obtain us r where
      us: "length us = d - 1" "list_all balanced us" "t' = closed us @ r"
        "j + 1 = i + 1 + length (closed us)" by auto
    with 4 t show ?thesis
      by (intro exI [of _ "[] # us"] exI [of _ r]) (auto intro: bal_nil)
  next
    case 5
    with less.prems t have m: "match_loop t' (int d) False (i + 1) = Some j" by simp
    from less.hyps [OF _ m less.prems(2)] t obtain us r where
      us: "length us = d" "list_all balanced us" "t' = closed us @ r"
        "j + 1 = i + 1 + length (closed us)" by auto
    then obtain u us' where "us = u # us'" using less.prems(2) by (cases us) auto
    with us 5 t show ?thesis
      by (intro exI [of _ "(c # u) # us'"] exI [of _ r]) (auto intro: bal_chr)
  qed
qed

text \<open>The result as a decomposition of the subject.\<close>

lemma matchParen_append:
  assumes "balanced u"
  shows "matchParen (a @ lpar # u @ rpar # b) (length a) = Some (length a + length u + 1)"
  using match_loop_balanced [OF assms, of 1 "rpar # b" "length a + 1"]
  by (simp add: matchParen_def)

lemma matchParen_decomp:
  assumes "matchParen s opn = Some j" "opn < length s" "s ! opn = lpar"
  shows "\<exists>a u b. s = a @ lpar # u @ rpar # b \<and> balanced u \<and> opn = length a \<and> j = opn + length u + 1"
proof -
  let ?t = "drop (Suc opn) s"
  have d: "drop opn s = lpar # ?t" using assms(2,3) by (simp add: Cons_nth_drop_Suc [symmetric])
  with assms(1) have "match_loop ?t (int 1) False (opn + 1) = Some j" by (simp add: matchParen_def)
  from match_loop_sound [OF this] obtain us r where us: "length us = 1" "list_all balanced us"
    "?t = closed us @ r" "j + 1 = opn + 1 + length (closed us)" by auto
  then obtain u where "us = [u]" by (cases us) auto
  with us d have "drop opn s = lpar # u @ rpar # r" "balanced u" "j = opn + length u + 1"
    by simp_all
  moreover from this(1) have "s = take opn s @ lpar # u @ rpar # r"
    by (metis append_take_drop_id)
  ultimately show ?thesis using assms(2)
    by (metis length_take less_imp_le_nat min.absorb2)
qed

text \<open>C26: \<open>matchParen\<close> returns exactly the index of the closing parenthesis that
  matches the opening one at index \<open>opn\<close>: the text between the two is balanced, string
  literals being opaque.\<close>

theorem matchParen_correct:
  assumes "opn < length s" "s ! opn = lpar"
  shows "matchParen s opn = Some j \<longleftrightarrow>
     opn < j \<and> j < length s \<and> s ! j = rpar \<and> balanced (slice s (opn + 1) j)"
proof
  assume "matchParen s opn = Some j"
  from matchParen_decomp [OF this assms] obtain a u b where
    "s = a @ lpar # u @ rpar # b" "balanced u" "opn = length a" "j = opn + length u + 1" by blast
  then show "opn < j \<and> j < length s \<and> s ! j = rpar \<and> balanced (slice s (opn + 1) j)"
    by (simp add: slice_def nth_append)
next
  assume r: "opn < j \<and> j < length s \<and> s ! j = rpar \<and> balanced (slice s (opn + 1) j)"
  let ?u = "slice s (opn + 1) j"
  have "rpar # drop (Suc j) s = drop j s" using r by (metis Cons_nth_drop_Suc)
  then have "?u @ rpar # drop (Suc j) s = drop (opn + 1) s"
    using r slice_drop [of "opn + 1" j s] by simp
  then have "s = take opn s @ lpar # ?u @ rpar # drop (Suc j) s"
    using assms by (metis Suc_eq_plus1 id_take_nth_drop)
  then have "matchParen s opn = matchParen (take opn s @ lpar # ?u @ rpar # drop (Suc j) s) (length (take opn s))"
    using assms by simp
  also have "\<dots> = Some (length (take opn s) + length ?u + 1)"
    using r by (intro matchParen_append) simp
  finally show "matchParen s opn = Some j" using r assms by simp
qed

theorem matchParen_correct_witness:
  "matchParen (''f(a, ')', g(b)) + 1'') 1 = Some 14 \<and> balanced (''a, ')', g(b)'')"
proof -
  have "matchParen (''f(a, ')', g(b)) + 1'') 1 = Some 14" by (simp add: matchParen_def)
  with matchParen_correct [of 1 "''f(a, ')', g(b)) + 1''" 14] show ?thesis
    by (simp add: slice_def)
qed

lemma match_loop_bounds:
  "match_loop t depth b i = Some j \<Longrightarrow> i \<le> j \<and> j < i + length t"
proof (induction t arbitrary: depth b i)
  case (Cons c t)
  from Cons.prems Cons.IH [of depth False "i + 1"] Cons.IH [of depth True "i + 1"]
    Cons.IH [of "depth + 1" False "i + 1"] Cons.IH [of "depth - 1" False "i + 1"]
  show ?case
    by (cases b; cases "c = quote")
       (auto simp: match_loop_quote match_loop_other simp del: match_loop.simps(2) split: if_splits)
qed simp

lemma matchParen_bounds [go_bounds]:
  "matchParen s opn = Some j \<Longrightarrow> opn \<le> j \<and> j < length s"
proof -
  assume "matchParen s opn = Some j"
  then have "opn \<le> j \<and> j < opn + length (drop opn s)"
    unfolding matchParen_def by (rule match_loop_bounds)
  then show ?thesis unfolding length_drop by arith
qed

section \<open>Splitting\<close>

lemma split_loop_quote:
  "split_loop s (quote # cs) depth True start i = split_loop s cs depth False start (i + 1)"
  by (cases cs) auto

lemma split_loop_other:
  "c \<noteq> quote \<Longrightarrow> split_loop s (c # cs) depth True start i = split_loop s cs depth True start (i + 1)"
  by simp

lemma split_loop_in_str:
  "quote \<notin> set w \<Longrightarrow> split_loop s (w @ quote # cs) depth True start i =
     split_loop s cs depth False start (i + length w + 1)"
  by (induction w arbitrary: i)
     (auto simp: split_loop_quote split_loop_other simp del: split_loop.simps(2))

lemma split_loop_str:
  "quote \<notin> set w \<Longrightarrow> split_loop s (quote # w @ quote # cs) depth False start i =
     split_loop s cs depth False start (i + length w + 2)"
  by (simp add: split_loop_in_str)

lemma split_loop_balanced:
  "balanced u \<Longrightarrow> 0 < depth \<Longrightarrow>
     split_loop s (u @ cs) depth False start i = split_loop s cs depth False start (i + length u)"
proof (induction arbitrary: cs depth i rule: balanced.induct)
  case (bal_str w v)
  then show ?case by (simp add: split_loop_str add.assoc del: split_loop.simps)
qed (simp_all add: add.assoc)

lemma split_loop_arg:
  "arg_text u \<Longrightarrow> split_loop s (u @ cs) 0 False start i = split_loop s cs 0 False start (i + length u)"
proof (induction arbitrary: cs i rule: arg_text.induct)
  case (arg_str w v)
  then show ?case by (simp add: split_loop_str add.assoc del: split_loop.simps)
next
  case (arg_par a b)
  then show ?case by (simp add: split_loop_balanced add.assoc)
qed simp_all

text \<open>No text is lost: the pieces joined by commas are the subject.\<close>

lemma split_loop_nonempty: "split_loop s t depth inStr start i \<noteq> []"
proof (induction t arbitrary: depth inStr start i)
  case (Cons c cs)
  then show ?case
    by (cases inStr; cases "c = quote")
       (simp_all add: split_loop_quote split_loop_other del: split_loop.simps(2))
qed simp

lemma Join_Cons: "xs \<noteq> [] \<Longrightarrow> Join (x # xs) sep = x @ sep @ Join xs sep"
  by (cases xs) auto

lemma split_loop_join:
  assumes "t = drop i s" "start \<le> i" "i \<le> length s"
  shows "Join (split_loop s t depth inStr start i) [comma] = drop start s"
  using assms
proof (induction t arbitrary: depth inStr start i)
  case Nil
  then show ?case by simp
next
  case (Cons c cs)
  then have lt: "i < length s" by (metis drop_all list.distinct(1) not_le_imp_less)
  with Cons.prems(1) have c: "c = s ! i" and cs: "cs = drop (Suc i) s"
    by (metis Cons_nth_drop_Suc list.inject)+
  have ih: "Join (split_loop s cs d b st (Suc i)) [comma] = drop st s" if "st \<le> Suc i" for d b st
    using Cons.IH [of "Suc i" st d b] lt cs that by simp
  show ?case
  proof (cases inStr)
    case True
    then show ?thesis
      using ih [of start] Cons.prems(2)
      by (cases "c = quote") (simp_all add: split_loop_quote split_loop_other del: split_loop.simps)
  next
    case False
    have cut: "slice s start i @ comma # drop (Suc i) s = drop start s" if "c = comma"
      using that c lt slice_drop [OF Cons.prems(2), of s] by (metis Cons_nth_drop_Suc)
    show ?thesis
      using False ih [of start] ih [of "Suc i"] Cons.prems(2) cut
      by (simp add: Join_Cons split_loop_nonempty)
  qed
qed

lemma splitArgs_join: "Join (splitArgs s) [comma] = s"
  by (simp add: splitArgs_def split_loop_join)

lemma split_loop_args:
  assumes "\<forall>a \<in> set as. arg_text a" "as \<noteq> []"
    and "s = p @ Join as [comma]" "start = length p"
  shows "split_loop s (Join as [comma]) 0 False start start = as"
  using assms
proof (induction as arbitrary: p start)
  case (Cons a as)
  show ?case
  proof (cases as)
    case Nil
    have "split_loop s (a @ []) 0 False start start = split_loop s [] 0 False start (start + length a)"
      by (rule split_loop_arg) (use Cons.prems in simp)
    with Nil Cons.prems show ?thesis by simp
  next
    case (Cons b bs)
    then have j: "Join (a # as) [comma] = a @ comma # Join as [comma]" by simp
    have "split_loop s (a @ comma # Join as [comma]) 0 False start start =
        split_loop s (comma # Join as [comma]) 0 False start (start + length a)"
      by (rule split_loop_arg) (use Cons.prems in simp)
    also have "\<dots> = slice s start (start + length a) #
        split_loop s (Join as [comma]) 0 False (start + length a + 1) (start + length a + 1)"
      by simp
    also have "split_loop s (Join as [comma]) 0 False (start + length a + 1) (start + length a + 1) = as"
      using Cons.prems Cons j by (intro Cons.IH [of "p @ a @ [comma]"]) auto
    also have "slice s start (start + length a) = a"
      using Cons.prems j by (simp add: slice_def)
    finally show ?thesis using j by simp
  qed
qed simp

lemma splitArgs_args:
  assumes "\<forall>a \<in> set as. arg_text a" "as \<noteq> []"
  shows "splitArgs (Join as [comma]) = as"
  unfolding splitArgs_def using split_loop_args [OF assms, of _ "[]"] by simp

text \<open>Balanced text is its arguments joined by commas, so on it the scanner finds them.\<close>

lemma balanced_args: "balanced s \<Longrightarrow> \<exists>as. as \<noteq> [] \<and> (\<forall>a \<in> set as. arg_text a) \<and> s = Join as [comma]"
proof (induction rule: balanced.induct)
  case bal_nil
  show ?case by (intro exI [of _ "[[]]"]) (simp add: arg_nil)
next
  case (bal_chr c s)
  then obtain a as where as: "\<forall>x \<in> set (a # as). arg_text x" "s = Join (a # as) [comma]"
    by (metis neq_Nil_conv)
  show ?case
  proof (cases "c = comma")
    case True
    with as show ?thesis by (intro exI [of _ "[] # a # as"]) (auto intro: arg_nil)
  next
    case False
    with as bal_chr show ?thesis
      by (intro exI [of _ "(c # a) # as"]) (cases as; auto intro: arg_chr)
  qed
next
  case (bal_str w s)
  then obtain a as where as: "\<forall>x \<in> set (a # as). arg_text x" "s = Join (a # as) [comma]"
    by (metis neq_Nil_conv)
  with bal_str show ?case
    by (intro exI [of _ "(quote # w @ quote # a) # as"]) (cases as; auto intro: arg_str)
next
  case (bal_par u s)
  then obtain a as where as: "\<forall>x \<in> set (a # as). arg_text x" "s = Join (a # as) [comma]"
    by (metis neq_Nil_conv)
  with bal_par show ?case
    by (intro exI [of _ "(lpar # u @ rpar # a) # as"]) (cases as; auto intro: arg_par)
qed

lemma balanced_Join: "\<forall>a \<in> set as. arg_text a \<Longrightarrow> balanced (Join as [comma])"
proof (induction as)
  case (Cons a as)
  then have "balanced a" "balanced (Join as [comma])" by (simp_all add: arg_text_balanced)
  then show ?case
    by (cases as) (auto intro!: balanced_append bal_chr)
qed (simp add: bal_nil)

lemma splitArgs_arg_text: "balanced s \<Longrightarrow> a \<in> set (splitArgs s) \<Longrightarrow> arg_text a"
  using balanced_args splitArgs_args by metis

text \<open>C27: splitting loses nothing and puts the cuts where they belong: joining the pieces
  with commas gives the subject back, and on the text of a call's arguments (each balanced,
  without a comma of its own at the top level) the pieces are exactly the arguments.\<close>

theorem splitArgs_correct:
  assumes "\<forall>a \<in> set as. arg_text a" "as \<noteq> []"
  shows "splitArgs (Join as [comma]) = as \<and> Join (splitArgs s) [comma] = s"
  using splitArgs_args [OF assms] splitArgs_join by auto

section \<open>String literals\<close>

text \<open>How SQL reads a string literal: \<open>read_body\<close> returns the value and the rest of the
  text, a doubled quote standing for one.\<close>

fun read_body :: "gostr \<Rightarrow> (gostr \<times> gostr) option" where
  "read_body [] = None"
| "read_body (c # cs) =
     (if c = quote then
        (case cs of
           [] \<Rightarrow> Some ([], [])
         | c2 # cs2 \<Rightarrow>
             if c2 = quote then map_option (\<lambda>(w, r). (quote # w, r)) (read_body cs2)
             else Some ([], cs))
      else map_option (\<lambda>(w, r). (c # w, r)) (read_body cs))"

definition read_literal :: "gostr \<Rightarrow> (gostr \<times> gostr) option" where
  "read_literal s = (if HasPrefix s [quote] then read_body (tl s) else None)"

lemma read_body_literal:
  "rest = [] \<or> hd rest \<noteq> quote \<Longrightarrow>
     read_body (ReplaceChar s quote [quote, quote] @ quote # rest) = Some (s, rest)"
  by (induction s) (auto split: list.splits)

lemma arg_text_literal_body:
  "arg_text t \<Longrightarrow> arg_text (quote # ReplaceChar s quote [quote, quote] @ quote # t)"
proof (induction "length s" arbitrary: s rule: less_induct)
  case less
  show ?case
  proof (cases "quote \<in> set s")
    case False
    then have "ReplaceChar s quote [quote, quote] = s" by (induction s) auto
    with False less.prems show ?thesis by (simp add: arg_str)
  next
    case True
    then obtain w s' where s: "s = w @ quote # s'" and w: "quote \<notin> set w"
      by (meson split_list_first)
    from w have "ReplaceChar w quote [quote, quote] = w" by (induction w) auto
    then have r: "ReplaceChar s quote [quote, quote] = w @ quote # quote # ReplaceChar s' quote [quote, quote]"
      by (simp add: s ReplaceChar_def)
    have "arg_text (quote # ReplaceChar s' quote [quote, quote] @ quote # t)"
      by (rule less.hyps) (use s less.prems in auto)
    from arg_str [OF w this] show ?thesis by (simp add: r)
  qed
qed

lemma arg_text_literal: "arg_text (sqlStringLiteral s)"
  using arg_text_literal_body [OF arg_nil] by (simp add: sqlStringLiteral_def)

text \<open>C28: text cannot escape from the literal made of it: SQL reads \<open>sqlStringLiteral s\<close>
  back as the value \<open>s\<close> and resumes exactly behind it, whatever bytes \<open>s\<close> has; and the
  quote-aware scanners pass over it.\<close>

theorem sqlStringLiteral_roundtrip:
  assumes "rest = [] \<or> hd rest \<noteq> quote"
  shows "read_literal (sqlStringLiteral s @ rest) = Some (s, rest) \<and> arg_text (sqlStringLiteral s)"
  using read_body_literal [OF assms, of s] arg_text_literal
  by (simp_all add: sqlStringLiteral_def read_literal_def)

theorem sqlStringLiteral_roundtrip_witness:
  "read_literal (sqlStringLiteral ''it's; DROP TABLE t --'' @ '' AS x'') = Some (''it's; DROP TABLE t --'', '' AS x'')"
  by (rule sqlStringLiteral_roundtrip [THEN conjunct1]) simp

theorem splitArgs_correct_witness:
  "splitArgs (Join [''a'', ''f(b,c)'', sqlStringLiteral ''x,y''] [comma]) = [''a'', ''f(b,c)'', sqlStringLiteral ''x,y'']"
proof -
  have "arg_text ''f(b,c)''"
    by (rule arg_chr; (rule arg_par [of "''b,c''" "[]", simplified])?)
       (auto intro: balanced_intros(1,2) arg_nil)
  moreover have "arg_text ''a''" by (rule arg_text_plain) simp
  ultimately show ?thesis by (intro splitArgs_correct [THEN conjunct1]) (auto intro: arg_text_literal)
qed

end
