(* ===== verification/Enums.thy ===== *)
theory Enums
  imports Regex Sql_Scan
begin

text \<open>
  \<^verbatim>\<open>enum.go\<close>: the reconstruction of enum types from \<^verbatim>\<open>CHECK (col IN ('a', 'b'))\<close>
  constraints, and the rows that \<open>setupEnumCatalog\<close> puts into the temp tables behind
  pg_type, pg_enum and pg_attribute.

  \<open>parseEnums\<close> leaves the oid 0; \<open>setupEnumCatalog\<close> numbers the enums.
\<close>

section \<open>Parsing one CHECK body\<close>

text \<open>The character classes of these patterns are closed under case, so \<^verbatim>\<open>(?i)\<close> only
  matters to their literals.\<close>

definition checkKwRegex :: re where
  "checkKwRegex = RSeqs [RWordB, RLit True ''CHECK'', Sps, RLit True ''('']"

definition identRegex :: re where
  "identRegex =
     RAlts
       [RSeqs [RLit True [CHR 0x22], RGroup 1 (RPlus (NotIn [CHR 0x22])), RLit True [CHR 0x22]],
        RSeqs [RLit True ''['', RGroup 2 (RPlus (NotIn '']'')), RLit True '']''],
        RSeqs [RLit True [CHR 0x60], RGroup 3 (RPlus (NotIn [CHR 0x60])), RLit True [CHR 0x60]],
        RGroup 4 (RSeq (RCls False (Cls False [CRange (CHR ''A'') (CHR ''Z''), CRange (CHR ''a'') (CHR ''z''), CChar (CHR ''_'')])) (RStar True Wd))]"

definition inHeadRegex :: re where
  "inHeadRegex =
     RSeqs [RBegin, Sps, identRegex, Sps1, RLit True ''IN'', Sps, RLit True ''('']"

text \<open>The first of the four identifier groups that took part.\<close>

fun first_group :: "gostr \<Rightarrow> rmatch \<Rightarrow> nat list \<Rightarrow> gostr" where
  "first_group s m [] = []"
| "first_group s m (g # gs) =
     (case group_span m g of Some (a, b) \<Rightarrow> slice s a b | None \<Rightarrow> first_group s m gs)"

text \<open>The loop over the list elements: each must be a quoted literal.\<close>

fun enum_labels :: "gostr list \<Rightarrow> gostr list option" where
  "enum_labels [] = Some []"
| "enum_labels (x # xs) =
     (let a = TrimSpace x in
      if length a < 2 \<or> a ! 0 \<noteq> quote \<or> a ! (length a - 1) \<noteq> quote then None
      else map_option (\<lambda>ls. ReplaceAll (slice a 1 (length a - 1)) [quote, quote] [quote] # ls)
             (enum_labels xs))"

definition parseInList :: "gostr \<Rightarrow> (gostr \<times> gostr list) option" where
  "parseInList body =
     (case find inHeadRegex body of
        None \<Rightarrow> None
      | Some m \<Rightarrow>
          (let col = first_group body m [1, 2, 3, 4]; opn = mend m - 1 in
           case matchParen body opn of
             None \<Rightarrow> None
           | Some cls \<Rightarrow>
               if TrimSpace (drop (cls + 1) body) \<noteq> [] then None
               else (case enum_labels (splitArgs (slice body (opn + 1) cls)) of
                       None \<Rightarrow> None
                     | Some labels \<Rightarrow> if labels = [] then None else Some (col, labels))))"

section \<open>All enums of a table\<close>

record enumType =
  oid :: int
  typname :: gostr
  tablename :: gostr
  column :: gostr
  labels :: "gostr list"

lemma checkKw_bounds [go_bounds]:
  "find checkKwRegex s = Some m \<Longrightarrow> 6 \<le> mend m \<and> mend m \<le> length s"
  using find_Some(3,4) [of checkKwRegex s m] by (simp add: checkKwRegex_def)

text \<open>The scan of \<open>parseEnums\<close> from index \<open>idx\<close>, with the columns seen so far.\<close>

function enums_from :: "gostr \<Rightarrow> gostr \<Rightarrow> nat \<Rightarrow> gostr list \<Rightarrow> enumType list" where
  "enums_from tbl ddl idx seen =
     (if idx < length ddl then
        (case find checkKwRegex (drop idx ddl) of
           None \<Rightarrow> []
         | Some m \<Rightarrow>
             (let opn = idx + mend m - 1 in
              case matchParen ddl opn of
                None \<Rightarrow> []
              | Some cls \<Rightarrow>
                  (case parseInList (slice ddl (opn + 1) cls) of
                     None \<Rightarrow> enums_from tbl ddl (cls + 1) seen
                   | Some (col, ls) \<Rightarrow>
                       (let key = ToLower col in
                        if key \<in> set seen then enums_from tbl ddl (cls + 1) seen
                        else \<lparr>oid = 0, typname = ToLower (tbl @ ''_'' @ col), tablename = tbl,
                               column = col, labels = ls\<rparr>
                             # enums_from tbl ddl (cls + 1) (key # seen)))))
      else [])"
  by pat_completeness auto
termination
  by (relation "measure (\<lambda>(tbl, ddl, idx, seen). length ddl - idx)")
     (use checkKw_bounds matchParen_bounds in fastforce)+

declare enums_from.simps [simp del]

definition parseEnums :: "gostr \<Rightarrow> gostr \<Rightarrow> enumType list" where
  "parseEnums tbl ddl = enums_from tbl ddl 0 []"

section \<open>The enum tables\<close>

definition enumOIDBase :: int where
  "enumOIDBase = 90000"

text \<open>The enums of all tables in scan order, numbered from \<open>enumOIDBase\<close> on.\<close>

fun number_enums :: "int \<Rightarrow> enumType list \<Rightarrow> enumType list" where
  "number_enums n [] = []"
| "number_enums n (e # es) = e\<lparr>oid := n\<rparr> # number_enums (n + 1) es"

definition schema_enums :: "(gostr \<times> gostr) list \<Rightarrow> enumType list" where
  "schema_enums tables = number_enums enumOIDBase (concat (map (\<lambda>(n, ddl). parseEnums n ddl) tables))"

text \<open>One INSERT each into \<^verbatim>\<open>__pg_enum_type\<close> (oid, typname; the namespace is always 2200),
  \<^verbatim>\<open>__pg_enum_col\<close> (table_name, column_name, typoid, typname) and \<^verbatim>\<open>__pg_enum_label\<close>
  (enumtypid, enumsortorder, enumlabel).\<close>

datatype enum_insert =
    InsType int gostr
  | InsCol gostr gostr int gostr
  | InsLabel int int gostr

fun label_inserts :: "int \<Rightarrow> int \<Rightarrow> gostr list \<Rightarrow> enum_insert list" where
  "label_inserts tid i [] = []"
| "label_inserts tid i (l # ls) = InsLabel tid (i + 1) l # label_inserts tid (i + 1) ls"

definition enum_inserts :: "enumType \<Rightarrow> enum_insert list" where
  "enum_inserts e =
     [InsType (oid e) (typname e), InsCol (tablename e) (column e) (oid e) (typname e)]
     @ label_inserts (oid e) 0 (labels e)"

definition enum_catalog_inserts :: "(gostr \<times> gostr) list \<Rightarrow> enum_insert list" where
  "enum_catalog_inserts tables = concat (map enum_inserts (schema_enums tables))"

section \<open>Reading back a printed constraint\<close>

lemma TrimSpace_pad:
  assumes "\<forall>c \<in> set a. is_space c" "\<forall>c \<in> set b. is_space c"
    "x \<noteq> []" "\<not> is_space (hd x)" "\<not> is_space (last x)"
  shows "TrimSpace (a @ x @ b) = x"
proof -
  have "dropWhile is_space (a @ x @ b) = x @ b"
    using assms(1,3,4) by (cases x) (auto simp: dropWhile_append)
  moreover have "trim_right is_space (x @ b) = x"
    using assms(2,3,5) by (cases x rule: rev_cases) (auto simp: trim_right_def dropWhile_append)
  ultimately show ?thesis by (simp add: TrimSpace_def)
qed

lemma ReplaceAll_doubled: "ReplaceAll (ReplaceChar l quote [quote, quote]) [quote, quote] [quote] = l"
proof (induction l)
  case (Cons c l)
  show ?case
  proof (cases "c = quote")
    case True
    with Cons show ?thesis by simp
  next
    case False
    then have "\<not> HasPrefix (c # ReplaceChar l quote [quote, quote]) [quote, quote]" by simp
    with Cons False show ?thesis by simp
  qed
qed simp

definition padded_literal :: "gostr \<times> gostr \<times> gostr \<Rightarrow> gostr" where
  "padded_literal = (\<lambda>(a, l, b). a @ sqlStringLiteral l @ b)"

lemma not_space_quote: "\<not> is_space quote"
  by (simp add: is_space_def)

lemma space_plain: "is_space c \<Longrightarrow> c \<noteq> quote \<and> c \<noteq> lpar \<and> c \<noteq> rpar \<and> c \<noteq> comma"
  by (auto simp: is_space_def)

lemma arg_text_padded:
  assumes "\<forall>c \<in> set a. is_space c" "\<forall>c \<in> set b. is_space c"
  shows "arg_text (padded_literal (a, l, b))"
  unfolding padded_literal_def prod.case
  using assms by (intro arg_text_append arg_text_literal arg_text_plain) (auto dest: space_plain)

lemma enum_labels_padded:
  assumes "\<forall>(a, l, b) \<in> set items. (\<forall>c \<in> set a. is_space c) \<and> (\<forall>c \<in> set b. is_space c)"
  shows "enum_labels (map padded_literal items) = Some (map (fst \<circ> snd) items)"
  using assms
proof (induction items)
  case (Cons it items)
  obtain a l b where it: "it = (a, l, b)" by (cases it)
  have t: "TrimSpace (padded_literal it) = sqlStringLiteral l"
    unfolding it padded_literal_def prod.case
    using Cons.prems it by (intro TrimSpace_pad) (auto simp: sqlStringLiteral_def not_space_quote)
  have q: "slice (sqlStringLiteral l) 1 (length (sqlStringLiteral l) - 1) = ReplaceChar l quote [quote, quote]"
    by (simp add: sqlStringLiteral_def slice_def)
  have n: "\<not> length (sqlStringLiteral l) < 2" "sqlStringLiteral l ! 0 = quote"
    "sqlStringLiteral l ! (length (sqlStringLiteral l) - 1) = quote"
    by (simp_all add: sqlStringLiteral_def nth_append)
  have "enum_labels (map padded_literal (it # items)) =
      map_option ((#) (ReplaceAll (ReplaceChar l quote [quote, quote]) [quote, quote] [quote]))
        (enum_labels (map padded_literal items))"
    using n unfolding list.map enum_labels.simps t Let_def q by (simp del: ReplaceAll.simps)
  also have "\<dots> = Some (l # map (fst \<circ> snd) items)"
    using Cons by (simp add: ReplaceAll_doubled del: ReplaceAll.simps)
  finally have "enum_labels (map padded_literal (it # items)) = Some (l # map (fst \<circ> snd) items)" .
  with it show ?case by simp
qed simp

definition is_ident :: "gostr \<Rightarrow> bool" where
  "is_ident col \<longleftrightarrow> col \<noteq> [] \<and> (is_letter (hd col) \<or> hd col = CHR ''_'') \<and> (\<forall>c \<in> set col. is_word c)"

lemma word_char_simps:
  "is_word c \<Longrightarrow> c \<noteq> quote \<and> c \<noteq> lpar \<and> c \<noteq> CHR 0x22 \<and> c \<noteq> CHR 0x60 \<and> c \<noteq> CHR ''['' \<and> \<not> is_re_space c"
  by (auto simp: is_word_def is_letter_def is_upper_def is_lower_def is_digit_def is_re_space_def)

lemma re_space_not_word: "is_re_space c \<Longrightarrow> \<not> is_word c"
  using is_word_not_space is_re_space_is_space by blast

lemma ident_start: "is_letter c \<or> c = CHR ''_'' \<longleftrightarrow>
  cls_match False (Cls False [CRange (CHR ''A'') (CHR ''Z''), CRange (CHR ''a'') (CHR ''z''), CChar (CHR ''_'')]) c"
  by (auto simp: citem_match_def is_letter_def is_upper_def is_lower_def)

lemma is_word_not_quote2: "is_ident col \<Longrightarrow> \<exists>c cs. col = c # cs \<and> \<not> is_re_space c \<and> (is_letter c \<or> c = CHR ''_'')
    \<and> is_word c \<and> (\<forall>d \<in> set cs. is_word d)"
  by (cases col) (auto simp: is_ident_def dest: word_char_simps)

lemma fm_ident:
  assumes "is_ident col" "drop i s = col @ rest" "rest = [] \<or> \<not> is_word (hd rest)" "i \<le> length s"
  shows "first_match s identRegex i g (i + length col) ((4, (i, i + length col)) # g)"
proof -
  from is_word_not_quote2 [OF assms(1)] obtain c cs where col: "col = c # cs" "is_letter c \<or> c = CHR ''_''"
    "is_word c" "\<forall>d \<in> set cs. is_word d" by blast
  have d: "drop i s = c # (cs @ rest)" using assms(2) col by simp
  have i: "i < length s" using d by (metis drop_all list.distinct(1) not_le_imp_less)
  have "no_match s (RSeq (RLit True [p]) r) i" if "p \<in> {CHR 0x22, CHR 0x60, CHR ''[''}" for p r
    using that word_char_simps [OF col(3)]
    by (intro nm_seq nm_lit [OF d]) (auto simp: lower_char_quote_eq is_letter_def is_upper_def is_lower_def)
  moreover have "first_match s (RStar True Wd) (Suc i) g (Suc i + length cs) g"
    using assms(2,3) col i by (intro fm_star) (auto simp: drop_Suc tl_drop [symmetric])
  then have "first_match s (RGroup 4 (RSeq (RCls False (Cls False [CRange (CHR ''A'') (CHR ''Z''), CRange (CHR ''a'') (CHR ''z''), CChar (CHR ''_'')]))
      (RStar True Wd))) i g (Suc i + length cs) ((4, (i, Suc i + length cs)) # g)"
    using col(2) by (intro fm_group fm_seq [OF fm_cls [OF d]]) (simp_all only: ident_start)
  ultimately show ?thesis unfolding identRegex_def RAlts.simps RSeqs.simps col(1)
    by (auto intro!: fm_alt2)
qed

lemma inHead_first:
  assumes "is_ident col" "\<forall>c \<in> set ws1. is_re_space c" "ws2 \<noteq> []" "\<forall>c \<in> set ws2. is_re_space c"
    "list_all2 (lit_char True) ''IN'' kw" "\<forall>c \<in> set ws3. is_re_space c"
    "s = ws1 @ col @ ws2 @ kw @ ws3 @ lpar # rest"
  shows "find inHeadRegex s = Some \<lparr>mstart = 0, mend = length (ws1 @ col @ ws2 @ kw @ ws3) + 1,
     mcaps = [(4, (length ws1, length ws1 + length col))]\<rparr>"
proof -
  from is_word_not_quote2 [OF assms(1)] obtain c cs where col: "col = c # cs" "\<not> is_re_space c" by blast
  from assms(5) obtain k ks where kw: "kw = k # ks" "lit_char True (CHR ''I'') k" "length kw = 2"
    by (auto simp: list_all2_Cons1 dest: list_all2_lengthD)
  have k: "\<not> is_re_space k" using kw(2)
    by (auto simp: lit_char_def lower_char_def is_re_space_def is_upper_def split: if_splits)
  let ?a = "length ws1" and ?b = "length ws1 + length col"
  let ?c = "length ws1 + length col + length ws2"
  let ?d = "length ws1 + length col + length ws2 + 2"
  let ?e = "length ws1 + length col + length ws2 + 2 + length ws3"
  have d: "drop 0 s = ws1 @ col @ ws2 @ kw @ ws3 @ lpar # rest" "drop ?a s = col @ ws2 @ kw @ ws3 @ lpar # rest"
    "drop ?b s = ws2 @ kw @ ws3 @ lpar # rest" "drop ?c s = kw @ ws3 @ lpar # rest"
    "drop ?d s = ws3 @ lpar # rest" "drop ?e s = [lpar] @ rest" "?e < length s"
    using assms(7) kw(3) by simp_all
  have f1: "first_match s Sps 0 [] ?a []"
    using fm_star_sp [OF d(1)] assms(2) col by simp
  have f2: "first_match s identRegex ?a [] ?b [(4, (?a, ?b))]"
    using assms(3,4) d(7) re_space_not_word by (intro fm_ident [OF assms(1) d(2)]) (auto simp: neq_Nil_conv)
  have f3: "first_match s Sps1 ?b g ?c g" for g
    using assms(3,4) kw k d(7) by (intro fm_plus [OF d(3)]) auto
  have f4: "first_match s (RLit True ''IN'') ?c g ?d g" for g
    using fm_lit [OF d(4) assms(5), of g] d(7) by simp
  have f5: "first_match s Sps ?d g ?e g" for g
    using fm_star_sp [OF d(5), of g] assms(6) d(7) by (simp add: is_re_space_def)
  have f6: "first_match s (RLit True ''('') ?e g (?e + 1) g" for g
    using fm_lit [OF d(6), of True "''(''" g] d(7) by (simp add: lit_char_def)
  have "first_match s (RSeq RBegin (RSeqs [Sps, identRegex, Sps1, RLit True ''IN'', Sps, RLit True ''('']))
      0 [] (?e + 1) [(4, (?a, ?b))]"
    unfolding RSeqs.simps
    by (rule fm_seq [OF fm_begin fm_seq [OF f1 fm_seq [OF f2 fm_seq [OF f3 fm_seq [OF f4
        fm_seq [OF f5 fm_seq [OF f6 fm_empty]]]]]]])
  from find_anchored [OF this] show ?thesis
    using kw(3) by (simp add: inHeadRegex_def add.assoc)
qed


text \<open>A printed membership test.\<close>

definition in_list_check :: "gostr \<Rightarrow> gostr \<Rightarrow> gostr \<Rightarrow> gostr \<Rightarrow> gostr \<Rightarrow> (gostr \<times> gostr \<times> gostr) list \<Rightarrow> gostr \<Rightarrow> gostr" where
  "in_list_check ws1 col ws2 kw ws3 items ws4 =
     ws1 @ col @ ws2 @ kw @ ws3 @ lpar # Join (map padded_literal items) [comma] @ rpar # ws4"

text \<open>C29: \<open>parseInList\<close> reads back every enum an ORM prints: from \<^verbatim>\<open>col IN ('a', 'b''c')\<close>,
  with any white space around the name, the keyword (in any case) and the literals, it
  returns the column and exactly the label values, in their order, whatever characters the
  labels have.\<close>

theorem parseInList_roundtrip:
  assumes "is_ident col" "ws2 \<noteq> []" "\<forall>c \<in> set (ws1 @ ws2 @ ws3 @ ws4). is_re_space c"
    "list_all2 (lit_char True) ''IN'' kw" "items \<noteq> []"
    "\<forall>(a, l, b) \<in> set items. (\<forall>c \<in> set a. is_space c) \<and> (\<forall>c \<in> set b. is_space c)"
  shows "parseInList (in_list_check ws1 col ws2 kw ws3 items ws4) = Some (col, map (fst \<circ> snd) items)"
proof -
  let ?pre = "ws1 @ col @ ws2 @ kw @ ws3" and ?u = "Join (map padded_literal items) [comma]"
  let ?s = "in_list_check ws1 col ws2 kw ws3 items ws4"
  have s: "?s = ?pre @ lpar # ?u @ rpar # ws4" by (simp add: in_list_check_def)
  have h: "find inHeadRegex ?s = Some \<lparr>mstart = 0, mend = length ?pre + 1,
      mcaps = [(4, (length ws1, length ws1 + length col))]\<rparr>"
    by (rule inHead_first) (use assms in \<open>auto simp: in_list_check_def\<close>)
  have args: "\<forall>a \<in> set (map padded_literal items). arg_text a"
    using assms(6) by (fastforce intro: arg_text_padded)
  have m: "matchParen ?s (length ?pre) = Some (length ?pre + length ?u + 1)"
    unfolding s by (rule matchParen_append [OF balanced_Join [OF args]])
  have "slice ?s (length ?pre + 1) (length ?pre + length ?u + 1) = ?u"
    unfolding s by (simp add: slice_def)
  then have e: "enum_labels (splitArgs (slice ?s (length ?pre + 1) (length ?pre + length ?u + 1))) =
      Some (map (fst \<circ> snd) items)"
    using args assms(5) by (simp add: splitArgs_args enum_labels_padded [OF assms(6)])
  have t: "drop (length ?pre + length ?u + 2) ?s = ws4" unfolding s by simp
  have w: "TrimSpace ws4 = []"
  proof -
    have "dropWhile is_space ws4 = []"
      using assms(3) by (auto simp: dropWhile_eq_Nil_conv dest: is_re_space_is_space)
    then show ?thesis unfolding TrimSpace_def trim_right_def by (simp only: rev.simps dropWhile.simps)
  qed
  have c: "first_group ?s \<lparr>mstart = 0, mend = length ?pre + 1,
      mcaps = [(4, (length ws1, length ws1 + length col))]\<rparr> [1, 2, 3, 4] = col"
    unfolding s by (simp add: group_span_def slice_def)
  show ?thesis
    unfolding parseInList_def h option.case Let_def c
    using m t w e assms(5) by simp
qed

theorem parseInList_roundtrip_witness:
  "parseInList (in_list_check '' '' ''status'' '' '' ''in'' [] [([], ''it's'', []), ('' '', ''a,b)'', [])] '' '') =
     Some (''status'', [''it's'', ''a,b)''])"
proof -
  have "list_all2 (lit_char True) ''IN'' ''in''" by code_simp
  moreover have "is_ident ''status''" "is_re_space (CHR '' '')" "is_space (CHR '' '')" by code_simp+
  ultimately show ?thesis
    using parseInList_roundtrip [of "''status''" "'' ''" "'' ''" "[]" "'' ''" "''in''"
      "[([], ''it's'', []), ('' '', ''a,b)'', [])]"] by simp
qed

section \<open>The enums of one table and of the schema\<close>

lemma parseInList_labels: "parseInList body = Some (col, ls) \<Longrightarrow> ls \<noteq> []"
  unfolding parseInList_def by (auto simp: Let_def split: option.splits if_splits)

lemma enums_from_spec:
  "distinct (map (ToLower \<circ> column) (enums_from tbl ddl idx seen)) \<and>
   (\<forall>e \<in> set (enums_from tbl ddl idx seen). tablename e = tbl \<and> labels e \<noteq> [] \<and> oid e = 0 \<and>
      typname e = ToLower (tbl @ ''_'' @ column e) \<and> ToLower (column e) \<notin> set seen)"
proof (induction tbl ddl idx seen rule: enums_from.induct)
  case (1 tbl ddl idx seen)
  show ?case
  proof (cases "idx < length ddl")
    case True
    show ?thesis
    proof (cases "find checkKwRegex (drop idx ddl)")
      case None
      with True show ?thesis by (simp add: enums_from.simps)
    next
      case (Some m)
      note f = Some
      show ?thesis
      proof (cases "matchParen ddl (idx + mend m - 1)")
        case None
        with True f show ?thesis by (simp add: enums_from.simps)
      next
        case (Some cls)
        note ih = 1 [OF True f refl Some]
        show ?thesis
        proof (cases "parseInList (slice ddl (idx + mend m - 1 + 1) cls)")
          case None
          from ih(1) [OF None] True f Some None show ?thesis by (simp add: enums_from.simps [of _ _ idx])
        next
          case (Some r)
          obtain col ls where r: "r = (col, ls)" by (cases r)
          have ls: "ls \<noteq> []" using parseInList_labels Some r by blast
          show ?thesis
          proof (cases "ToLower col \<in> set seen")
            case True
            from ih(2) [OF Some r [symmetric] refl True] True \<open>idx < length ddl\<close> f \<open>matchParen _ _ = _\<close> Some r
            show ?thesis by (simp add: enums_from.simps [of _ _ idx])
          next
            case False
            from ih(3) [OF Some r [symmetric] refl False] False \<open>idx < length ddl\<close> f \<open>matchParen _ _ = _\<close> Some r ls
            show ?thesis by (auto simp: enums_from.simps [of _ _ idx])
          qed
        qed
      qed
    qed
  qed (simp add: enums_from.simps)
qed

text \<open>the enums reconstructed from one table have different columns (names compared
  without case), at least one label each, and the name the documentation gives them.\<close>

theorem parseEnums_wellformed:
  "distinct (map (ToLower \<circ> column) (parseEnums tbl ddl)) \<and>
   list_all (\<lambda>e. tablename e = tbl \<and> labels e \<noteq> [] \<and> typname e = ToLower (tbl @ ''_'' @ column e)) (parseEnums tbl ddl)"
  using enums_from_spec [of tbl ddl 0 "[]"] by (auto simp: parseEnums_def list_all_iff)

lemma number_enums_oids: "map oid (number_enums n es) = map (\<lambda>i. n + int i) [0..<length es]"
  by (induction es arbitrary: n) (auto simp: upt_conv_Cons map_Suc_upt [symmetric] simp del: upt_Suc)

lemma number_enums_length [simp]: "length (number_enums n es) = length es"
  by (induction es arbitrary: n) auto

lemma number_enums_truncate: "map (oid_update (\<lambda>_. 0)) (number_enums n es) = map (oid_update (\<lambda>_. 0)) es"
  by (induction es arbitrary: n) auto

fun type_row :: "enum_insert \<Rightarrow> int option" where
  "type_row (InsType i _) = Some i"
| "type_row _ = None"

fun label_key :: "enum_insert \<Rightarrow> (int \<times> int) option" where
  "label_key (InsLabel i k _) = Some (i, k)"
| "label_key _ = None"

fun col_ref :: "enum_insert \<Rightarrow> int option" where
  "col_ref (InsCol _ _ i _) = Some i"
| "col_ref _ = None"

lemma map_filter_concat: "List.map_filter f (concat xss) = concat (map (List.map_filter f) xss)"
  by (induction xss) (auto simp: List.map_filter_def)

lemma map_filter_app: "List.map_filter f (xs @ ys) = List.map_filter f xs @ List.map_filter f ys"
  by (simp add: List.map_filter_def)

lemma label_inserts_rows:
  "List.map_filter type_row (label_inserts t i ls) = []" "List.map_filter col_ref (label_inserts t i ls) = []"
  "List.map_filter label_key (label_inserts t i ls) = map (\<lambda>k. (t, i + 1 + int k)) [0..<length ls]"
  by (induction ls arbitrary: i)
     (auto simp: List.map_filter_def upt_conv_Cons map_Suc_upt [symmetric] simp del: upt_Suc)

lemma enum_inserts_rows:
  "List.map_filter type_row (enum_inserts e) = [oid e]" "List.map_filter col_ref (enum_inserts e) = [oid e]"
  "List.map_filter label_key (enum_inserts e) = map (\<lambda>k. (oid e, 1 + int k)) [0..<length (labels e)]"
  unfolding enum_inserts_def map_filter_app label_inserts_rows
  by (simp_all add: List.map_filter_def)

lemma distinct_keyed:
  "distinct (map f es) \<Longrightarrow> distinct (concat (map (\<lambda>e. map (\<lambda>k. (f e, 1 + int k)) [0..<n e]) es))"
  by (induction es) (auto simp: distinct_map inj_on_def)

lemma schema_enums_oids:
  "map oid (schema_enums tables) = map (\<lambda>i. enumOIDBase + int i) [0..<length (schema_enums tables)]"
  unfolding schema_enums_def number_enums_oids by simp

lemma schema_enums_distinct: "distinct (map oid (schema_enums tables))"
  unfolding schema_enums_oids by (simp add: distinct_map inj_on_def)

lemma label_inserts_list: "label_inserts t i ls = map (\<lambda>k. InsLabel t (i + 1 + int k) (ls ! k)) [0..<length ls]"
  by (induction ls arbitrary: i) (auto simp: upt_conv_Cons map_Suc_upt [symmetric] simp del: upt_Suc)

lemma number_enums_list: "number_enums n es = map (\<lambda>i. (es ! i)\<lparr>oid := n + int i\<rparr>) [0..<length es]"
  by (induction es arbitrary: n) (auto simp: upt_conv_Cons map_Suc_upt [symmetric] simp del: upt_Suc)

text \<open>C31: What is inserted: the rows are, for the enums of the tables in the order of the schema, one
  after the other, the row of the type with the next oid from 90000 on, then the row of its column
  with the same oid and type name, then one row for every label in the order of the constraint,
  with the label's text and sort orders \<open>1, 2, \<dots>\<close>.  No two types have the same oid and no two
  label rows the same primary key (oid and sort order), so no INSERT can fail on it.\<close>

theorem enum_catalog_keys:
  fixes tables :: "(gostr \<times> gostr) list"
  defines "es \<equiv> concat (map (\<lambda>(n, ddl). parseEnums n ddl) tables)" and "rows \<equiv> enum_catalog_inserts tables"
  shows "rows = concat (map (\<lambda>i.
        [InsType (90000 + int i) (typname (es ! i)),
         InsCol (tablename (es ! i)) (column (es ! i)) (90000 + int i) (typname (es ! i))] @
        map (\<lambda>k. InsLabel (90000 + int i) (1 + int k) (labels (es ! i) ! k)) [0..<length (labels (es ! i))])
      [0..<length es]) \<and>
    distinct (List.map_filter type_row rows) \<and> distinct (List.map_filter label_key rows)"
proof -
  have "List.map_filter type_row rows = map oid (schema_enums tables)"
    unfolding rows_def enum_catalog_inserts_def map_filter_concat map_map comp_def enum_inserts_rows
    by (induction "schema_enums tables") auto
  moreover have "distinct (List.map_filter label_key rows)"
    unfolding rows_def enum_catalog_inserts_def map_filter_concat map_map comp_def enum_inserts_rows
    using distinct_keyed [OF schema_enums_distinct] by simp
  ultimately show ?thesis
    using schema_enums_distinct [of tables]
    by (simp add: rows_def enum_catalog_inserts_def schema_enums_def number_enums_list es_def enum_inserts_def
        label_inserts_list enumOIDBase_def comp_def)
qed

text \<open>Two divergences from the documentation.  The list elements are not tokenized: an
  expression that starts and ends with a quote passes for one literal.  And the type name
  does not separate table from column, so two enums can share a name.\<close>

lemma parseInList_expression:
  "parseInList (''x IN ('' @ [quote] @ ''a'' @ [quote] @ '' || '' @ [quote] @ ''b'' @ [quote] @ '')'') =
     Some (''x'', [''a'' @ [quote] @ '' || '' @ [quote] @ ''b''])"
  by code_simp

lemma enum_typname_collision:
  "let ddl = (\<lambda>c. c @ '' TEXT CHECK ('' @ c @ '' IN ('' @ sqlStringLiteral ''v'' @ ''))'')
   in map typname (schema_enums [(''a_b'', ddl ''c''), (''a'', ddl ''b_c'')]) = [''a_b_c'', ''a_b_c'']"
  by code_simp

end
