(* ===== verification/Types.thy ===== *)
theory Types
  imports Prelude "HOL-Library.Word"
begin

text \<open>
  \<^verbatim>\<open>oid.go\<close> and the scalar functions of \<^verbatim>\<open>pg_func.go\<close>: the PostgreSQL type that a SQLite
  declaration stands for, the text form in which a value goes to the client, and the
  functions registered for introspection queries.

  Machine integers keep their width: an \<^verbatim>\<open>int64\<close> is a \<open>64 word\<close> read by \<open>sint\<close>, a type
  OID a \<open>32 word\<close>.  A \<^verbatim>\<open>float64\<close> is given by what the code observes of it: its shortest
  decimal digits (which \<^verbatim>\<open>strconv.FormatFloat(x, 'g', -1, 64)\<close> lays out) and its integer part
  (which \<^verbatim>\<open>int64(x)\<close> takes).
\<close>

unbundle bit_operations_syntax

type_synonym i64 = "64 word"
type_synonym oid32 = "32 word"

section \<open>Go values\<close>

text \<open>\<open>FDec neg ds dp\<close>: the number \<open>0.d\<^sub>1d\<^sub>2\<dots> * 10\<^bsup>dp\<^esup>\<close>, without trailing zeros.\<close>

datatype fdecimal = FNaN | FInf bool | FDec bool "nat list" int

record gofloat =
  f_shortest :: fdecimal
  f_trunc :: int

record gotime =
  t_year :: int
  t_month :: nat
  t_day :: nat
  t_hour :: nat
  t_min :: nat
  t_sec :: nat
  t_nsec :: nat
  t_offset :: int    \<comment> \<open>seconds east of UTC\<close>

text \<open>The dynamic types a value scanned from SQLite can have; \<open>VOther s\<close> is any other one,
  which \<^verbatim>\<open>fmt.Sprint\<close> prints as \<open>s\<close>.\<close>

datatype go_value =
    VNil
  | VBool bool
  | VBytes gostr
  | VTime gotime
  | VInt i64
  | VFloat gofloat
  | VString gostr
  | VOther gostr

section \<open>Numbers and text\<close>

definition FormatInt64 :: "i64 \<Rightarrow> gostr" where
  "FormatInt64 w = FormatInt (sint w)"

definition maxInt64 :: int where "maxInt64 = 9223372036854775807"
definition minInt64 :: int where "minInt64 = - 9223372036854775808"

text \<open>\<^verbatim>\<open>strconv.ParseInt(s, 10, 64)\<close>, the error dropped: zero for malformed text, the
  nearest bound for a number out of range.\<close>

definition ParseInt :: "gostr \<Rightarrow> i64" where
  "ParseInt s =
     (let neg = HasPrefix s ''-'';
          ds = (if neg \<or> HasPrefix s ''+'' then tl s else s);
          n = int (digits_val ds) in
      if ds = [] \<or> \<not> list_all is_digit ds then 0
      else word_of_int (if neg then max (- n) minInt64 else min n maxInt64))"

text \<open>\<^verbatim>\<open>toInt64\<close>; a float out of range converts to the smallest integer, as on amd64.\<close>

fun toInt64 :: "go_value \<Rightarrow> i64" where
  "toInt64 (VInt n) = n"
| "toInt64 (VFloat f) =
     (if minInt64 \<le> f_trunc f \<and> f_trunc f \<le> maxInt64 then word_of_int (f_trunc f) else word_of_int minInt64)"
| "toInt64 (VString s) = ParseInt (TrimSpace s)"
| "toInt64 _ = 0"

text \<open>\<^verbatim>\<open>%02d\<close>-style padding.\<close>

definition pad_nat :: "nat \<Rightarrow> nat \<Rightarrow> gostr" where
  "pad_nat w n = replicate (w - length (itoa_nat n)) (CHR ''0'') @ itoa_nat n"

text \<open>The layout of \<^verbatim>\<open>%e\<close> and \<^verbatim>\<open>%f\<close> for shortest digits.\<close>

definition fmt_e :: "bool \<Rightarrow> nat list \<Rightarrow> int \<Rightarrow> gostr" where
  "fmt_e neg ds dp =
     (let exp = (if ds = [] then 0 else dp - 1) in
      (if neg then ''-'' else []) @ [digit_char (if ds = [] then 0 else hd ds)]
      @ (if 1 < length ds then CHR ''.'' # map digit_char (tl ds) else [])
      @ ''e'' @ (if exp < 0 then ''-'' else ''+'') @ pad_nat 2 (nat \<bar>exp\<bar>))"

definition fmt_f :: "bool \<Rightarrow> nat list \<Rightarrow> int \<Rightarrow> gostr" where
  "fmt_f neg ds dp =
     (let ip = nat dp; prec = nat (int (length ds) - dp) in
      (if neg then ''-'' else [])
      @ (if 0 < dp then map digit_char (take ip ds) @ replicate (ip - length ds) (CHR ''0'') else ''0'')
      @ (if 0 < prec
         then CHR ''.'' # replicate (nat (- dp)) (CHR ''0'') @ map digit_char (drop ip ds)
         else []))"

fun FormatFloat_g :: "fdecimal \<Rightarrow> gostr" where
  "FormatFloat_g FNaN = ''NaN''"
| "FormatFloat_g (FInf neg) = (if neg then ''-Inf'' else ''+Inf'')"
| "FormatFloat_g (FDec neg ds dp) =
     (let exp = dp - 1 in if exp < -4 \<or> 6 \<le> exp then fmt_e neg ds dp else fmt_f neg ds dp)"

section \<open>Types\<close>

definition BoolOID :: oid32 where "BoolOID = 16"
definition ByteaOID :: oid32 where "ByteaOID = 17"
definition QCharOID :: oid32 where "QCharOID = 18"
definition NameOID :: oid32 where "NameOID = 19"
definition Int8OID :: oid32 where "Int8OID = 20"
definition Int2OID :: oid32 where "Int2OID = 21"
definition Int4OID :: oid32 where "Int4OID = 23"
definition TextOID :: oid32 where "TextOID = 25"
definition OIDOID :: oid32 where "OIDOID = 26"
definition JSONOID :: oid32 where "JSONOID = 114"
definition Float4OID :: oid32 where "Float4OID = 700"
definition Float8OID :: oid32 where "Float8OID = 701"
definition BPCharOID :: oid32 where "BPCharOID = 1042"
definition VarcharOID :: oid32 where "VarcharOID = 1043"
definition DateOID :: oid32 where "DateOID = 1082"
definition TimeOID :: oid32 where "TimeOID = 1083"
definition TimestampOID :: oid32 where "TimestampOID = 1114"
definition TimestamptzOID :: oid32 where "TimestamptzOID = 1184"
definition NumericOID :: oid32 where "NumericOID = 1700"
definition UUIDOID :: oid32 where "UUIDOID = 2950"
definition JSONBOID :: oid32 where "JSONBOID = 3802"

lemmas oid_defs =
  BoolOID_def ByteaOID_def QCharOID_def NameOID_def Int8OID_def Int2OID_def Int4OID_def TextOID_def
  OIDOID_def JSONOID_def Float4OID_def Float8OID_def BPCharOID_def VarcharOID_def DateOID_def TimeOID_def
  TimestampOID_def TimestamptzOID_def NumericOID_def UUIDOID_def JSONBOID_def

text \<open>The columns of the catalog views that are boolean but have no declared type.\<close>

definition catalogBoolColumns :: "gostr list" where
  "catalogBoolColumns =
     [''relhasindex'', ''relisshared'', ''relhasrules'', ''relhastriggers'', ''relhassubclass'',
      ''relrowsecurity'', ''relforcerowsecurity'', ''relispopulated'', ''relispartition'',
      ''attnotnull'', ''atthasdef'', ''attisdropped'', ''attislocal'',
      ''indisunique'', ''indisprimary'', ''indisexclusion'', ''indimmediate'', ''indisclustered'',
      ''indisvalid'', ''indisready'', ''indislive'',
      ''condeferrable'', ''condeferred'', ''convalidated'']"

definition catalogColumnOID :: "gostr \<Rightarrow> oid32 option" where
  "catalogColumnOID = map_of (map (\<lambda>n. (n, BoolOID)) catalogBoolColumns)"

definition oidForType :: "gostr \<Rightarrow> oid32" where
  "oidForType declType =
     (let t = ToUpper (TrimSpace declType) in
      if t = [] then TextOID
      else if Contains t ''BOOL'' then BoolOID
      else if Contains t ''INT'' then Int8OID
      else if Contains t ''CHAR'' \<or> Contains t ''CLOB'' \<or> Contains t ''TEXT'' then TextOID
      else if Contains t ''BLOB'' then ByteaOID
      else if Contains t ''REAL'' \<or> Contains t ''FLOA'' \<or> Contains t ''DOUB'' then Float8OID
      else if Contains t ''NUMERIC'' \<or> Contains t ''DECIMAL'' \<or> Contains t ''DEC'' then NumericOID
      else if Contains t ''TIMESTAMP'' \<or> Contains t ''DATETIME'' then TimestampOID
      else if Contains t ''DATE'' then DateOID
      else if Contains t ''TIME'' then TimeOID
      else TextOID)"

text \<open>What the driver reports of a result column.\<close>

record column_type =
  col_name :: gostr
  col_decl :: gostr    \<comment> \<open>\<^verbatim>\<open>DatabaseTypeName()\<close>, empty for a computed column\<close>

definition oidForColumn :: "column_type \<Rightarrow> oid32" where
  "oidForColumn col =
     (let decl = col_decl col in
      case (if decl = [] then catalogColumnOID (col_name col) else None) of
        Some oid \<Rightarrow> oid
      | None \<Rightarrow> oidForType decl)"

definition columnOIDs :: "column_type list \<Rightarrow> oid32 list" where
  "columnOIDs cols = map oidForColumn cols"

definition typeSize :: "oid32 \<Rightarrow> int" where
  "typeSize oid =
     (if oid = BoolOID then 1
      else if oid \<in> {Int8OID, Float8OID, TimeOID, TimestampOID, TimestamptzOID} then 8
      else if oid \<in> {Int4OID, Float4OID, DateOID} then 4
      else if oid = Int2OID then 2
      else - 1)"

section \<open>Values in text form\<close>

definition boolText :: "bool \<Rightarrow> gostr" where
  "boolText b = (if b then ''t'' else ''f'')"

definition hexdigit :: "nat \<Rightarrow> char" where
  "hexdigit n = (if n < 10 then char_of (48 + n) else char_of (87 + n))"

definition encodeBytea :: "gostr \<Rightarrow> gostr" where
  "encodeBytea b = CHR 0x5C # CHR ''x'' # concat (map (\<lambda>c. [hexdigit (code c div 16), hexdigit (code c mod 16)]) b)"

text \<open>\<^verbatim>\<open>.999999\<close>: six digits of the fraction, trailing zeros and then the point removed.\<close>

definition frac_text :: "nat \<Rightarrow> gostr" where
  "frac_text nsec =
     (let ds = trim_right (\<lambda>c. c = CHR ''0'') (pad_nat 6 (nsec div 1000)) in
      if ds = [] then [] else CHR ''.'' # ds)"

definition date_text :: "gotime \<Rightarrow> gostr" where
  "date_text t =
     (if t_year t < 0 then ''-'' else []) @ pad_nat 4 (nat \<bar>t_year t\<bar>) @ ''-'' @ pad_nat 2 (t_month t)
     @ ''-'' @ pad_nat 2 (t_day t)"

definition clock_text :: "gotime \<Rightarrow> gostr" where
  "clock_text t =
     pad_nat 2 (t_hour t) @ '':'' @ pad_nat 2 (t_min t) @ '':'' @ pad_nat 2 (t_sec t) @ frac_text (t_nsec t)"

text \<open>\<^verbatim>\<open>-07\<close>: the hours of the offset in minutes, towards zero, by the sign of that.\<close>

definition zone_text :: "gotime \<Rightarrow> gostr" where
  "zone_text t =
     (let mins = sgn (t_offset t) * (\<bar>t_offset t\<bar> div 60) in
      (if mins < 0 then ''-'' else ''+'') @ pad_nat 2 (nat (\<bar>mins\<bar> div 60)))"

definition encodeTime :: "oid32 \<Rightarrow> gotime \<Rightarrow> gostr" where
  "encodeTime oid t =
     (if oid = DateOID then date_text t
      else if oid = TimeOID then clock_text t
      else if oid = TimestamptzOID then date_text t @ '' '' @ clock_text t @ zone_text t
      else date_text t @ '' '' @ clock_text t)"

text \<open>\<open>None\<close> is the nil slice, SQL's NULL on the wire.\<close>

fun encodeText :: "oid32 \<Rightarrow> go_value \<Rightarrow> gostr option" where
  "encodeText oid VNil = None"
| "encodeText oid (VBool b) = Some (boolText b)"
| "encodeText oid (VBytes b) = Some (if oid = ByteaOID then encodeBytea b else b)"
| "encodeText oid (VTime t) = Some (encodeTime oid t)"
| "encodeText oid (VInt n) = Some (if oid = BoolOID then boolText (n \<noteq> 0) else FormatInt64 n)"
| "encodeText oid (VFloat f) = Some (FormatFloat_g (f_shortest f))"
| "encodeText oid (VString s) = Some s"
| "encodeText oid (VOther s) = Some s"

section \<open>Catalog functions\<close>

definition ServerVersion :: gostr where
  "ServerVersion = ''14.0''"

definition typeOIDName :: "(oid32 \<times> gostr) list" where
  "typeOIDName =
     [(BoolOID, ''boolean''), (ByteaOID, ''bytea''), (QCharOID, [CHR 0x22] @ ''char'' @ [CHR 0x22]),
      (NameOID, ''name''), (Int8OID, ''bigint''), (Int2OID, ''smallint''), (Int4OID, ''integer''),
      (TextOID, ''text''), (OIDOID, ''oid''), (Float4OID, ''real''), (Float8OID, ''double precision''),
      (BPCharOID, ''character''), (VarcharOID, ''character varying''), (DateOID, ''date''),
      (TimeOID, ''time without time zone''), (TimestampOID, ''timestamp without time zone''),
      (TimestamptzOID, ''timestamp with time zone''), (NumericOID, ''numeric''), (JSONOID, ''json''),
      (JSONBOID, ''jsonb''), (UUIDOID, ''uuid'')]"

definition formatType :: "go_value list \<Rightarrow> gostr" where
  "formatType args =
     (if args = [] \<or> args ! 0 = VNil then ''-''
      else
        (let oid = (ucast (toInt64 (args ! 0)) :: oid32) in
         case map_of typeOIDName oid of
           None \<Rightarrow> ''-''
         | Some name \<Rightarrow>
             (let typmod = (if 1 < length args \<and> args ! 1 \<noteq> VNil then toInt64 (args ! 1) else -1) in
              if sint typmod < 0 then name
              else if oid \<in> {VarcharOID, BPCharOID} \<and> 4 \<le> sint typmod
                then name @ ''('' @ FormatInt64 (typmod - 4) @ '')''
              else if oid = NumericOID \<and> 4 \<le> sint typmod
                then (let m = typmod - 4 in
                  ''numeric('' @ FormatInt64 (signed_drop_bit 16 m AND 0xffff) @ '','' @ FormatInt64 (m AND 0xffff) @ '')'')
              else name)))"

definition show_setting :: "gostr \<Rightarrow> gostr" where
  "show_setting name =
     (let n = ToLower name in
      if n = ''server_version'' then ServerVersion
      else if n \<in> {''server_encoding'', ''client_encoding''} then ''UTF8''
      else if n \<in> {''standard_conforming_strings'', ''integer_datetimes''} then ''on''
      else if n \<in> {''transaction_isolation'', ''default_transaction_isolation''} then ''read committed''
      else if n = ''transaction_read_only'' then ''off''
      else if n = ''search_path'' then [CHR 0x22] @ ''$user'' @ [CHR 0x22] @ '', public''
      else if n = ''timezone'' then ''UTC''
      else if n = ''datestyle'' then ''ISO, MDY''
      else if n = ''max_identifier_length'' then ''63''
      else [])"

definition currentDatabase :: gostr where
  "currentDatabase = ''postlite''"

definition currentSetting :: "go_value list \<Rightarrow> gostr" where
  "currentSetting args =
     (case args of
        [] \<Rightarrow> []
      | a # _ \<Rightarrow> (case a of VString name \<Rightarrow> show_setting name | VNil \<Rightarrow> [] | _ \<Rightarrow> show_setting []))"

definition matchPattern :: "gostr \<Rightarrow> gostr \<Rightarrow> bool" where
  "matchPattern pattern s =
     (let anchoredStart = HasPrefix pattern ''^''; anchoredEnd = HasSuffix pattern ''$'';
          p = TrimSuffix (TrimPrefix (TrimSuffix (TrimPrefix pattern ''^'') ''$'') ''('') '')'' in
      if anchoredStart \<and> anchoredEnd then s = p
      else if anchoredStart then HasPrefix s p
      else if anchoredEnd then HasSuffix s p
      else Contains s p)"

definition sqliteDeclToPGType :: "gostr \<Rightarrow> gostr" where
  "sqliteDeclToPGType decl =
     (let oid = oidForType decl in
      if oid = BoolOID then ''boolean''
      else if oid = Int8OID then ''bigint''
      else if oid = Float8OID then ''double precision''
      else if oid = NumericOID then ''numeric''
      else if oid = ByteaOID then ''bytea''
      else if oid = DateOID then ''date''
      else if oid = TimeOID then ''time without time zone''
      else if oid = TimestampOID then ''timestamp without time zone''
      else ''text'')"

definition sqliteDeclToUDT :: "gostr \<Rightarrow> gostr" where
  "sqliteDeclToUDT decl =
     (let oid = oidForType decl in
      if oid = BoolOID then ''bool''
      else if oid = Int8OID then ''int8''
      else if oid = Float8OID then ''float8''
      else if oid = NumericOID then ''numeric''
      else if oid = ByteaOID then ''bytea''
      else if oid = DateOID then ''date''
      else if oid = TimeOID then ''time''
      else if oid = TimestampOID then ''timestamp''
      else ''text'')"

definition sqliteDeclToOID :: "gostr \<Rightarrow> i64" where
  "sqliteDeclToOID decl = ucast (oidForType decl)"

definition version :: gostr where
  "version = ''PostgreSQL '' @ ServerVersion @ '' (postlite) on x86_64-pc-linux-gnu''"

section \<open>Encodings can be read back\<close>

fun hexval :: "char \<Rightarrow> nat" where
  "hexval c = (if is_digit c then code c - 48 else code c - 87)"

text \<open>How a client reads the hex form of bytea.\<close>

fun hex_pairs :: "gostr \<Rightarrow> gostr option" where
  "hex_pairs [] = Some []"
| "hex_pairs [c] = None"
| "hex_pairs (c # d # s) = map_option ((#) (char_of (16 * hexval c + hexval d))) (hex_pairs s)"

definition decodeBytea :: "gostr \<Rightarrow> gostr option" where
  "decodeBytea s = (if HasPrefix s [CHR 0x5C, CHR ''x''] then hex_pairs (drop 2 s) else None)"

lemma hexval_hexdigit: "n < 16 \<Longrightarrow> hexval (hexdigit n) = n"
  by (auto simp: hexdigit_def is_digit_def)

text \<open>A blob sent as bytea is read back byte for byte.\<close>

theorem encodeBytea_roundtrip: "decodeBytea (encodeBytea b) = Some b"
proof -
  have "hex_pairs (concat (map (\<lambda>c. [hexdigit (code c div 16), hexdigit (code c mod 16)]) b)) = Some b"
  proof (induction b)
    case (Cons c b)
    have "hexval (hexdigit (code c div 16)) = code c div 16" "hexval (hexdigit (code c mod 16)) = code c mod 16"
      using code_less [of c] by (intro hexval_hexdigit; simp add: less_mult_imp_div_less)+
    with Cons show ?case by (simp del: hexval.simps)
  qed simp
  then show ?thesis by (simp add: encodeBytea_def decodeBytea_def)
qed

lemma itoa_nat_not_sign: "c \<in> set (itoa_nat n) \<Longrightarrow> c \<noteq> CHR ''-'' \<and> c \<noteq> CHR ''+'' \<and> \<not> is_space c"
  by (drule itoa_nat_digits) (auto simp: is_digit_def is_space_def)

lemma FormatInt_trim: "TrimSpace (FormatInt n) = FormatInt n"
proof (rule TrimSpace_id)
  have "\<not> is_space x" if "x \<in> set (FormatInt n)" for x
    using that itoa_nat_not_sign by (auto simp: FormatInt_def is_space_def split: if_splits)
  moreover have "FormatInt n \<noteq> []" by (simp add: FormatInt_def)
  ultimately show "FormatInt n = [] \<or> \<not> is_space (hd (FormatInt n)) \<and> \<not> is_space (last (FormatInt n))"
    by simp
qed

lemma ParseInt_FormatInt: "ParseInt (FormatInt (sint w)) = w"
proof -
  have b: "minInt64 \<le> sint w" "sint w \<le> maxInt64"
    using sint_ge [of w] sint_lt [of w] by (simp_all add: minInt64_def maxInt64_def)
  have d: "list_all is_digit (itoa_nat k)" for k using itoa_nat_digits by (simp add: list_all_iff)
  have h: "\<not> HasPrefix (itoa_nat k) ''-''" "\<not> HasPrefix (itoa_nat k) ''+''" for k
    using itoa_nat_not_sign [of "hd (itoa_nat k)" k] by (cases "itoa_nat k"; simp)+
  show ?thesis
    using b d h by (simp add: ParseInt_def FormatInt_def Let_def)
qed

text \<open>an integer survives the text form: whatever 64-bit value a column holds, the text
  sent for it (in a column that is not boolean) reads back as that value, also through the
  coercion of arguments of catalog functions.\<close>

theorem encodeText_int_roundtrip:
  assumes "oid \<noteq> BoolOID"
  shows "map_option (toInt64 \<circ> VString) (encodeText oid (VInt n)) = Some n"
  using assms by (simp add: FormatInt64_def FormatInt_trim ParseInt_FormatInt)

theorem encodeText_int_roundtrip_witness:
  "map_option (toInt64 \<circ> VString) (encodeText Int8OID (VInt (- 9223372036854775808))) = Some (- 9223372036854775808)"
  by (rule encodeText_int_roundtrip) (simp add: oid_defs)

section \<open>The catalog functions agree with each other\<close>

lemma oidForType_range:
  "oidForType decl \<in> {BoolOID, Int8OID, TextOID, ByteaOID, Float8OID, NumericOID, TimestampOID, DateOID, TimeOID}"
  by (simp add: oidForType_def Let_def)

lemma toInt64_oid: "ucast (toInt64 (VInt (sqliteDeclToOID decl))) = oidForType decl"
  unfolding sqliteDeclToOID_def toInt64.simps by (rule ucast_up_ucast_id) (simp add: is_up)

lemma declared_names:
  "formatType [VInt (sqliteDeclToOID decl)] = sqliteDeclToPGType decl"
  "formatType [VInt (sqliteDeclToOID decl), VInt (- 1)] = sqliteDeclToPGType decl"
  using oidForType_range [of decl] toInt64_oid [of decl]
  by (auto simp: formatType_def sqliteDeclToPGType_def typeOIDName_def oid_defs Let_def)

text \<open>the two ways a client learns a column's type agree: for every SQLite declaration
  the name \<^verbatim>\<open>information_schema\<close> reports is what \<^verbatim>\<open>format_type\<close> prints for the type OID of
  \<^verbatim>\<open>pg_attribute\<close>, without or with the modifier -1; and that OID is the one the result
  columns of the type are described with.\<close>

theorem declared_type_names_agree:
  "formatType [VInt (sqliteDeclToOID decl)] = sqliteDeclToPGType decl \<and>
   formatType [VInt (sqliteDeclToOID decl), VInt (- 1)] = sqliteDeclToPGType decl \<and>
   (decl \<noteq> [] \<longrightarrow> ucast (sqliteDeclToOID decl) = oidForColumn \<lparr>col_name = n, col_decl = decl\<rparr>)"
  using toInt64_oid [of decl] declared_names [of decl] by (simp add: oidForColumn_def)

theorem declared_type_names_agree_witness:
  "ucast (sqliteDeclToOID ''varchar(10)'') = oidForColumn \<lparr>col_name = ''a'', col_decl = ''varchar(10)''\<rparr>"
  by (rule declared_type_names_agree [THEN conjunct2, THEN conjunct2, rule_format]) simp

lemma sint_small: "0 \<le> k \<Longrightarrow> k < 2 ^ 62 \<Longrightarrow> sint (word_of_int k :: i64) = k"
  by (simp add: sint_sbintrunc' signed_take_bit_int_eq_self)

lemma and_low16: "(word_of_int k :: i64) AND 0xffff = word_of_int (k mod 65536)"
proof -
  have "(word_of_int k :: i64) AND word_of_int (mask 16) = word_of_int (k AND mask 16)"
    by transfer simp
  moreover have "(mask 16 :: int) = 65535" by (simp add: mask_eq_exp_minus_1)
  moreover have "k AND mask 16 = k mod 65536"
    by (simp only: take_bit_eq_mask [symmetric] take_bit_eq_mod) simp
  ultimately show ?thesis by simp
qed

lemma high_bits: "0 \<le> k \<Longrightarrow> k < 2 ^ 62 \<Longrightarrow> signed_drop_bit 16 (word_of_int k :: i64) = word_of_int (k div 65536)"
proof -
  assume k: "0 \<le> k" "k < 2 ^ 62"
  have "signed_drop_bit 16 (word_of_int k :: i64) = word_of_int (sint (signed_drop_bit 16 (word_of_int k :: i64)))"
    by simp
  also have "\<dots> = word_of_int (k div 65536)"
    using sint_small [OF k] by (simp only: sint_signed_drop_bit_eq drop_bit_eq_div) simp
  finally show ?thesis .
qed

text \<open>a numeric type modifier prints as the precision and scale it was made of, and a
  character length as that length: \<^verbatim>\<open>format_type\<close> inverts PostgreSQL's packing.\<close>

theorem formatType_typmod:
  assumes "p < 2 ^ 16" "s < 2 ^ 16" "n < 2 ^ 31"
  shows "formatType [VInt (ucast NumericOID), VInt (word_of_int (int p * 65536 + int s + 4))] =
      ''numeric('' @ itoa_nat p @ '','' @ itoa_nat s @ '')'' \<and>
    formatType [VInt (ucast VarcharOID), VInt (word_of_int (int n + 4))] = ''character varying('' @ itoa_nat n @ '')''"
proof -
  let ?t = "int p * 65536 + int s + 4"
  have st: "sint (word_of_int ?t :: i64) = ?t" "sint (word_of_int (int n + 4) :: i64) = int n + 4"
    using assms by (intro sint_small; simp)+
  let ?m = "int p * 65536 + int s"
  have m: "(word_of_int ?t :: i64) - 4 = word_of_int ?m" "(word_of_int (int n + 4) :: i64) - 4 = word_of_int (int n)"
    by simp_all
  have mb: "0 \<le> ?m" "?m < 2 ^ 62" using assms by simp_all
  have dm: "?m div 65536 = int p" "?m mod 65536 = int s" "int p mod 65536 = int p" using assms by simp_all
  have f: "FormatInt64 (word_of_int (int k)) = itoa_nat k" if "k < 2 ^ 31" for k
    using sint_small [of "int k"] that by (simp add: FormatInt64_def FormatInt_def)
  have parts: "FormatInt64 (signed_drop_bit 16 (word_of_int ?m) AND 0xffff) = itoa_nat p"
    "FormatInt64 (word_of_int ?m AND 0xffff) = itoa_nat s"
    unfolding high_bits [OF mb] and_low16 dm using assms by (intro f; simp)+
  have oids: "ucast (toInt64 (VInt (ucast NumericOID))) = NumericOID" "ucast (toInt64 (VInt (ucast VarcharOID))) = VarcharOID"
    by (simp_all add: oid_defs)
  have lk: "map_of typeOIDName NumericOID = Some ''numeric''" "map_of typeOIDName VarcharOID = Some ''character varying''"
    by (simp_all add: typeOIDName_def oid_defs)
  have ne: "NumericOID \<notin> {VarcharOID, BPCharOID}" "VarcharOID \<in> {VarcharOID, BPCharOID}" by (simp_all add: oid_defs)
  have "formatType [VInt (ucast NumericOID), VInt (word_of_int ?t)] = ''numeric('' @ itoa_nat p @ '','' @ itoa_nat s @ '')''"
    unfolding formatType_def nth_Cons_0 oids lk Let_def option.case
    using st(1) ne(1) parts by (simp add: m(1) del: of_int_add of_int_mult)
  moreover have "formatType [VInt (ucast VarcharOID), VInt (word_of_int (int n + 4))] = ''character varying('' @ itoa_nat n @ '')''"
    unfolding formatType_def nth_Cons_0 oids lk Let_def option.case
    using st(2) ne(2) f [OF assms(3)] by (simp add: m(2) del: of_int_add of_int_mult)
  ultimately show ?thesis by blast
qed

theorem formatType_typmod_witness:
  "formatType [VInt (ucast NumericOID), VInt (word_of_int (int 10 * 65536 + int 2 + 4))] =
     ''numeric('' @ itoa_nat 10 @ '','' @ itoa_nat 2 @ '')''"
  by (rule formatType_typmod [THEN conjunct1, of 10 2 0]) simp_all

section \<open>Name patterns\<close>

lemma HasSuffix_append [simp]: "HasSuffix (a @ b) b"
  by (simp add: HasSuffix_def)

lemma TrimPrefix_append [simp]: "TrimPrefix (p @ s) p = s"
  by (simp add: TrimPrefix_def)

lemma TrimSuffix_append [simp]: "TrimSuffix (s @ p) p = s"
  by (simp add: TrimSuffix_def)

lemma trim_wrapped:
  "TrimSuffix (TrimPrefix (TrimSuffix (TrimPrefix (''^('' @ name @ '')$'') ''^'') ''$'') ''('') '')'' = name"
proof -
  have "TrimPrefix (''^('' @ name @ '')$'') ''^'' = (''('' @ name @ '')'') @ ''$''"
    using TrimPrefix_append [of "''^''" "''('' @ name @ '')$''"] by simp
  moreover have "TrimPrefix (''('' @ name @ '')'') ''('' = name @ '')''" by (rule TrimPrefix_append)
  ultimately show ?thesis by (simp only: TrimSuffix_append)
qed

text \<open>The pattern psql makes of an object name, \<^verbatim>\<open>^(name)$\<close>, matches that name and no
  other, whatever characters the name has; without anchors the match is containment, with
  one of them a prefix or suffix test.\<close>

theorem matchPattern_psql:
  "(matchPattern (''^('' @ name @ '')$'') s \<longleftrightarrow> s = name) \<and>
   matchPattern [] s \<and> matchPattern ''^'' s \<and> matchPattern ''$'' s"
proof -
  have "HasPrefix (''^('' @ name @ '')$'') ''^''" by simp
  moreover have "HasSuffix (''^('' @ name @ '')$'') ''$''"
    using HasSuffix_append [of "''^('' @ name @ '')''" "''$''"] by simp
  ultimately have "matchPattern (''^('' @ name @ '')$'') s \<longleftrightarrow> s = name"
    unfolding matchPattern_def Let_def trim_wrapped by simp
  moreover have "matchPattern [] s" "matchPattern ''^'' s" "matchPattern ''$'' s"
    by (cases s; simp add: matchPattern_def TrimPrefix_def TrimSuffix_def HasSuffix_def)+
  ultimately show ?thesis by blast
qed

lemma matchPattern_exact: "matchPattern (CHR ''^'' # CHR ''('' # name @ '')$'') s \<longleftrightarrow> s = name"
  using matchPattern_psql [of name s] by simp

end
