(* ===== verification/VTab.thy ===== *)
theory VTab
  imports Types
begin

text \<open>
  The virtual tables \<^verbatim>\<open>pg_namespace.go\<close>, \<^verbatim>\<open>pg_description.go\<close>, \<^verbatim>\<open>pg_range.go\<close>,
  \<^verbatim>\<open>pg_type.go\<close>, \<^verbatim>\<open>pg_settings.go\<close> and \<^verbatim>\<open>pg_class.go\<close>, with the rows that \<^verbatim>\<open>catalog.go\<close>
  fills in: the struct of a row, the declared columns, and the module, table and cursor
  methods SQLite calls.  What SQLite does with the declaration is a parameter
  (\<open>declare_vtab\<close>: name and columns; the layout of the CREATE TABLE text is not modelled).

  Reading a row past the end would index out of range and panic (\<open>VPanic\<close>); a column number
  the method does not know sets no result.
\<close>

section \<open>Cursors\<close>

datatype vcell = ResultInt int | ResultText gostr | ResultDouble gofloat

datatype 'a vres = VOk 'a | VPanic

record vcursor =
  vc_index :: nat

definition create_module ::
  "(gostr \<times> gostr) list \<Rightarrow> (gostr \<Rightarrow> (gostr \<times> gostr) list \<Rightarrow> gostr option) \<Rightarrow> gostr list \<Rightarrow> gostr option vres" where
  "create_module decl declare_vtab args =
     (case args of [] \<Rightarrow> VPanic | name # _ \<Rightarrow> VOk (declare_vtab name decl))"

section \<open>The modules\<close>

subsection \<open>\<^verbatim>\<open>pg_namespace.go\<close>\<close>

record pgNamespace =
  ns_oid :: int
  ns_nspname :: gostr
  ns_nspowner :: int
  ns_nspacl :: gostr

definition pgNamespace_fields :: "(gostr \<times> (pgNamespace \<Rightarrow> vcell)) list" where
  "pgNamespace_fields =
     [(''oid'', \<lambda>r. ResultInt (ns_oid r)),
      (''nspname'', \<lambda>r. ResultText (ns_nspname r)),
      (''nspowner'', \<lambda>r. ResultInt (ns_nspowner r)),
      (''nspacl'', \<lambda>r. ResultText (ns_nspacl r))]"

definition pgNamespace_decl :: "(gostr \<times> gostr) list" where
  "pgNamespace_decl =
     [(''oid'', ''INT''),
      (''nspname'', ''TEXT''),
      (''nspowner'', ''INTEGER''),
      (''nspacl'', ''TEXT'')]"

definition pgNamespace_cells :: "pgNamespace \<Rightarrow> vcell list" where
  "pgNamespace_cells r =
     [ResultInt (ns_oid r),
      ResultText (ns_nspname r),
      ResultInt (ns_nspowner r),
      ResultText (ns_nspacl r)]"

definition pgNamespaces :: "pgNamespace list" where
  "pgNamespaces = [\<lparr>ns_oid = 99, ns_nspname = ''pg_toast'', ns_nspowner = 10, ns_nspacl = []\<rparr>,
      \<lparr>ns_oid = 11, ns_nspname = ''pg_catalog'', ns_nspowner = 10, ns_nspacl = []\<rparr>,
      \<lparr>ns_oid = 2200, ns_nspname = ''public'', ns_nspowner = 10, ns_nspacl = []\<rparr>,
      \<lparr>ns_oid = 13427, ns_nspname = ''information_schema'', ns_nspowner = 10, ns_nspacl = []\<rparr>]"

definition pgNamespaceModule_Create :: "(gostr \<Rightarrow> (gostr \<times> gostr) list \<Rightarrow> gostr option) \<Rightarrow> gostr list \<Rightarrow> gostr option vres" where
  "pgNamespaceModule_Create declare_vtab args = create_module pgNamespace_decl declare_vtab args"

definition pgNamespaceModule_Connect :: "(gostr \<Rightarrow> (gostr \<times> gostr) list \<Rightarrow> gostr option) \<Rightarrow> gostr list \<Rightarrow> gostr option vres" where
  "pgNamespaceModule_Connect declare_vtab args = pgNamespaceModule_Create declare_vtab args"

definition pgNamespaceTable_BestIndex :: "nat \<Rightarrow> bool list" where
  "pgNamespaceTable_BestIndex n = replicate n False"

definition pgNamespaceTable_Open :: "vcursor" where
  "pgNamespaceTable_Open = \<lparr>vc_index = 0\<rparr>"

definition pgNamespaceCursor_Column :: "vcursor \<Rightarrow> nat \<Rightarrow> vcell option vres" where
  "pgNamespaceCursor_Column c col =
     (if vc_index c < length pgNamespaces then
        (let cells = pgNamespace_cells (pgNamespaces ! vc_index c) in VOk (if col < length cells then Some (cells ! col) else None))
      else if col < length pgNamespace_decl then VPanic else VOk None)"

definition pgNamespaceCursor_Filter :: "vcursor \<Rightarrow> vcursor" where
  "pgNamespaceCursor_Filter c = c\<lparr>vc_index := 0\<rparr>"

definition pgNamespaceCursor_Next :: "vcursor \<Rightarrow> vcursor" where
  "pgNamespaceCursor_Next c = c\<lparr>vc_index := vc_index c + 1\<rparr>"

definition pgNamespaceCursor_EOF :: "vcursor \<Rightarrow> bool" where
  "pgNamespaceCursor_EOF c \<longleftrightarrow> length pgNamespaces \<le> vc_index c"

definition pgNamespaceCursor_Rowid :: "vcursor \<Rightarrow> int" where
  "pgNamespaceCursor_Rowid c = int (vc_index c)"

subsection \<open>\<^verbatim>\<open>pg_description.go\<close>\<close>

record pgDescription =
  de_objoid :: int
  de_classoid :: int
  de_objsubid :: int
  de_description :: gostr

definition pgDescription_fields :: "(gostr \<times> (pgDescription \<Rightarrow> vcell)) list" where
  "pgDescription_fields =
     [(''objoid'', \<lambda>r. ResultInt (de_objoid r)),
      (''classoid'', \<lambda>r. ResultInt (de_classoid r)),
      (''objsubid'', \<lambda>r. ResultInt (de_objsubid r)),
      (''description'', \<lambda>r. ResultText (de_description r))]"

definition pgDescription_decl :: "(gostr \<times> gostr) list" where
  "pgDescription_decl =
     [(''objoid'', ''INTEGER''),
      (''classoid'', ''INTEGER''),
      (''objsubid'', ''INTEGER''),
      (''description'', ''TEXT'')]"

definition pgDescription_cells :: "pgDescription \<Rightarrow> vcell list" where
  "pgDescription_cells r =
     [ResultInt (de_objoid r),
      ResultInt (de_classoid r),
      ResultInt (de_objsubid r),
      ResultText (de_description r)]"

definition pgDescriptions :: "pgDescription list" where
  "pgDescriptions = [\<lparr>de_objoid = 11, de_classoid = 2615, de_objsubid = 0, de_description = ''system catalog schema''\<rparr>,
      \<lparr>de_objoid = 99, de_classoid = 2615, de_objsubid = 0, de_description = ''reserved schema for TOAST tables''\<rparr>,
      \<lparr>de_objoid = 2200, de_classoid = 2615, de_objsubid = 0, de_description = ''standard public schema''\<rparr>]"

definition pgDescriptionModule_Create :: "(gostr \<Rightarrow> (gostr \<times> gostr) list \<Rightarrow> gostr option) \<Rightarrow> gostr list \<Rightarrow> gostr option vres" where
  "pgDescriptionModule_Create declare_vtab args = create_module pgDescription_decl declare_vtab args"

definition pgDescriptionModule_Connect :: "(gostr \<Rightarrow> (gostr \<times> gostr) list \<Rightarrow> gostr option) \<Rightarrow> gostr list \<Rightarrow> gostr option vres" where
  "pgDescriptionModule_Connect declare_vtab args = pgDescriptionModule_Create declare_vtab args"

definition pgDescriptionTable_BestIndex :: "nat \<Rightarrow> bool list" where
  "pgDescriptionTable_BestIndex n = replicate n False"

definition pgDescriptionTable_Open :: "vcursor" where
  "pgDescriptionTable_Open = \<lparr>vc_index = 0\<rparr>"

definition pgDescriptionCursor_Column :: "vcursor \<Rightarrow> nat \<Rightarrow> vcell option vres" where
  "pgDescriptionCursor_Column c col =
     (if vc_index c < length pgDescriptions then
        (let cells = pgDescription_cells (pgDescriptions ! vc_index c) in VOk (if col < length cells then Some (cells ! col) else None))
      else if col < length pgDescription_decl then VPanic else VOk None)"

definition pgDescriptionCursor_Filter :: "vcursor \<Rightarrow> vcursor" where
  "pgDescriptionCursor_Filter c = c\<lparr>vc_index := 0\<rparr>"

definition pgDescriptionCursor_Next :: "vcursor \<Rightarrow> vcursor" where
  "pgDescriptionCursor_Next c = c\<lparr>vc_index := vc_index c + 1\<rparr>"

definition pgDescriptionCursor_EOF :: "vcursor \<Rightarrow> bool" where
  "pgDescriptionCursor_EOF c \<longleftrightarrow> length pgDescriptions \<le> vc_index c"

definition pgDescriptionCursor_Rowid :: "vcursor \<Rightarrow> int" where
  "pgDescriptionCursor_Rowid c = int (vc_index c)"

subsection \<open>\<^verbatim>\<open>pg_range.go\<close>\<close>

record pgRange =
  rg_rngtypid :: int
  rg_rngsubtype :: int
  rg_rngmultitypid :: int
  rg_rngcollation :: int
  rg_rngsubopc :: int
  rg_rngcanonical :: gostr
  rg_rngsubdiff :: gostr

definition pgRange_fields :: "(gostr \<times> (pgRange \<Rightarrow> vcell)) list" where
  "pgRange_fields =
     [(''rngtypid'', \<lambda>r. ResultInt (rg_rngtypid r)),
      (''rngsubtype'', \<lambda>r. ResultInt (rg_rngsubtype r)),
      (''rngmultitypid'', \<lambda>r. ResultInt (rg_rngmultitypid r)),
      (''rngcollation'', \<lambda>r. ResultInt (rg_rngcollation r)),
      (''rngsubopc'', \<lambda>r. ResultInt (rg_rngsubopc r)),
      (''rngcanonical'', \<lambda>r. ResultText (rg_rngcanonical r)),
      (''rngsubdiff'', \<lambda>r. ResultText (rg_rngsubdiff r))]"

definition pgRange_decl :: "(gostr \<times> gostr) list" where
  "pgRange_decl =
     [(''rngtypid'', ''INTEGER''),
      (''rngsubtype'', ''INTEGER''),
      (''rngmultitypid'', ''INTEGER''),
      (''rngcollation'', ''INTEGER''),
      (''rngsubopc'', ''INTEGER''),
      (''rngcanonical'', ''TEXT''),
      (''rngsubdiff'', ''TEXT'')]"

definition pgRange_cells :: "pgRange \<Rightarrow> vcell list" where
  "pgRange_cells r =
     [ResultInt (rg_rngtypid r),
      ResultInt (rg_rngsubtype r),
      ResultInt (rg_rngmultitypid r),
      ResultInt (rg_rngcollation r),
      ResultInt (rg_rngsubopc r),
      ResultText (rg_rngcanonical r),
      ResultText (rg_rngsubdiff r)]"

definition pgRanges :: "pgRange list" where
  "pgRanges = [\<lparr>rg_rngtypid = 3904, rg_rngsubtype = 23, rg_rngmultitypid = 4451, rg_rngcollation = 0, rg_rngsubopc = 1978, rg_rngcanonical = [], rg_rngsubdiff = []\<rparr>,
      \<lparr>rg_rngtypid = 3906, rg_rngsubtype = 1700, rg_rngmultitypid = 4532, rg_rngcollation = 0, rg_rngsubopc = 3125, rg_rngcanonical = [], rg_rngsubdiff = []\<rparr>,
      \<lparr>rg_rngtypid = 3908, rg_rngsubtype = 1114, rg_rngmultitypid = 4533, rg_rngcollation = 0, rg_rngsubopc = 3128, rg_rngcanonical = [], rg_rngsubdiff = []\<rparr>,
      \<lparr>rg_rngtypid = 3910, rg_rngsubtype = 1184, rg_rngmultitypid = 4534, rg_rngcollation = 0, rg_rngsubopc = 3127, rg_rngcanonical = [], rg_rngsubdiff = []\<rparr>,
      \<lparr>rg_rngtypid = 3912, rg_rngsubtype = 1082, rg_rngmultitypid = 4535, rg_rngcollation = 0, rg_rngsubopc = 3122, rg_rngcanonical = [], rg_rngsubdiff = []\<rparr>,
      \<lparr>rg_rngtypid = 3926, rg_rngsubtype = 20, rg_rngmultitypid = 4536, rg_rngcollation = 0, rg_rngsubopc = 3124, rg_rngcanonical = [], rg_rngsubdiff = []\<rparr>]"

definition pgRangeModule_Create :: "(gostr \<Rightarrow> (gostr \<times> gostr) list \<Rightarrow> gostr option) \<Rightarrow> gostr list \<Rightarrow> gostr option vres" where
  "pgRangeModule_Create declare_vtab args = create_module pgRange_decl declare_vtab args"

definition pgRangeModule_Connect :: "(gostr \<Rightarrow> (gostr \<times> gostr) list \<Rightarrow> gostr option) \<Rightarrow> gostr list \<Rightarrow> gostr option vres" where
  "pgRangeModule_Connect declare_vtab args = pgRangeModule_Create declare_vtab args"

definition pgRangeTable_BestIndex :: "nat \<Rightarrow> bool list" where
  "pgRangeTable_BestIndex n = replicate n False"

definition pgRangeTable_Open :: "vcursor" where
  "pgRangeTable_Open = \<lparr>vc_index = 0\<rparr>"

definition pgRangeCursor_Column :: "vcursor \<Rightarrow> nat \<Rightarrow> vcell option vres" where
  "pgRangeCursor_Column c col =
     (if vc_index c < length pgRanges then
        (let cells = pgRange_cells (pgRanges ! vc_index c) in VOk (if col < length cells then Some (cells ! col) else None))
      else if col < length pgRange_decl then VPanic else VOk None)"

definition pgRangeCursor_Filter :: "vcursor \<Rightarrow> vcursor" where
  "pgRangeCursor_Filter c = c\<lparr>vc_index := 0\<rparr>"

definition pgRangeCursor_Next :: "vcursor \<Rightarrow> vcursor" where
  "pgRangeCursor_Next c = c\<lparr>vc_index := vc_index c + 1\<rparr>"

definition pgRangeCursor_EOF :: "vcursor \<Rightarrow> bool" where
  "pgRangeCursor_EOF c \<longleftrightarrow> length pgRanges \<le> vc_index c"

definition pgRangeCursor_Rowid :: "vcursor \<Rightarrow> int" where
  "pgRangeCursor_Rowid c = int (vc_index c)"

subsection \<open>\<^verbatim>\<open>pg_type.go\<close>\<close>

record pgType =
  ty_oid :: int
  ty_typname :: gostr
  ty_typnamespace :: int
  ty_typowner :: int
  ty_typlen :: int
  ty_typbyval :: int
  ty_typtype :: gostr
  ty_typcategory :: gostr
  ty_typispreferred :: int
  ty_typisdefined :: int
  ty_typdelim :: gostr
  ty_typrelid :: int
  ty_typelem :: int
  ty_typarray :: int
  ty_typinput :: gostr
  ty_typoutput :: gostr
  ty_typreceive :: gostr
  ty_typsend :: gostr
  ty_typmodin :: gostr
  ty_typmodout :: gostr
  ty_typanalyze :: gostr
  ty_typalign :: gostr
  ty_typstorage :: gostr
  ty_typnotnull :: int
  ty_typbasetype :: int
  ty_typtypmod :: int
  ty_typndims :: int
  ty_typcollation :: int
  ty_typdefaultbin :: gostr
  ty_typdefault :: gostr
  ty_typacl :: gostr

definition pgType_fields :: "(gostr \<times> (pgType \<Rightarrow> vcell)) list" where
  "pgType_fields =
     [(''oid'', \<lambda>r. ResultInt (ty_oid r)),
      (''typname'', \<lambda>r. ResultText (ty_typname r)),
      (''typnamespace'', \<lambda>r. ResultInt (ty_typnamespace r)),
      (''typowner'', \<lambda>r. ResultInt (ty_typowner r)),
      (''typlen'', \<lambda>r. ResultInt (ty_typlen r)),
      (''typbyval'', \<lambda>r. ResultInt (ty_typbyval r)),
      (''typtype'', \<lambda>r. ResultText (ty_typtype r)),
      (''typcategory'', \<lambda>r. ResultText (ty_typcategory r)),
      (''typispreferred'', \<lambda>r. ResultInt (ty_typispreferred r)),
      (''typisdefined'', \<lambda>r. ResultInt (ty_typisdefined r)),
      (''typdelim'', \<lambda>r. ResultText (ty_typdelim r)),
      (''typrelid'', \<lambda>r. ResultInt (ty_typrelid r)),
      (''typelem'', \<lambda>r. ResultInt (ty_typelem r)),
      (''typarray'', \<lambda>r. ResultInt (ty_typarray r)),
      (''typinput'', \<lambda>r. ResultText (ty_typinput r)),
      (''typoutput'', \<lambda>r. ResultText (ty_typoutput r)),
      (''typreceive'', \<lambda>r. ResultText (ty_typreceive r)),
      (''typsend'', \<lambda>r. ResultText (ty_typsend r)),
      (''typmodin'', \<lambda>r. ResultText (ty_typmodin r)),
      (''typmodout'', \<lambda>r. ResultText (ty_typmodout r)),
      (''typanalyze'', \<lambda>r. ResultText (ty_typanalyze r)),
      (''typalign'', \<lambda>r. ResultText (ty_typalign r)),
      (''typstorage'', \<lambda>r. ResultText (ty_typstorage r)),
      (''typnotnull'', \<lambda>r. ResultInt (ty_typnotnull r)),
      (''typbasetype'', \<lambda>r. ResultInt (ty_typbasetype r)),
      (''typtypmod'', \<lambda>r. ResultInt (ty_typtypmod r)),
      (''typndims'', \<lambda>r. ResultInt (ty_typndims r)),
      (''typcollation'', \<lambda>r. ResultInt (ty_typcollation r)),
      (''typdefaultbin'', \<lambda>r. ResultText (ty_typdefaultbin r)),
      (''typdefault'', \<lambda>r. ResultText (ty_typdefault r)),
      (''typacl'', \<lambda>r. ResultText (ty_typacl r))]"

definition pgType_decl :: "(gostr \<times> gostr) list" where
  "pgType_decl =
     [(''oid'', ''INTEGER''),
      (''typname'', ''TEXT''),
      (''typnamespace'', ''INTEGER''),
      (''typowner'', ''INTEGER''),
      (''typlen'', ''INTEGER''),
      (''typbyval'', ''INTEGER''),
      (''typtype'', ''TEXT''),
      (''typcategory'', ''TEXT''),
      (''typispreferred'', ''INTEGER''),
      (''typisdefined'', ''INTEGER''),
      (''typdelim'', ''TEXT''),
      (''typrelid'', ''INTEGER''),
      (''typelem'', ''INTEGER''),
      (''typarray'', ''INTEGER''),
      (''typinput'', ''TEXT''),
      (''typoutput'', ''TEXT''),
      (''typreceive'', ''TEXT''),
      (''typsend'', ''TEXT''),
      (''typmodin'', ''TEXT''),
      (''typmodout'', ''TEXT''),
      (''typanalyze'', ''TEXT''),
      (''typalign'', ''TEXT''),
      (''typstorage'', ''TEXT''),
      (''typnotnull'', ''INTEGER''),
      (''typbasetype'', ''INTEGER''),
      (''typtypmod'', ''INTEGER''),
      (''typndims'', ''INTEGER''),
      (''typcollation'', ''INTEGER''),
      (''typdefaultbin'', ''TEXT''),
      (''typdefault'', ''TEXT''),
      (''typacl'', ''TEXT'')]"

definition pgType_cells :: "pgType \<Rightarrow> vcell list" where
  "pgType_cells r =
     [ResultInt (ty_oid r),
      ResultText (ty_typname r),
      ResultInt (ty_typnamespace r),
      ResultInt (ty_typowner r),
      ResultInt (ty_typlen r),
      ResultInt (ty_typbyval r),
      ResultText (ty_typtype r),
      ResultText (ty_typcategory r),
      ResultInt (ty_typispreferred r),
      ResultInt (ty_typisdefined r),
      ResultText (ty_typdelim r),
      ResultInt (ty_typrelid r),
      ResultInt (ty_typelem r),
      ResultInt (ty_typarray r),
      ResultText (ty_typinput r),
      ResultText (ty_typoutput r),
      ResultText (ty_typreceive r),
      ResultText (ty_typsend r),
      ResultText (ty_typmodin r),
      ResultText (ty_typmodout r),
      ResultText (ty_typanalyze r),
      ResultText (ty_typalign r),
      ResultText (ty_typstorage r),
      ResultInt (ty_typnotnull r),
      ResultInt (ty_typbasetype r),
      ResultInt (ty_typtypmod r),
      ResultInt (ty_typndims r),
      ResultInt (ty_typcollation r),
      ResultText (ty_typdefaultbin r),
      ResultText (ty_typdefault r),
      ResultText (ty_typacl r)]"

definition scalarType :: "int \<Rightarrow> gostr \<Rightarrow> gostr \<Rightarrow> int \<Rightarrow> pgType" where
  "scalarType oid name category len =
     \<lparr>ty_oid = oid,
      ty_typname = name,
      ty_typnamespace = 11,
      ty_typowner = 10,
      ty_typlen = len,
      ty_typbyval = (if 0 < len \<and> len \<le> 8 then 1 else 0),
      ty_typtype = ''b'',
      ty_typcategory = category,
      ty_typispreferred = 0,
      ty_typisdefined = 1,
      ty_typdelim = '','',
      ty_typrelid = 0,
      ty_typelem = 0,
      ty_typarray = 0,
      ty_typinput = [],
      ty_typoutput = [],
      ty_typreceive = [],
      ty_typsend = [],
      ty_typmodin = [],
      ty_typmodout = [],
      ty_typanalyze = [],
      ty_typalign = ''i'',
      ty_typstorage = ''p'',
      ty_typnotnull = 0,
      ty_typbasetype = 0,
      ty_typtypmod = 0,
      ty_typndims = 0,
      ty_typcollation = 0,
      ty_typdefaultbin = [],
      ty_typdefault = [],
      ty_typacl = []\<rparr>"

definition pgTypes :: "pgType list" where
  "pgTypes =
     [scalarType 16 ''bool'' ''B'' 1,
      scalarType 17 ''bytea'' ''U'' (-1),
      scalarType 18 ''char'' ''Z'' 1,
      scalarType 19 ''name'' ''S'' 64,
      scalarType 20 ''int8'' ''N'' 8,
      scalarType 21 ''int2'' ''N'' 2,
      scalarType 23 ''int4'' ''N'' 4,
      scalarType 25 ''text'' ''S'' (-1),
      scalarType 26 ''oid'' ''N'' 4,
      scalarType 700 ''float4'' ''N'' 4,
      scalarType 701 ''float8'' ''N'' 8,
      scalarType 1042 ''bpchar'' ''S'' (-1),
      scalarType 1043 ''varchar'' ''S'' (-1),
      scalarType 1082 ''date'' ''D'' 4,
      scalarType 1083 ''time'' ''D'' 8,
      scalarType 1114 ''timestamp'' ''D'' 8,
      scalarType 1184 ''timestamptz'' ''D'' 8,
      scalarType 1700 ''numeric'' ''N'' (-1),
      scalarType 114 ''json'' ''U'' (-1),
      scalarType 3802 ''jsonb'' ''U'' (-1),
      scalarType 2950 ''uuid'' ''U'' 16]"

definition pgTypeModule_Create :: "(gostr \<Rightarrow> (gostr \<times> gostr) list \<Rightarrow> gostr option) \<Rightarrow> gostr list \<Rightarrow> gostr option vres" where
  "pgTypeModule_Create declare_vtab args = create_module pgType_decl declare_vtab args"

definition pgTypeModule_Connect :: "(gostr \<Rightarrow> (gostr \<times> gostr) list \<Rightarrow> gostr option) \<Rightarrow> gostr list \<Rightarrow> gostr option vres" where
  "pgTypeModule_Connect declare_vtab args = pgTypeModule_Create declare_vtab args"

definition pgTypeTable_BestIndex :: "nat \<Rightarrow> bool list" where
  "pgTypeTable_BestIndex n = replicate n False"

definition pgTypeTable_Open :: "vcursor" where
  "pgTypeTable_Open = \<lparr>vc_index = 0\<rparr>"

definition pgTypeCursor_Column :: "vcursor \<Rightarrow> nat \<Rightarrow> vcell option vres" where
  "pgTypeCursor_Column c col =
     (if vc_index c < length pgTypes then
        (let cells = pgType_cells (pgTypes ! vc_index c) in VOk (if col < length cells then Some (cells ! col) else None))
      else if col < length pgType_decl then VPanic else VOk None)"

definition pgTypeCursor_Filter :: "vcursor \<Rightarrow> vcursor" where
  "pgTypeCursor_Filter c = c\<lparr>vc_index := 0\<rparr>"

definition pgTypeCursor_Next :: "vcursor \<Rightarrow> vcursor" where
  "pgTypeCursor_Next c = c\<lparr>vc_index := vc_index c + 1\<rparr>"

definition pgTypeCursor_EOF :: "vcursor \<Rightarrow> bool" where
  "pgTypeCursor_EOF c \<longleftrightarrow> length pgTypes \<le> vc_index c"

definition pgTypeCursor_Rowid :: "vcursor \<Rightarrow> int" where
  "pgTypeCursor_Rowid c = int (vc_index c)"

subsection \<open>\<^verbatim>\<open>pg_settings.go\<close>\<close>

record pgSetting =
  se_name :: gostr
  se_setting :: gostr
  se_unit :: gostr
  se_category :: gostr
  se_short_desc :: gostr
  se_extra_desc :: gostr
  se_context :: gostr
  se_vartype :: gostr
  se_source :: gostr
  se_min_val :: gostr
  se_max_val :: gostr
  se_enumvals :: gostr
  se_boot_val :: gostr
  se_reset_val :: gostr
  se_sourcefile :: gostr
  se_sourceline :: int
  se_pending_restart :: int

definition pgSetting_fields :: "(gostr \<times> (pgSetting \<Rightarrow> vcell)) list" where
  "pgSetting_fields =
     [(''name'', \<lambda>r. ResultText (se_name r)),
      (''setting'', \<lambda>r. ResultText (se_setting r)),
      (''unit'', \<lambda>r. ResultText (se_unit r)),
      (''category'', \<lambda>r. ResultText (se_category r)),
      (''short_desc'', \<lambda>r. ResultText (se_short_desc r)),
      (''extra_desc'', \<lambda>r. ResultText (se_extra_desc r)),
      (''context'', \<lambda>r. ResultText (se_context r)),
      (''vartype'', \<lambda>r. ResultText (se_vartype r)),
      (''source'', \<lambda>r. ResultText (se_source r)),
      (''min_val'', \<lambda>r. ResultText (se_min_val r)),
      (''max_val'', \<lambda>r. ResultText (se_max_val r)),
      (''enumvals'', \<lambda>r. ResultText (se_enumvals r)),
      (''boot_val'', \<lambda>r. ResultText (se_boot_val r)),
      (''reset_val'', \<lambda>r. ResultText (se_reset_val r)),
      (''sourcefile'', \<lambda>r. ResultText (se_sourcefile r)),
      (''sourceline'', \<lambda>r. ResultInt (se_sourceline r)),
      (''pending_restart'', \<lambda>r. ResultInt (se_pending_restart r))]"

definition pgSetting_decl :: "(gostr \<times> gostr) list" where
  "pgSetting_decl =
     [(''name'', ''TEXT''),
      (''setting'', ''TEXT''),
      (''unit'', ''TEXT''),
      (''category'', ''TEXT''),
      (''short_desc'', ''TEXT''),
      (''extra_desc'', ''TEXT''),
      (''context'', ''TEXT''),
      (''vartype'', ''TEXT''),
      (''source'', ''TEXT''),
      (''min_val'', ''TEXT''),
      (''max_val'', ''TEXT''),
      (''enumvals'', ''TEXT''),
      (''boot_val'', ''TEXT''),
      (''reset_val'', ''TEXT''),
      (''sourcefile'', ''TEXT''),
      (''sourceline'', ''INTEGER''),
      (''pending_restart'', ''INTEGER'')]"

definition pgSetting_cells :: "pgSetting \<Rightarrow> vcell list" where
  "pgSetting_cells r =
     [ResultText (se_name r),
      ResultText (se_setting r),
      ResultText (se_unit r),
      ResultText (se_category r),
      ResultText (se_short_desc r),
      ResultText (se_extra_desc r),
      ResultText (se_context r),
      ResultText (se_vartype r),
      ResultText (se_source r),
      ResultText (se_min_val r),
      ResultText (se_max_val r),
      ResultText (se_enumvals r),
      ResultText (se_boot_val r),
      ResultText (se_reset_val r),
      ResultText (se_sourcefile r),
      ResultInt (se_sourceline r),
      ResultInt (se_pending_restart r)]"

definition setting :: "gostr \<Rightarrow> gostr \<Rightarrow> gostr \<Rightarrow> pgSetting" where
  "setting name val vartype =
     \<lparr>se_name = name,
      se_setting = val,
      se_unit = [],
      se_category = ''postlite'',
      se_short_desc = [],
      se_extra_desc = [],
      se_context = ''user'',
      se_vartype = vartype,
      se_source = ''default'',
      se_min_val = [],
      se_max_val = [],
      se_enumvals = [],
      se_boot_val = val,
      se_reset_val = val,
      se_sourcefile = [],
      se_sourceline = 0,
      se_pending_restart = 0\<rparr>"

definition pgSettings :: "pgSetting list" where
  "pgSettings =
     [setting ''server_version'' ServerVersion ''string'',
      setting ''server_version_num'' ''140000'' ''integer'',
      setting ''server_encoding'' ''UTF8'' ''string'',
      setting ''client_encoding'' ''UTF8'' ''string'',
      setting ''DateStyle'' ''ISO, MDY'' ''string'',
      setting ''IntervalStyle'' ''postgres'' ''string'',
      setting ''TimeZone'' ''UTC'' ''string'',
      setting ''integer_datetimes'' ''on'' ''string'',
      setting ''standard_conforming_strings'' ''on'' ''string'',
      setting ''search_path'' ([CHR 0x22] @ ''$user'' @ [CHR 0x22] @ '', public'') ''string'',
      setting ''max_connections'' ''100'' ''integer'',
      setting ''max_identifier_length'' ''63'' ''integer'',
      setting ''block_size'' ''8192'' ''integer'']"

definition pgSettingsModule_Create :: "(gostr \<Rightarrow> (gostr \<times> gostr) list \<Rightarrow> gostr option) \<Rightarrow> gostr list \<Rightarrow> gostr option vres" where
  "pgSettingsModule_Create declare_vtab args = create_module pgSetting_decl declare_vtab args"

definition pgSettingsModule_Connect :: "(gostr \<Rightarrow> (gostr \<times> gostr) list \<Rightarrow> gostr option) \<Rightarrow> gostr list \<Rightarrow> gostr option vres" where
  "pgSettingsModule_Connect declare_vtab args = pgSettingsModule_Create declare_vtab args"

definition pgSettingsTable_BestIndex :: "nat \<Rightarrow> bool list" where
  "pgSettingsTable_BestIndex n = replicate n False"

definition pgSettingsTable_Open :: "vcursor" where
  "pgSettingsTable_Open = \<lparr>vc_index = 0\<rparr>"

definition pgSettingsCursor_Column :: "vcursor \<Rightarrow> nat \<Rightarrow> vcell option vres" where
  "pgSettingsCursor_Column c col =
     (if vc_index c < length pgSettings then
        (let cells = pgSetting_cells (pgSettings ! vc_index c) in VOk (if col < length cells then Some (cells ! col) else None))
      else if col < length pgSetting_decl then VPanic else VOk None)"

definition pgSettingsCursor_Filter :: "vcursor \<Rightarrow> vcursor" where
  "pgSettingsCursor_Filter c = c\<lparr>vc_index := 0\<rparr>"

definition pgSettingsCursor_Next :: "vcursor \<Rightarrow> vcursor" where
  "pgSettingsCursor_Next c = c\<lparr>vc_index := vc_index c + 1\<rparr>"

definition pgSettingsCursor_EOF :: "vcursor \<Rightarrow> bool" where
  "pgSettingsCursor_EOF c \<longleftrightarrow> length pgSettings \<le> vc_index c"

definition pgSettingsCursor_Rowid :: "vcursor \<Rightarrow> int" where
  "pgSettingsCursor_Rowid c = int (vc_index c)"

subsection \<open>\<^verbatim>\<open>pg_class.go\<close>\<close>

record pgClass =
  cl_oid :: int
  cl_relname :: gostr
  cl_relnamespace :: int
  cl_reltype :: int
  cl_reloftype :: int
  cl_relowner :: int
  cl_relam :: int
  cl_relfilenode :: int
  cl_reltablespace :: int
  cl_relpages :: int
  cl_reltuples :: gofloat
  cl_relallvisible :: int
  cl_reltoastrelid :: int
  cl_relhasindex :: int
  cl_relisshared :: int
  cl_relpersistence :: gostr
  cl_relkind :: gostr
  cl_relnatts :: int
  cl_relchecks :: int
  cl_relhasrules :: int
  cl_relhastriggers :: int
  cl_relhassubclass :: int
  cl_relrowsecurity :: int
  cl_relforcerowsecurity :: int
  cl_relispopulated :: int
  cl_relreplident :: gostr
  cl_relispartition :: int
  cl_relrewrite :: int
  cl_relfrozenxid :: int
  cl_relminmxid :: int
  cl_relacl :: gostr
  cl_reloptions :: gostr
  cl_relpartbound :: gostr

definition pgClass_fields :: "(gostr \<times> (pgClass \<Rightarrow> vcell)) list" where
  "pgClass_fields =
     [(''oid'', \<lambda>r. ResultInt (cl_oid r)),
      (''relname'', \<lambda>r. ResultText (cl_relname r)),
      (''relnamespace'', \<lambda>r. ResultInt (cl_relnamespace r)),
      (''reltype'', \<lambda>r. ResultInt (cl_reltype r)),
      (''reloftype'', \<lambda>r. ResultInt (cl_reloftype r)),
      (''relowner'', \<lambda>r. ResultInt (cl_relowner r)),
      (''relam'', \<lambda>r. ResultInt (cl_relam r)),
      (''relfilenode'', \<lambda>r. ResultInt (cl_relfilenode r)),
      (''reltablespace'', \<lambda>r. ResultInt (cl_reltablespace r)),
      (''relpages'', \<lambda>r. ResultInt (cl_relpages r)),
      (''reltuples'', \<lambda>r. ResultDouble (cl_reltuples r)),
      (''relallvisible'', \<lambda>r. ResultInt (cl_relallvisible r)),
      (''reltoastrelid'', \<lambda>r. ResultInt (cl_reltoastrelid r)),
      (''relhasindex'', \<lambda>r. ResultInt (cl_relhasindex r)),
      (''relisshared'', \<lambda>r. ResultInt (cl_relisshared r)),
      (''relpersistence'', \<lambda>r. ResultText (cl_relpersistence r)),
      (''relkind'', \<lambda>r. ResultText (cl_relkind r)),
      (''relnatts'', \<lambda>r. ResultInt (cl_relnatts r)),
      (''relchecks'', \<lambda>r. ResultInt (cl_relchecks r)),
      (''relhasrules'', \<lambda>r. ResultInt (cl_relhasrules r)),
      (''relhastriggers'', \<lambda>r. ResultInt (cl_relhastriggers r)),
      (''relhassubclass'', \<lambda>r. ResultInt (cl_relhassubclass r)),
      (''relrowsecurity'', \<lambda>r. ResultInt (cl_relrowsecurity r)),
      (''relforcerowsecurity'', \<lambda>r. ResultInt (cl_relforcerowsecurity r)),
      (''relispopulated'', \<lambda>r. ResultInt (cl_relispopulated r)),
      (''relreplident'', \<lambda>r. ResultText (cl_relreplident r)),
      (''relispartition'', \<lambda>r. ResultInt (cl_relispartition r)),
      (''relrewrite'', \<lambda>r. ResultInt (cl_relrewrite r)),
      (''relfrozenxid'', \<lambda>r. ResultInt (cl_relfrozenxid r)),
      (''relminmxid'', \<lambda>r. ResultInt (cl_relminmxid r)),
      (''relacl'', \<lambda>r. ResultText (cl_relacl r)),
      (''reloptions'', \<lambda>r. ResultText (cl_reloptions r)),
      (''relpartbound'', \<lambda>r. ResultText (cl_relpartbound r))]"

definition pgClass_decl :: "(gostr \<times> gostr) list" where
  "pgClass_decl =
     [(''oid'', ''INTEGER''),
      (''relname'', ''TEXT''),
      (''relnamespace'', ''INTEGER''),
      (''reltype'', ''INTEGER''),
      (''reloftype'', ''INTEGER''),
      (''relowner'', ''INTEGER''),
      (''relam'', ''INTEGER''),
      (''relfilenode'', ''INTEGER''),
      (''reltablespace'', ''INTEGER''),
      (''relpages'', ''INTEGER''),
      (''reltuples'', ''REAL''),
      (''relallvisible'', ''INTEGER''),
      (''reltoastrelid'', ''INTEGER''),
      (''relhasindex'', ''INTEGER''),
      (''relisshared'', ''INTEGER''),
      (''relpersistence'', ''TEXT''),
      (''relkind'', ''TEXT''),
      (''relnatts'', ''INTEGER''),
      (''relchecks'', ''INTEGER''),
      (''relhasrules'', ''INTEGER''),
      (''relhastriggers'', ''INTEGER''),
      (''relhassubclass'', ''INTEGER''),
      (''relrowsecurity'', ''INTEGER''),
      (''relforcerowsecurity'', ''INTEGER''),
      (''relispopulated'', ''INTEGER''),
      (''relreplident'', ''TEXT''),
      (''relispartition'', ''INTEGER''),
      (''relrewrite'', ''INTEGER''),
      (''relfrozenxid'', ''INTEGER''),
      (''relminmxid'', ''INTEGER''),
      (''relacl'', ''TEXT''),
      (''reloptions'', ''TEXT''),
      (''relpartbound'', ''TEXT'')]"

definition pgClass_cells :: "pgClass \<Rightarrow> vcell list" where
  "pgClass_cells r =
     [ResultInt (cl_oid r),
      ResultText (cl_relname r),
      ResultInt (cl_relnamespace r),
      ResultInt (cl_reltype r),
      ResultInt (cl_reloftype r),
      ResultInt (cl_relowner r),
      ResultInt (cl_relam r),
      ResultInt (cl_relfilenode r),
      ResultInt (cl_reltablespace r),
      ResultInt (cl_relpages r),
      ResultDouble (cl_reltuples r),
      ResultInt (cl_relallvisible r),
      ResultInt (cl_reltoastrelid r),
      ResultInt (cl_relhasindex r),
      ResultInt (cl_relisshared r),
      ResultText (cl_relpersistence r),
      ResultText (cl_relkind r),
      ResultInt (cl_relnatts r),
      ResultInt (cl_relchecks r),
      ResultInt (cl_relhasrules r),
      ResultInt (cl_relhastriggers r),
      ResultInt (cl_relhassubclass r),
      ResultInt (cl_relrowsecurity r),
      ResultInt (cl_relforcerowsecurity r),
      ResultInt (cl_relispopulated r),
      ResultText (cl_relreplident r),
      ResultInt (cl_relispartition r),
      ResultInt (cl_relrewrite r),
      ResultInt (cl_relfrozenxid r),
      ResultInt (cl_relminmxid r),
      ResultText (cl_relacl r),
      ResultText (cl_reloptions r),
      ResultText (cl_relpartbound r)]"

definition pgClasses :: "pgClass list" where
  "pgClasses = []"

definition pgClassModule_Create :: "(gostr \<Rightarrow> (gostr \<times> gostr) list \<Rightarrow> gostr option) \<Rightarrow> gostr list \<Rightarrow> gostr option vres" where
  "pgClassModule_Create declare_vtab args = create_module pgClass_decl declare_vtab args"

definition pgClassModule_Connect :: "(gostr \<Rightarrow> (gostr \<times> gostr) list \<Rightarrow> gostr option) \<Rightarrow> gostr list \<Rightarrow> gostr option vres" where
  "pgClassModule_Connect declare_vtab args = pgClassModule_Create declare_vtab args"

definition pgClassTable_BestIndex :: "nat \<Rightarrow> bool list" where
  "pgClassTable_BestIndex n = replicate n False"

definition pgClassTable_Open :: "vcursor" where
  "pgClassTable_Open = \<lparr>vc_index = 0\<rparr>"

definition pgClassCursor_Column :: "vcursor \<Rightarrow> nat \<Rightarrow> vcell option vres" where
  "pgClassCursor_Column c col =
     (if vc_index c < length pgClasses then
        (let cells = pgClass_cells (pgClasses ! vc_index c) in VOk (if col < length cells then Some (cells ! col) else None))
      else if col < length pgClass_decl then VPanic else VOk None)"

definition pgClassCursor_Filter :: "vcursor \<Rightarrow> vcursor" where
  "pgClassCursor_Filter c = c\<lparr>vc_index := 0\<rparr>"

definition pgClassCursor_Next :: "vcursor \<Rightarrow> vcursor" where
  "pgClassCursor_Next c = c\<lparr>vc_index := vc_index c + 1\<rparr>"

definition pgClassCursor_EOF :: "vcursor \<Rightarrow> bool" where
  "pgClassCursor_EOF c \<longleftrightarrow> length pgClasses \<le> vc_index c"

definition pgClassCursor_Rowid :: "vcursor \<Rightarrow> int" where
  "pgClassCursor_Rowid c = int (vc_index c)"

section \<open>Scanning a table\<close>

text \<open>How SQLite reads a whole table: after \<^verbatim>\<open>Filter\<close>, until \<^verbatim>\<open>EOF\<close>, the rowid and the first
  \<open>w\<close> columns, then \<^verbatim>\<open>Next\<close>.  Nothing says that this ends.\<close>

partial_function (option) vscan ::
  "(vcursor \<Rightarrow> bool) \<Rightarrow> (vcursor \<Rightarrow> vcursor) \<Rightarrow> (vcursor \<Rightarrow> nat \<Rightarrow> vcell option vres) \<Rightarrow> (vcursor \<Rightarrow> int) \<Rightarrow>
     nat \<Rightarrow> vcursor \<Rightarrow> (int \<times> vcell option vres list) list option" where
  "vscan eof nxt col rid w c =
     (if eof c then Some []
      else
        Option.bind (vscan eof nxt col rid w (nxt c)) (\<lambda>rows. Some ((rid c, map (col c) [0..<w]) # rows)))"

text \<open>What a column of a row has to be: the field of the row's struct that has the column's name,
  as the result of the field's type.\<close>

definition column_value :: "(gostr \<times> ('a \<Rightarrow> vcell)) list \<Rightarrow> 'a \<Rightarrow> gostr \<Rightarrow> vcell option vres" where
  "column_value strct r n = (case map_of strct n of Some f \<Rightarrow> VOk (Some (f r)) | None \<Rightarrow> VPanic)"

definition named_rows ::
  "(gostr \<times> ('a \<Rightarrow> vcell)) list \<Rightarrow> (gostr \<times> gostr) list \<Rightarrow> 'a list \<Rightarrow> (int \<times> vcell option vres list) list" where
  "named_rows strct decl rows =
     map (\<lambda>i. (int i, map (\<lambda>(n, ty). column_value strct (rows ! i) n) decl)) [0..<length rows]"

text \<open>The contract between SQLite and a cursor over fixed rows: the callbacks walk the rows, and
  column \<open>j\<close> is the field the table's declaration names in place \<open>j\<close>.\<close>

locale vtab_cursor =
  fixes filter_c nxt :: "vcursor \<Rightarrow> vcursor" and eof :: "vcursor \<Rightarrow> bool"
    and col :: "vcursor \<Rightarrow> nat \<Rightarrow> vcell option vres" and rid :: "vcursor \<Rightarrow> int"
    and cells :: "'a \<Rightarrow> vcell list" and rows :: "'a list"
    and strct :: "(gostr \<times> ('a \<Rightarrow> vcell)) list" and decl :: "(gostr \<times> gostr) list"
  assumes filter_start: "vc_index (filter_c c) = 0"
    and next_step: "vc_index (nxt c) = Suc (vc_index c)"
    and eof_end: "eof c \<longleftrightarrow> length rows \<le> vc_index c"
    and col_cell: "vc_index c < length rows \<Longrightarrow> j < length (cells (rows ! vc_index c)) \<Longrightarrow>
      col c j = VOk (Some (cells (rows ! vc_index c) ! j))"
    and rid_index: "rid c = int (vc_index c)"
    and cells_named: "map (\<lambda>v. VOk (Some v)) (cells r) = map (\<lambda>(n, ty). column_value strct r n) decl"
begin

lemma width: "length (cells r) = length decl"
  using cells_named [of r] by (rule map_eq_imp_length_eq)

lemma row_cells:
  "vc_index c < length rows \<Longrightarrow>
     map (col c) [0..<length decl] = map (\<lambda>(n, ty). column_value strct (rows ! vc_index c) n) decl"
  unfolding cells_named [symmetric] using width by (intro nth_equalityI) (auto simp: col_cell)

lemma scan_from:
  "vc_index c \<le> length rows \<Longrightarrow>
     vscan eof nxt col rid (length decl) c =
       Some (map (\<lambda>i. (int i, map (\<lambda>(n, ty). column_value strct (rows ! i) n) decl)) [vc_index c..<length rows])"
proof (induction "length rows - vc_index c" arbitrary: c)
  case 0
  then show ?case by (simp add: vscan.simps eof_end)
next
  case (Suc n)
  then have lt: "vc_index c < length rows" by simp
  with Suc.hyps(2) have "n = length rows - vc_index (nxt c)" by (simp add: next_step)
  from Suc.hyps(1) [OF this] lt have
    "vscan eof nxt col rid (length decl) (nxt c) =
       Some (map (\<lambda>i. (int i, map (\<lambda>(n, ty). column_value strct (rows ! i) n) decl)) [Suc (vc_index c)..<length rows])"
    by (simp add: next_step)
  with lt show ?case
    by (subst vscan.simps) (simp add: eof_end row_cells rid_index upt_conv_Cons)
qed

lemma scan_all: "vscan eof nxt col rid (length decl) (filter_c c) = Some (named_rows strct decl rows)"
  using scan_from [of "filter_c c"] by (simp add: filter_start named_rows_def)

lemma no_panic: "\<not> eof c \<Longrightarrow> j < length decl \<Longrightarrow> col c j \<noteq> VPanic"
  by (simp add: eof_end col_cell width)

end

interpretation pgNamespace: vtab_cursor pgNamespaceCursor_Filter pgNamespaceCursor_Next pgNamespaceCursor_EOF pgNamespaceCursor_Column pgNamespaceCursor_Rowid
    pgNamespace_cells pgNamespaces pgNamespace_fields pgNamespace_decl
  by unfold_locales (auto simp: pgNamespaceCursor_Filter_def pgNamespaceCursor_Next_def pgNamespaceCursor_EOF_def pgNamespaceCursor_Column_def
      pgNamespaceCursor_Rowid_def pgNamespace_cells_def pgNamespace_fields_def pgNamespace_decl_def column_value_def Let_def)

interpretation pgDescription: vtab_cursor pgDescriptionCursor_Filter pgDescriptionCursor_Next pgDescriptionCursor_EOF pgDescriptionCursor_Column pgDescriptionCursor_Rowid
    pgDescription_cells pgDescriptions pgDescription_fields pgDescription_decl
  by unfold_locales (auto simp: pgDescriptionCursor_Filter_def pgDescriptionCursor_Next_def pgDescriptionCursor_EOF_def pgDescriptionCursor_Column_def
      pgDescriptionCursor_Rowid_def pgDescription_cells_def pgDescription_fields_def pgDescription_decl_def column_value_def Let_def)

interpretation pgRange: vtab_cursor pgRangeCursor_Filter pgRangeCursor_Next pgRangeCursor_EOF pgRangeCursor_Column pgRangeCursor_Rowid
    pgRange_cells pgRanges pgRange_fields pgRange_decl
  by unfold_locales (auto simp: pgRangeCursor_Filter_def pgRangeCursor_Next_def pgRangeCursor_EOF_def pgRangeCursor_Column_def
      pgRangeCursor_Rowid_def pgRange_cells_def pgRange_fields_def pgRange_decl_def column_value_def Let_def)

interpretation pgType: vtab_cursor pgTypeCursor_Filter pgTypeCursor_Next pgTypeCursor_EOF pgTypeCursor_Column pgTypeCursor_Rowid
    pgType_cells pgTypes pgType_fields pgType_decl
  by unfold_locales (auto simp: pgTypeCursor_Filter_def pgTypeCursor_Next_def pgTypeCursor_EOF_def pgTypeCursor_Column_def
      pgTypeCursor_Rowid_def pgType_cells_def pgType_fields_def pgType_decl_def column_value_def Let_def)

interpretation pgSetting: vtab_cursor pgSettingsCursor_Filter pgSettingsCursor_Next pgSettingsCursor_EOF pgSettingsCursor_Column pgSettingsCursor_Rowid
    pgSetting_cells pgSettings pgSetting_fields pgSetting_decl
  by unfold_locales (auto simp: pgSettingsCursor_Filter_def pgSettingsCursor_Next_def pgSettingsCursor_EOF_def pgSettingsCursor_Column_def
      pgSettingsCursor_Rowid_def pgSetting_cells_def pgSetting_fields_def pgSetting_decl_def column_value_def Let_def)

interpretation pgClass: vtab_cursor pgClassCursor_Filter pgClassCursor_Next pgClassCursor_EOF pgClassCursor_Column pgClassCursor_Rowid
    pgClass_cells pgClasses pgClass_fields pgClass_decl
  by unfold_locales (auto simp: pgClassCursor_Filter_def pgClassCursor_Next_def pgClassCursor_EOF_def pgClassCursor_Column_def
      pgClassCursor_Rowid_def pgClass_cells_def pgClass_fields_def pgClass_decl_def column_value_def Let_def)

text \<open>C40: Reading a catalog table gives its rows under the names it declares: a full scan of each
  virtual table, from whatever state its cursor is in, ends and delivers every row of the data
  exactly once, in order, numbered from 0.  In each row there is one value for every column of
  the CREATE TABLE which the module declares to SQLite, and it is the field of that name in the
  row's Go struct, of the result type of the field; no column is left unset and no index is out of
  range.\<close>

theorem catalog_tables_scan:
  "vscan pgNamespaceCursor_EOF pgNamespaceCursor_Next pgNamespaceCursor_Column pgNamespaceCursor_Rowid (length pgNamespace_decl) (pgNamespaceCursor_Filter c) =
     Some (named_rows pgNamespace_fields pgNamespace_decl pgNamespaces) \<and>
   vscan pgDescriptionCursor_EOF pgDescriptionCursor_Next pgDescriptionCursor_Column pgDescriptionCursor_Rowid (length pgDescription_decl) (pgDescriptionCursor_Filter c) =
     Some (named_rows pgDescription_fields pgDescription_decl pgDescriptions) \<and>
   vscan pgRangeCursor_EOF pgRangeCursor_Next pgRangeCursor_Column pgRangeCursor_Rowid (length pgRange_decl) (pgRangeCursor_Filter c) =
     Some (named_rows pgRange_fields pgRange_decl pgRanges) \<and>
   vscan pgTypeCursor_EOF pgTypeCursor_Next pgTypeCursor_Column pgTypeCursor_Rowid (length pgType_decl) (pgTypeCursor_Filter c) =
     Some (named_rows pgType_fields pgType_decl pgTypes) \<and>
   vscan pgSettingsCursor_EOF pgSettingsCursor_Next pgSettingsCursor_Column pgSettingsCursor_Rowid (length pgSetting_decl) (pgSettingsCursor_Filter c) =
     Some (named_rows pgSetting_fields pgSetting_decl pgSettings) \<and>
   vscan pgClassCursor_EOF pgClassCursor_Next pgClassCursor_Column pgClassCursor_Rowid (length pgClass_decl) (pgClassCursor_Filter c) =
     Some (named_rows pgClass_fields pgClass_decl pgClasses)"
  by (intro conjI pgNamespace.scan_all pgDescription.scan_all pgRange.scan_all pgType.scan_all pgSetting.scan_all pgClass.scan_all)

text \<open>A cell of the type the table declares for its column.\<close>

fun fits :: "gostr \<times> gostr \<Rightarrow> vcell \<Rightarrow> bool" where
  "fits (n, ty) (ResultInt _) \<longleftrightarrow> ty = ''INTEGER'' \<or> ty = ''INT''"
| "fits (n, ty) (ResultText _) \<longleftrightarrow> ty = ''TEXT''"
| "fits (n, ty) (ResultDouble _) \<longleftrightarrow> ty = ''REAL''"

text \<open>Every column method matches its table's declaration: for any row it sets exactly one
  value per declared column, of the declared type.\<close>

theorem catalog_columns_typed:
  "list_all2 fits pgNamespace_decl (pgNamespace_cells r1) \<and>
   list_all2 fits pgDescription_decl (pgDescription_cells r2) \<and>
   list_all2 fits pgRange_decl (pgRange_cells r3) \<and>
   list_all2 fits pgType_decl (pgType_cells r4) \<and>
   list_all2 fits pgSetting_decl (pgSetting_cells r5) \<and>
   list_all2 fits pgClass_decl (pgClass_cells r6)"
  by (simp add: pgNamespace_decl_def pgNamespace_cells_def pgDescription_decl_def pgDescription_cells_def pgRange_decl_def pgRange_cells_def pgType_decl_def pgType_cells_def pgSetting_decl_def pgSetting_cells_def pgClass_decl_def pgClass_cells_def)

section \<open>The types in the catalog\<close>

lemma ty_scalarType [simp]:
  "ty_oid (scalarType i n c l) = i" "ty_typname (scalarType i n c l) = n" "ty_typlen (scalarType i n c l) = l"
  "ty_typnamespace (scalarType i n c l) = 11"
  by (simp_all add: scalarType_def)

lemma type_in_catalog:
  "\<exists>t \<in> set pgTypes. ty_oid t = uint (oidForType decl) \<and> ty_oid t = sint (sqliteDeclToOID decl) \<and>
     ty_typname t = sqliteDeclToUDT decl \<and> ty_typlen t = typeSize (oidForType decl)"
  using oidForType_range [of decl]
  by (auto simp: pgTypes_def sqliteDeclToUDT_def sqliteDeclToOID_def typeSize_def oid_defs Let_def)

end
