(* ===== verification/Catalog_Views.thy ===== *)
theory Catalog_Views
  imports Enums VTab "HOL-Library.Product_Lexorder" "HOL-Library.List_Lexorder" "HOL-Library.Char_ord"
begin

text \<open>
  What the catalog views of \<^verbatim>\<open>catalog.go\<close> and \<^verbatim>\<open>catalog_information_schema.go\<close> compute: each
  CREATE TEMP VIEW statement (its text is in \<open>Catalog_Sql\<close>) as a function from the schema to
  the rows of the view, with the column names and expressions of the SELECT in its order.

  The schema is what SQLite knows of the database: \<^verbatim>\<open>sqlite_master\<close> and the results of the
  pragma functions.  The enum tables hold the rows that \<open>enum_catalog_inserts\<close> lists.  Rows
  come in the order of the nested loops of the FROM clause, and in the order of the keys behind
  a GROUP BY; that is what SQLite does, SQL promises no order.
\<close>

section \<open>The schema\<close>

record master_row =
  m_rowid :: int
  m_type :: gostr
  m_name :: gostr
  m_tbl_name :: gostr
  m_sql :: "gostr option"

record table_column =       \<comment> \<open>\<^verbatim>\<open>pragma_table_info\<close>\<close>
  ti_cid :: int
  ti_name :: gostr
  ti_type :: gostr
  ti_notnull :: int
  ti_dflt_value :: "gostr option"
  ti_pk :: int

record index_entry =        \<comment> \<open>\<^verbatim>\<open>pragma_index_list\<close>\<close>
  il_seq :: int
  il_name :: gostr
  il_unique :: int
  il_origin :: gostr

record index_column =       \<comment> \<open>\<^verbatim>\<open>pragma_index_info\<close>\<close>
  ii_seqno :: int
  ii_name :: "gostr option"

record foreign_key =        \<comment> \<open>\<^verbatim>\<open>pragma_foreign_key_list\<close>, one per column\<close>
  fk_id :: int
  fk_seq :: int
  fk_table :: gostr
  fk_from :: gostr
  fk_to :: "gostr option"
  fk_on_update :: gostr
  fk_on_delete :: gostr

record listed_table =       \<comment> \<open>\<^verbatim>\<open>pragma_table_list\<close>\<close>
  tl_schema :: gostr
  tl_name :: gostr
  tl_type :: gostr

record schema =
  sqlite_master :: "master_row list"
  table_list :: "listed_table list"
  table_info :: "gostr \<Rightarrow> table_column list"
  index_list :: "gostr \<Rightarrow> index_entry list"
  index_info :: "gostr \<Rightarrow> index_column list"
  foreign_key_list :: "gostr \<Rightarrow> foreign_key list"

section \<open>SQL values\<close>

datatype sqlval = SNull | SInt int | SText gostr

type_synonym sql_row = "(gostr \<times> sqlval) list"

definition opt_text :: "gostr option \<Rightarrow> sqlval" where
  "opt_text v = (case v of None \<Rightarrow> SNull | Some s \<Rightarrow> SText s)"

text \<open>The value of a column of a row.\<close>

definition col :: "gostr \<Rightarrow> sql_row \<Rightarrow> sqlval" where
  "col n r = (case map_of r n of None \<Rightarrow> SNull | Some v \<Rightarrow> v)"

definition case_int :: "bool \<Rightarrow> sqlval" where
  "case_int b = SInt (if b then 1 else 0)"

text \<open>LIKE, with an optional escape character: ASCII letters compare without case.\<close>

fun sql_like :: "char option \<Rightarrow> gostr \<Rightarrow> gostr \<Rightarrow> bool" where
  "sql_like esc [] s \<longleftrightarrow> s = []"
| "sql_like esc (p # ps) s \<longleftrightarrow>
     (if esc = Some p then
        (case (ps, s) of
           (q # qs, c # cs) \<Rightarrow> lower_char q = lower_char c \<and> sql_like esc qs cs
         | _ \<Rightarrow> False)
      else if p = CHR ''%'' then
        sql_like esc ps s \<or> (case s of [] \<Rightarrow> False | c # cs \<Rightarrow> sql_like esc (p # ps) cs)
      else
        (case s of
           [] \<Rightarrow> False
         | c # cs \<Rightarrow> (p = CHR ''_'' \<or> lower_char p = lower_char c) \<and> sql_like esc ps cs))"

text \<open>COLLATE NOCASE.\<close>

definition nocase_eq :: "gostr \<Rightarrow> gostr \<Rightarrow> bool" where
  "nocase_eq a b \<longleftrightarrow> ToLower a = ToLower b"

text \<open>\<^verbatim>\<open>json_group_array\<close> of integers and NULLs.\<close>

definition json_elem :: "sqlval \<Rightarrow> gostr" where
  "json_elem v = (case v of SNull \<Rightarrow> ''null'' | SInt n \<Rightarrow> FormatInt n | SText s \<Rightarrow> s)"

definition json_group_array :: "sqlval list \<Rightarrow> sqlval" where
  "json_group_array vs = SText (''['' @ Join (map json_elem vs) '','' @ '']'')"

text \<open>A scalar subquery: the first row, NULL without one.\<close>

definition scalar :: "sqlval list \<Rightarrow> sqlval" where
  "scalar vs = (case vs of [] \<Rightarrow> SNull | v # _ \<Rightarrow> v)"

text \<open>GROUP BY: one row for each key, in the order of the keys (text compares bytewise).  The columns
  that are selected depend only on the key.\<close>

definition group_by :: "('a \<Rightarrow> 'k::linorder) \<Rightarrow> 'a list \<Rightarrow> 'a list" where
  "group_by key rows = map (\<lambda>k. hd (filter (\<lambda>r. key r = k) rows)) (sort (remdups (map key rows)))"

section \<open>The tables that are shown\<close>

text \<open>\<^verbatim>\<open>notVirtualPredicate\<close>.\<close>

definition not_virtual :: "schema \<Rightarrow> gostr \<Rightarrow> bool" where
  "not_virtual S n \<longleftrightarrow>
     n \<notin> set (map tl_name (filter (\<lambda>v. tl_schema v = ''main'' \<and> tl_type v \<in> {''virtual'', ''shadow''}) (table_list S))) \<and>
     \<not> list_ex (\<lambda>v. tl_schema v = ''main'' \<and> tl_type v = ''virtual'' \<and>
          sql_like (Some (CHR 0x5C)) (tl_name v @ [CHR 0x5C, CHR ''_'', CHR ''%'']) n) (table_list S)"

definition user_named :: "gostr \<Rightarrow> bool" where
  "user_named n \<longleftrightarrow> \<not> sql_like None ''sqlite_%'' n"

definition shown :: "schema \<Rightarrow> gostr list \<Rightarrow> master_row list" where
  "shown S types =
     filter (\<lambda>m. m_type m \<in> set types \<and> user_named (m_name m) \<and> not_virtual S (m_name m)) (sqlite_master S)"

definition real_tables :: "schema \<Rightarrow> master_row list" where
  "real_tables S = filter (\<lambda>m. m_type m = ''table'' \<and> not_virtual S (m_name m)) (sqlite_master S)"

section \<open>The enum tables\<close>

record enum_type_row =
  et_oid :: int
  et_typname :: gostr
  et_typnamespace :: int

record enum_col_row =
  ec_table_name :: gostr
  ec_column_name :: gostr
  ec_typoid :: int
  ec_typname :: gostr

fun as_type_row :: "enum_insert \<Rightarrow> enum_type_row option" where
  "as_type_row (InsType i n) = Some \<lparr>et_oid = i, et_typname = n, et_typnamespace = 2200\<rparr>"
| "as_type_row _ = None"

fun as_col_row :: "enum_insert \<Rightarrow> enum_col_row option" where
  "as_col_row (InsCol t c i n) = Some \<lparr>ec_table_name = t, ec_column_name = c, ec_typoid = i, ec_typname = n\<rparr>"
| "as_col_row _ = None"

fun as_label_row :: "enum_insert \<Rightarrow> (int \<times> int \<times> gostr) option" where
  "as_label_row (InsLabel t k l) = Some (t, k, l)"
| "as_label_row _ = None"

text \<open>The rows \<^verbatim>\<open>setupEnumCatalog\<close> reads: \<^verbatim>\<open>type = 'table' AND name NOT LIKE 'sqlite_%' AND sql IS
  NOT NULL\<close>.\<close>

definition schema_tables :: "schema \<Rightarrow> (gostr \<times> gostr) list" where
  "schema_tables S =
     List.map_filter (\<lambda>m. if m_type m = ''table'' \<and> user_named (m_name m)
        then map_option (\<lambda>q. (m_name m, q)) (m_sql m) else None) (sqlite_master S)"

definition enum_types :: "enum_insert list \<Rightarrow> enum_type_row list" where
  "enum_types E = List.map_filter as_type_row E"

definition enum_cols :: "enum_insert list \<Rightarrow> enum_col_row list" where
  "enum_cols E = List.map_filter as_col_row E"

definition enum_label_rows :: "enum_insert list \<Rightarrow> (int \<times> int \<times> gostr) list" where
  "enum_label_rows E = List.map_filter as_label_row E"

text \<open>LEFT JOIN __pg_enum_col: the matching rows, or one row of NULLs.\<close>

definition enum_join :: "enum_insert list \<Rightarrow> gostr \<Rightarrow> gostr \<Rightarrow> enum_col_row option list" where
  "enum_join E tbl cname =
     (let ms = filter (\<lambda>ec. ec_table_name ec = tbl \<and> nocase_eq (ec_column_name ec) cname) (enum_cols E)
      in if ms = [] then [None] else map Some ms)"

section \<open>The pg_catalog views\<close>

definition pg_class_row :: "schema \<Rightarrow> master_row \<Rightarrow> sql_row" where
  "pg_class_row S m =
     [(''oid'', SInt (m_rowid m)),
      (''relname'', SText (m_name m)),
      (''relnamespace'', SInt 2200),
      (''reltype'', SInt 0),
      (''reloftype'', SInt 0),
      (''relowner'', SInt 10),
      (''relam'', SInt 0),
      (''relfilenode'', SInt (m_rowid m)),
      (''reltablespace'', SInt 0),
      (''relpages'', SInt 0),
      (''reltuples'', SInt (-1)),
      (''relallvisible'', SInt 0),
      (''reltoastrelid'', SInt 0),
      (''relhasindex'', case_int (index_list S (m_name m) \<noteq> [])),
      (''relisshared'', SInt 0),
      (''relpersistence'', SText ''p''),
      (''relkind'', (if m_type m = ''table'' then SText ''r'' else if m_type m = ''view'' then SText ''v''
         else if m_type m = ''index'' then SText ''i'' else SText ''r'')),
      (''relnatts'', SInt (int (length (table_info S (m_name m))))),
      (''relchecks'', SInt 0),
      (''relhasrules'', SInt 0),
      (''relhastriggers'', SInt 0),
      (''relhassubclass'', SInt 0),
      (''relrowsecurity'', SInt 0),
      (''relforcerowsecurity'', SInt 0),
      (''relispopulated'', SInt 1),
      (''relreplident'', SText ''d''),
      (''relispartition'', SInt 0),
      (''relfrozenxid'', SInt 0),
      (''relminmxid'', SInt 0),
      (''relacl'', SText []),
      (''reloptions'', SText [])]"

definition pg_class :: "schema \<Rightarrow> sql_row list" where
  "pg_class S =
     map (pg_class_row S) (shown S [''table'', ''view'', ''index''])"

definition pg_attribute_row :: "master_row \<Rightarrow> table_column \<Rightarrow> enum_col_row option \<Rightarrow> sql_row" where
  "pg_attribute_row m p ec =
     [(''attrelid'', SInt (m_rowid m)),
      (''attrelname'', SText (m_name m)),
      (''attname'', SText (ti_name p)),
      (''atttypid'', (case ec of Some e \<Rightarrow> SInt (ec_typoid e) | None \<Rightarrow> SInt (sint (sqliteDeclToOID (ti_type p))))),
      (''attstattarget'', SInt 0),
      (''attlen'', SInt (-1)),
      (''attnum'', SInt (ti_cid p + 1)),
      (''attndims'', SInt 0),
      (''attcacheoff'', SInt (-1)),
      (''atttypmod'', SInt (-1)),
      (''attnotnull'', case_int (ti_notnull p = 1 \<or> 0 < ti_pk p)),
      (''atthasdef'', case_int (ti_dflt_value p \<noteq> None)),
      (''attidentity'', SText []),
      (''attgenerated'', SText []),
      (''attisdropped'', SInt 0),
      (''attislocal'', SInt 1),
      (''attinhcount'', SInt 0),
      (''attcollation'', SInt 0),
      (''attacl'', SText []),
      (''attoptions'', SText [])]"

text \<open>The FROM clause of \<open>pg_attribute\<close> and of \<open>information_schema_columns\<close>.\<close>

definition column_join :: "schema \<Rightarrow> enum_insert list \<Rightarrow> (master_row \<times> table_column \<times> enum_col_row option) list" where
  "column_join S E =
     concat (map (\<lambda>m. concat (map (\<lambda>p. map (\<lambda>ec. (m, p, ec)) (enum_join E (m_name m) (ti_name p)))
        (table_info S (m_name m)))) (shown S [''table'', ''view'']))"

definition pg_attribute :: "schema \<Rightarrow> enum_insert list \<Rightarrow> sql_row list" where
  "pg_attribute S E =
     map (\<lambda>(m, p, ec). pg_attribute_row m p ec) (column_join S E)"

definition pg_index_row :: "schema \<Rightarrow> master_row \<Rightarrow> index_entry \<Rightarrow> sql_row" where
  "pg_index_row S m il =
     [(''indexrelid'', SInt (m_rowid m * 100000 + il_seq il)),
      (''indrelid'', SInt (m_rowid m)),
      (''indexrelname'', SText (il_name il)),
      (''indnatts'', SInt (int (length (index_info S (il_name il))))),
      (''indisunique'', case_int (il_unique il = 1)),
      (''indisprimary'', case_int (il_origin il = ''pk'')),
      (''indisexclusion'', SInt 0),
      (''indimmediate'', case_int (il_unique il = 1)),
      (''indisclustered'', SInt 0),
      (''indisvalid'', SInt 1),
      (''indisready'', SInt 1),
      (''indislive'', SInt 1)]"

definition pg_index :: "schema \<Rightarrow> sql_row list" where
  "pg_index S =
     concat (map (\<lambda>m. map (pg_index_row S m) (index_list S (m_name m))) (real_tables S))"

text \<open>The column numbers of a primary key, in key order.\<close>

definition pk_columns :: "schema \<Rightarrow> gostr \<Rightarrow> sqlval list" where
  "pk_columns S tbl =
     map (\<lambda>ti. SInt (ti_cid ti + 1)) (sort_key ti_pk (filter (\<lambda>ti. 0 < ti_pk ti) (table_info S tbl)))"

definition column_number :: "schema \<Rightarrow> gostr \<Rightarrow> gostr option \<Rightarrow> sqlval" where
  "column_number S tbl n =
     scalar (map (\<lambda>t. SInt (ti_cid t + 1)) (filter (\<lambda>t. Some (ti_name t) = n) (table_info S tbl)))"

definition fk_columns :: "schema \<Rightarrow> gostr \<Rightarrow> foreign_key \<Rightarrow> foreign_key list" where
  "fk_columns S tbl fk =
     sort_key fk_seq (filter (\<lambda>fk2. fk_id fk2 = fk_id fk) (foreign_key_list S tbl))"

definition fk_action :: "gostr \<Rightarrow> gostr" where
  "fk_action a =
     (if a = ''CASCADE'' then ''c'' else if a = ''SET NULL'' then ''n'' else if a = ''SET DEFAULT'' then ''d''
      else if a = ''RESTRICT'' then ''r'' else ''a'')"

definition pk_constraint_row :: "schema \<Rightarrow> master_row \<Rightarrow> sql_row" where
  "pk_constraint_row S m =
     [(''oid'', SInt (m_rowid m * 1000000 + 1)),
      (''conname'', SText (m_name m @ ''_pkey'')),
      (''connamespace'', SInt 2200),
      (''contype'', SText ''p''),
      (''condeferrable'', SInt 0),
      (''condeferred'', SInt 0),
      (''convalidated'', SInt 1),
      (''conrelid'', SInt (m_rowid m)),
      (''contypid'', SInt 0),
      (''conrelname'', SText (m_name m)),
      (''confrelname'', SNull),
      (''confrelid'', SInt 0),
      (''confupdtype'', SText []),
      (''confdeltype'', SText []),
      (''confmatchtype'', SText []),
      (''conkey'', json_group_array (pk_columns S (m_name m))),
      (''confkey'', SNull)]"

definition fk_name :: "master_row \<Rightarrow> foreign_key \<Rightarrow> gostr" where
  "fk_name m fk =
     m_name m @ ''_'' @ FormatInt (fk_id fk) @ ''_fkey''"

definition fk_constraint_row :: "schema \<Rightarrow> master_row \<Rightarrow> foreign_key \<Rightarrow> sql_row" where
  "fk_constraint_row S m fk =
     [(''oid'', SInt (m_rowid m * 1000000 + 1000 + fk_id fk)),
      (''conname'', SText (fk_name m fk)),
      (''connamespace'', SInt 2200),
      (''contype'', SText ''f''),
      (''condeferrable'', SInt 0),
      (''condeferred'', SInt 0),
      (''convalidated'', SInt 1),
      (''conrelid'', SInt (m_rowid m)),
      (''contypid'', SInt 0),
      (''conrelname'', SText (m_name m)),
      (''confrelname'', SText (fk_table fk)),
      (''confrelid'', scalar (map (\<lambda>rm. SInt (m_rowid rm)) (filter (\<lambda>rm. m_name rm = fk_table fk) (sqlite_master S)))),
      (''confupdtype'', SText (fk_action (fk_on_update fk))),
      (''confdeltype'', SText (fk_action (fk_on_delete fk))),
      (''confmatchtype'', SText ''f''),
      (''conkey'', json_group_array (map (\<lambda>fk2. column_number S (m_name m) (Some (fk_from fk2))) (fk_columns S (m_name m) fk))),
      (''confkey'', json_group_array (map (\<lambda>fk2. column_number S (fk_table fk) (fk_to fk2)) (fk_columns S (m_name m) fk)))]"

definition unique_constraint_row :: "schema \<Rightarrow> master_row \<Rightarrow> index_entry \<Rightarrow> sql_row" where
  "unique_constraint_row S m il =
     [(''oid'', SInt (m_rowid m * 1000000 + 2000 + il_seq il)),
      (''conname'', SText (il_name il)),
      (''connamespace'', SInt 2200),
      (''contype'', SText ''u''),
      (''condeferrable'', SInt 0),
      (''condeferred'', SInt 0),
      (''convalidated'', SInt 1),
      (''conrelid'', SInt (m_rowid m)),
      (''contypid'', SInt 0),
      (''conrelname'', SText (m_name m)),
      (''confrelname'', SNull),
      (''confrelid'', SInt 0),
      (''confupdtype'', SText []),
      (''confdeltype'', SText []),
      (''confmatchtype'', SText []),
      (''conkey'', json_group_array (map (\<lambda>ii. column_number S (m_name m) (ii_name ii)) (sort_key ii_seqno (index_info S (il_name il))))),
      (''confkey'', SNull)]"

text \<open>The three sources of constraints: tables joined with their key columns, grouped by rowid and
  name or by name only; foreign keys (their first column); UNIQUE indexes.\<close>

definition pk_join :: "schema \<Rightarrow> (master_row \<times> table_column) list" where
  "pk_join S =
     concat (map (\<lambda>m. map (\<lambda>p. (m, p)) (filter (\<lambda>p. 0 < ti_pk p) (table_info S (m_name m)))) (real_tables S))"

definition pk_by_rowid :: "schema \<Rightarrow> master_row list" where
  "pk_by_rowid S = map fst (group_by (\<lambda>(m, p). (m_rowid m, m_name m)) (pk_join S))"

definition pk_by_name :: "schema \<Rightarrow> master_row list" where
  "pk_by_name S = map fst (group_by (\<lambda>(m, p). m_name m) (pk_join S))"

definition first_fks :: "schema \<Rightarrow> (master_row \<times> foreign_key) list" where
  "first_fks S =
     concat (map (\<lambda>m. map (\<lambda>fk. (m, fk)) (filter (\<lambda>fk. fk_seq fk = 0) (foreign_key_list S (m_name m)))) (real_tables S))"

definition unique_indexes :: "schema \<Rightarrow> (master_row \<times> index_entry) list" where
  "unique_indexes S =
     concat (map (\<lambda>m. map (\<lambda>il. (m, il)) (filter (\<lambda>il. il_unique il = 1 \<and> il_origin il = ''u'') (index_list S (m_name m))))
        (real_tables S))"

definition pg_constraint :: "schema \<Rightarrow> sql_row list" where
  "pg_constraint S =
     map (pk_constraint_row S) (pk_by_rowid S)
     @ map (\<lambda>(m, fk). fk_constraint_row S m fk) (first_fks S)
     @ map (\<lambda>(m, il). unique_constraint_row S m il) (unique_indexes S)"

definition pg_proc :: "sql_row list" where
  "pg_proc =
     []"

definition pg_database :: "gostr \<Rightarrow> sql_row list" where
  "pg_database db =
     [[(''oid'', SInt 1),
      (''datname'', SText db),
      (''datdba'', SInt 10),
      (''encoding'', SInt 6),
      (''datcollate'', SText ''C''),
      (''datctype'', SText ''C''),
      (''datistemplate'', SInt 0),
      (''datallowconn'', SInt 1),
      (''datconnlimit'', SInt (-1)),
      (''datlastsysoid'', SInt 0),
      (''datfrozenxid'', SInt 0),
      (''datminmxid'', SInt 0),
      (''dattablespace'', SInt 0),
      (''datacl'', SNull)]]"

text \<open>The type rows of the virtual table and of the enums, UNION ALL: the names are those of
  the first SELECT.\<close>

definition sql_of_cell :: "vcell \<Rightarrow> sqlval" where
  "sql_of_cell v = (case v of ResultInt i \<Rightarrow> SInt i | ResultText s \<Rightarrow> SText s | ResultDouble d \<Rightarrow> SText (FormatFloat_g (f_shortest d)))"

definition base_type_row :: "pgType \<Rightarrow> sql_row" where
  "base_type_row t = zip (map fst pgType_decl) (map sql_of_cell (pgType_cells t))"

definition enum_type_values :: "enum_type_row \<Rightarrow> sqlval list" where
  "enum_type_values et =
     [SInt (et_oid et), SText (et_typname et), SInt (et_typnamespace et), SInt 10, SInt (-1), SInt 0,
      SText ''e'', SText ''E'', SInt 0, SInt 1, SText '','', SInt 0,
      SInt 0, SInt 0, SInt 0, SInt 0, SInt 0, SInt 0,
      SInt 0, SInt 0, SInt 0, SText ''i'', SText ''p'', SInt 0,
      SInt 0, SInt (-1), SInt 0, SInt 0, SNull, SNull,
      SNull]"

definition pg_type :: "enum_insert list \<Rightarrow> sql_row list" where
  "pg_type E =
     map base_type_row pgTypes @ map (\<lambda>et. zip (map fst pgType_decl) (enum_type_values et)) (enum_types E)"

text \<open>The label table is stored by its key, which is the order a scan visits.\<close>

definition pg_enum :: "enum_insert list \<Rightarrow> sql_row list" where
  "pg_enum E =
     map (\<lambda>(t, k, l). [(''oid'', SInt (t * 10000 + k)),
      (''enumtypid'', SInt t),
      (''enumsortorder'', SInt k),
      (''enumlabel'', SText l)])
       (sort_key (\<lambda>(t, k, l). (t, k)) (enum_label_rows E))"

definition keyword_list :: "gostr list" where
  "keyword_list =
     [''abort'', ''add'', ''all'', ''alter'', ''analyze'', ''and'', ''as'', ''asc'',
      ''begin'', ''between'', ''by'', ''case'', ''cast'', ''check'', ''collate'', ''column'',
      ''commit'', ''constraint'', ''create'', ''cross'', ''default'', ''delete'', ''desc'', ''distinct'',
      ''drop'', ''else'', ''end'', ''except'', ''exists'', ''foreign'', ''from'', ''full'',
      ''group'', ''having'', ''in'', ''index'', ''inner'', ''insert'', ''intersect'', ''into'',
      ''is'', ''join'', ''left'', ''like'', ''limit'', ''not'', ''null'', ''on'',
      ''or'', ''order'', ''outer'', ''primary'', ''references'', ''right'', ''rollback'', ''select'',
      ''set'', ''table'', ''then'', ''union'', ''unique'', ''update'', ''using'', ''values'',
      ''when'', ''where'', ''with'']"

definition pg_get_keywords :: "sql_row list" where
  "pg_get_keywords =
     map (\<lambda>w. [(''word'', SText w), (''catcode'', SText ''U''), (''catdesc'', SText ''unreserved'')]) keyword_list"

section \<open>The information_schema views\<close>

definition information_schema_tables :: "schema \<Rightarrow> gostr \<Rightarrow> sql_row list" where
  "information_schema_tables S db =
     map (\<lambda>m. [(''table_catalog'', SText db),
      (''table_schema'', SText ''public''),
      (''table_name'', SText (m_name m)),
      (''table_type'', SText (if m_type m = ''view'' then ''VIEW'' else ''BASE TABLE'')),
      (''self_referencing_column_name'', SNull),
      (''reference_generation'', SNull),
      (''user_defined_type_catalog'', SNull),
      (''user_defined_type_schema'', SNull),
      (''user_defined_type_name'', SNull),
      (''is_insertable_into'', SText ''YES''),
      (''is_typed'', SText ''NO''),
      (''commit_action'', SNull)])
       (shown S [''table'', ''view''])"

definition information_column_row :: "gostr \<Rightarrow> master_row \<Rightarrow> table_column \<Rightarrow> enum_col_row option \<Rightarrow> sql_row" where
  "information_column_row db m p ec =
     [(''table_catalog'', SText db),
      (''table_schema'', SText ''public''),
      (''table_name'', SText (m_name m)),
      (''column_name'', SText (ti_name p)),
      (''ordinal_position'', SInt (ti_cid p + 1)),
      (''column_default'', opt_text (ti_dflt_value p)),
      (''is_nullable'', SText (if ti_notnull p = 1 \<or> 0 < ti_pk p then ''NO'' else ''YES'')),
      (''data_type'', SText (if ec \<noteq> None then ''USER-DEFINED'' else sqliteDeclToPGType (ti_type p))),
      (''character_maximum_length'', SNull),
      (''character_octet_length'', SNull),
      (''numeric_precision'', SNull),
      (''numeric_precision_radix'', SNull),
      (''numeric_scale'', SNull),
      (''datetime_precision'', SNull),
      (''character_set_catalog'', SNull),
      (''character_set_schema'', SNull),
      (''character_set_name'', SNull),
      (''collation_catalog'', SNull),
      (''collation_schema'', SNull),
      (''collation_name'', SNull),
      (''udt_catalog'', SText db),
      (''udt_schema'', SText (if ec \<noteq> None then ''public'' else ''pg_catalog'')),
      (''udt_name'', SText (case ec of Some e \<Rightarrow> ec_typname e | None \<Rightarrow> sqliteDeclToUDT (ti_type p))),
      (''is_identity'', SText ''NO''),
      (''identity_generation'', SNull),
      (''is_generated'', SText ''NEVER''),
      (''generation_expression'', SNull),
      (''is_updatable'', SText ''YES'')]"

definition information_schema_columns :: "schema \<Rightarrow> enum_insert list \<Rightarrow> gostr \<Rightarrow> sql_row list" where
  "information_schema_columns S E db =
     map (\<lambda>(m, p, ec). information_column_row db m p ec) (column_join S E)"

definition key_usage_row :: "gostr \<Rightarrow> gostr \<Rightarrow> gostr \<Rightarrow> gostr \<Rightarrow> int \<Rightarrow> sqlval \<Rightarrow> sql_row" where
  "key_usage_row db cname tbl cl pos upos =
     [(''constraint_catalog'', SText db),
      (''constraint_schema'', SText ''public''),
      (''constraint_name'', SText cname),
      (''table_catalog'', SText db),
      (''table_schema'', SText ''public''),
      (''table_name'', SText tbl),
      (''column_name'', SText cl),
      (''ordinal_position'', SInt pos),
      (''position_in_unique_constraint'', upos)]"

definition information_schema_key_column_usage :: "schema \<Rightarrow> gostr \<Rightarrow> sql_row list" where
  "information_schema_key_column_usage S db =
     concat (map (\<lambda>m. map (\<lambda>p. key_usage_row db (m_name m @ ''_pkey'') (m_name m) (ti_name p) (ti_pk p) SNull)
        (filter (\<lambda>p. 0 < ti_pk p) (table_info S (m_name m)))) (real_tables S))
     @ concat (map (\<lambda>m. map (\<lambda>fk. key_usage_row db (fk_name m fk) (m_name m) (fk_from fk) (fk_seq fk + 1) (SInt (fk_seq fk + 1)))
        (foreign_key_list S (m_name m))) (real_tables S))"

definition table_constraint_row :: "gostr \<Rightarrow> gostr \<Rightarrow> gostr \<Rightarrow> gostr \<Rightarrow> sql_row" where
  "table_constraint_row db cname tbl ty =
     [(''constraint_catalog'', SText db),
      (''constraint_schema'', SText ''public''),
      (''constraint_name'', SText cname),
      (''table_catalog'', SText db),
      (''table_schema'', SText ''public''),
      (''table_name'', SText tbl),
      (''constraint_type'', SText ty),
      (''is_deferrable'', SText ''NO''),
      (''initially_deferred'', SText ''NO'')]"

definition information_schema_table_constraints :: "schema \<Rightarrow> gostr \<Rightarrow> sql_row list" where
  "information_schema_table_constraints S db =
     map (\<lambda>m. table_constraint_row db (m_name m @ ''_pkey'') (m_name m) ''PRIMARY KEY'') (pk_by_name S)
     @ map (\<lambda>(m, fk). table_constraint_row db (fk_name m fk) (m_name m) ''FOREIGN KEY'') (first_fks S)
     @ map (\<lambda>(m, il). table_constraint_row db (il_name il) (m_name m) ''UNIQUE'') (unique_indexes S)"

definition information_schema_referential_constraints :: "schema \<Rightarrow> gostr \<Rightarrow> sql_row list" where
  "information_schema_referential_constraints S db =
     map (\<lambda>(m, fk). [(''constraint_catalog'', SText db),
      (''constraint_schema'', SText ''public''),
      (''constraint_name'', SText (fk_name m fk)),
      (''unique_constraint_catalog'', SText db),
      (''unique_constraint_schema'', SText ''public''),
      (''unique_constraint_name'', SText (fk_table fk @ ''_pkey'')),
      (''match_option'', SText ''NONE''),
      (''update_rule'', SText (fk_on_update fk)),
      (''delete_rule'', SText (fk_on_delete fk))])
       (first_fks S)"

definition column_usage_row :: "gostr \<Rightarrow> gostr \<Rightarrow> sqlval \<Rightarrow> gostr \<Rightarrow> sql_row" where
  "column_usage_row db tbl cl cname =
     [(''table_catalog'', SText db),
      (''table_schema'', SText ''public''),
      (''table_name'', SText tbl),
      (''column_name'', cl),
      (''constraint_catalog'', SText db),
      (''constraint_schema'', SText ''public''),
      (''constraint_name'', SText cname)]"

definition fk_target :: "schema \<Rightarrow> foreign_key \<Rightarrow> sqlval" where
  "fk_target S fk =
     (case fk_to fk of
        Some c \<Rightarrow> SText c
      | None \<Rightarrow> scalar (map (\<lambda>ti. SText (ti_name ti)) (filter (\<lambda>ti. ti_pk ti = 1) (table_info S (fk_table fk)))))"

definition information_schema_constraint_column_usage :: "schema \<Rightarrow> gostr \<Rightarrow> sql_row list" where
  "information_schema_constraint_column_usage S db =
     concat (map (\<lambda>m. map (\<lambda>fk. column_usage_row db (fk_table fk) (fk_target S fk) (fk_name m fk))
        (foreign_key_list S (m_name m))) (real_tables S))
     @ concat (map (\<lambda>m. map (\<lambda>p. column_usage_row db (m_name m) (SText (ti_name p)) (m_name m @ ''_pkey''))
        (filter (\<lambda>p. 0 < ti_pk p) (table_info S (m_name m)))) (real_tables S))"

definition information_schema_views :: "schema \<Rightarrow> gostr \<Rightarrow> sql_row list" where
  "information_schema_views S db =
     map (\<lambda>m. [(''table_catalog'', SText db),
      (''table_schema'', SText ''public''),
      (''table_name'', SText (m_name m)),
      (''view_definition'', opt_text (m_sql m)),
      (''check_option'', SText ''NONE''),
      (''is_updatable'', SText ''NO''),
      (''is_insertable_into'', SText ''NO''),
      (''is_trigger_updatable'', SText ''NO''),
      (''is_trigger_deletable'', SText ''NO''),
      (''is_trigger_insertable_into'', SText ''NO'')])
       (filter (\<lambda>m. m_type m = ''view'') (sqlite_master S))"

definition information_schema_schemata :: "gostr \<Rightarrow> sql_row list" where
  "information_schema_schemata db =
     map (\<lambda>n. [(''catalog_name'', SText db),
      (''schema_name'', SText n),
      (''schema_owner'', SText ''sqlite3''),
      (''default_character_set_catalog'', SNull),
      (''default_character_set_schema'', SNull),
      (''default_character_set_name'', SNull),
      (''sql_path'', SNull)])
       [''public'', ''pg_catalog'', ''information_schema'']"

definition information_schema_sequences :: "sql_row list" where
  "information_schema_sequences =
     []"

definition information_schema_triggers :: "schema \<Rightarrow> gostr \<Rightarrow> sql_row list" where
  "information_schema_triggers S db =
     map (\<lambda>m. [(''trigger_catalog'', SText db),
      (''trigger_schema'', SText ''public''),
      (''trigger_name'', SText (m_name m)),
      (''event_manipulation'', SText []),
      (''event_object_catalog'', SText db),
      (''event_object_schema'', SText ''public''),
      (''event_object_table'', SText (m_tbl_name m)),
      (''action_order'', SInt 1),
      (''action_condition'', SNull),
      (''action_statement'', opt_text (m_sql m)),
      (''action_orientation'', SText ''ROW''),
      (''action_timing'', SText ''AFTER'')])
       (filter (\<lambda>m. m_type m = ''trigger'') (sqlite_master S))"

end
