(* ===== verification/Catalog.thy ===== *)
theory Catalog
  imports Catalog_Views
begin

text \<open>
  What the catalog promises a client: the views of \<open>Catalog_Views\<close> and the tables of \<open>VTab\<close>
  agree with each other and with the types the server advertises.
\<close>

section \<open>The enum rows\<close>

lemma label_inserts_none:
  "List.map_filter as_type_row (label_inserts t i ls) = []" "List.map_filter as_col_row (label_inserts t i ls) = []"
  by (induction ls arbitrary: i) (auto simp: List.map_filter_def)

lemma label_inserts_labels:
  "List.map_filter as_label_row (label_inserts t i ls) = map (\<lambda>k. (t, i + 1 + int k, ls ! k)) [0..<length ls]"
  by (induction ls arbitrary: i)
     (auto simp: List.map_filter_def upt_conv_Cons map_Suc_upt [symmetric] simp del: upt_Suc)

definition enum_type_row_of :: "enumType \<Rightarrow> enum_type_row" where
  "enum_type_row_of e = \<lparr>et_oid = oid e, et_typname = typname e, et_typnamespace = 2200\<rparr>"

definition enum_col_row_of :: "enumType \<Rightarrow> enum_col_row" where
  "enum_col_row_of e =
     \<lparr>ec_table_name = tablename e, ec_column_name = column e, ec_typoid = oid e, ec_typname = typname e\<rparr>"

lemma concat_singletons: "concat (map (\<lambda>x. [f x]) xs) = map f xs"
  by (induction xs) auto

lemma enum_types_eq: "enum_types (enum_catalog_inserts tables) = map enum_type_row_of (schema_enums tables)"
  and enum_cols_eq: "enum_cols (enum_catalog_inserts tables) = map enum_col_row_of (schema_enums tables)"
  and enum_label_rows_eq: "enum_label_rows (enum_catalog_inserts tables) =
    concat (map (\<lambda>e. map (\<lambda>k. (oid e, 1 + int k, labels e ! k)) [0..<length (labels e)]) (schema_enums tables))"
proof -
  have e: "List.map_filter as_type_row (enum_inserts e) = [enum_type_row_of e]"
    "List.map_filter as_col_row (enum_inserts e) = [enum_col_row_of e]"
    "List.map_filter as_label_row (enum_inserts e) = map (\<lambda>k. (oid e, 1 + int k, labels e ! k)) [0..<length (labels e)]" for e
    unfolding enum_inserts_def map_filter_app label_inserts_none label_inserts_labels
    by (simp_all add: List.map_filter_def enum_type_row_of_def enum_col_row_of_def)
  show "enum_types (enum_catalog_inserts tables) = map enum_type_row_of (schema_enums tables)"
    "enum_cols (enum_catalog_inserts tables) = map enum_col_row_of (schema_enums tables)"
    "enum_label_rows (enum_catalog_inserts tables) =
      concat (map (\<lambda>e. map (\<lambda>k. (oid e, 1 + int k, labels e ! k)) [0..<length (labels e)]) (schema_enums tables))"
    unfolding enum_types_def enum_cols_def enum_label_rows_def enum_catalog_inserts_def map_filter_concat map_map
    by (simp_all add: comp_def e concat_singletons)
qed

section \<open>The types\<close>

lemma base_type_cols:
  "col ''oid'' (base_type_row t) = SInt (ty_oid t)" "col ''typname'' (base_type_row t) = SText (ty_typname t)"
  "map fst (base_type_row t) = map fst pgType_decl"
  by (simp_all add: base_type_row_def pgType_decl_def pgType_cells_def col_def sql_of_cell_def)

lemma enum_type_cols:
  "col ''oid'' (zip (map fst pgType_decl) (enum_type_values et)) = SInt (et_oid et)"
  "col ''typname'' (zip (map fst pgType_decl) (enum_type_values et)) = SText (et_typname et)"
  "map fst (zip (map fst pgType_decl) (enum_type_values et)) = map fst pgType_decl"
  by (simp_all add: enum_type_values_def pgType_decl_def col_def)

lemma base_oids: "distinct (map ty_oid pgTypes)" "\<forall>t \<in> set pgTypes. ty_oid t < enumOIDBase"
  by (simp_all add: pgTypes_def enumOIDBase_def)

text \<open>\<^verbatim>\<open>pg_type\<close> is a table of types: whatever enums the schema's tables have, no two rows
  of the view share an oid (a reconstructed enum never hides a base type), and the two halves
  of its UNION have the same columns, in the declared order.\<close>

theorem pg_type_rows:
  "distinct (map (col ''oid'') (pg_type (enum_catalog_inserts tables))) \<and>
   list_all (\<lambda>r. map fst r = map fst pgType_decl) (pg_type (enum_catalog_inserts tables))"
proof -
  have "enumOIDBase \<le> oid e" if "e \<in> set (schema_enums tables)" for e
  proof -
    have "oid e \<in> set (map oid (schema_enums tables))" using that by simp
    then show ?thesis unfolding schema_enums_oids by auto
  qed
  then have "set (map ty_oid pgTypes) \<inter> set (map oid (schema_enums tables)) = {}"
    using base_oids(2) by fastforce
  then have d: "distinct (map ty_oid pgTypes @ map oid (schema_enums tables))"
    using base_oids(1) schema_enums_distinct by simp
  have "map (col ''oid'') (pg_type (enum_catalog_inserts tables)) =
      map SInt (map ty_oid pgTypes @ map oid (schema_enums tables))"
    by (simp add: pg_type_def base_type_cols enum_type_cols enum_types_eq enum_type_row_of_def)
  with d have "distinct (map (col ''oid'') (pg_type (enum_catalog_inserts tables)))"
    by (simp only: distinct_map) (auto simp: inj_on_def)
  then show ?thesis
    by (auto simp: pg_type_def list_all_iff base_type_cols enum_type_cols)
qed

text \<open>The types a result can have are in the catalog: for every SQLite declaration the OID
  that RowDescription advertises is in \<^verbatim>\<open>pg_type\<close>'s data, under the name
  \<^verbatim>\<open>information_schema\<close> gives as \<^verbatim>\<open>udt_name\<close> and with the length RowDescription sends.\<close>

theorem advertised_types_exist:
  "\<exists>t \<in> set pgTypes. ty_oid t = uint (oidForType decl) \<and> ty_oid t = sint (sqliteDeclToOID decl) \<and>
     ty_typname t = sqliteDeclToUDT decl \<and> ty_typlen t = typeSize (oidForType decl)"
  by (rule type_in_catalog)

section \<open>Columns\<close>

lemma attribute_cols:
  "col ''attrelname'' (pg_attribute_row m p ec) = SText (m_name m)"
  "col ''attname'' (pg_attribute_row m p ec) = SText (ti_name p)"
  "col ''attnum'' (pg_attribute_row m p ec) = SInt (ti_cid p + 1)"
  "col ''attnotnull'' (pg_attribute_row m p ec) = case_int (ti_notnull p = 1 \<or> 0 < ti_pk p)"
  "col ''atthasdef'' (pg_attribute_row m p ec) = case_int (ti_dflt_value p \<noteq> None)"
  "col ''atttypid'' (pg_attribute_row m p ec) =
     (case ec of Some e \<Rightarrow> SInt (ec_typoid e) | None \<Rightarrow> SInt (sint (sqliteDeclToOID (ti_type p))))"
  by (simp_all add: pg_attribute_row_def col_def)

lemma information_cols:
  "col ''table_name'' (information_column_row db m p ec) = SText (m_name m)"
  "col ''column_name'' (information_column_row db m p ec) = SText (ti_name p)"
  "col ''ordinal_position'' (information_column_row db m p ec) = SInt (ti_cid p + 1)"
  "col ''is_nullable'' (information_column_row db m p ec) =
     SText (if ti_notnull p = 1 \<or> 0 < ti_pk p then ''NO'' else ''YES'')"
  "col ''column_default'' (information_column_row db m p ec) = opt_text (ti_dflt_value p)"
  "col ''udt_name'' (information_column_row db m p ec) =
     SText (case ec of Some e \<Rightarrow> ec_typname e | None \<Rightarrow> sqliteDeclToUDT (ti_type p))"
  by (simp_all add: information_column_row_def col_def)

lemma column_join_enum:
  "(m, p, Some e) \<in> set (column_join S E) \<Longrightarrow> e \<in> set (enum_cols E)"
  by (auto simp: column_join_def enum_join_def Let_def split: if_splits)

lemma joined_type_exists:
  assumes "(m, p, ec) \<in> set (column_join S (enum_catalog_inserts tables))"
  shows "\<exists>r \<in> set (pg_type (enum_catalog_inserts tables)).
    col ''oid'' r = (case ec of Some e \<Rightarrow> SInt (ec_typoid e) | None \<Rightarrow> SInt (sint (sqliteDeclToOID (ti_type p)))) \<and>
    col ''typname'' r = SText (case ec of Some e \<Rightarrow> ec_typname e | None \<Rightarrow> sqliteDeclToUDT (ti_type p))"
proof (cases ec)
  case None
  from type_in_catalog [of "ti_type p"] obtain t where "t \<in> set pgTypes"
    "ty_oid t = sint (sqliteDeclToOID (ti_type p))" "ty_typname t = sqliteDeclToUDT (ti_type p)" by auto
  with None show ?thesis
    by (auto simp: pg_type_def base_type_cols intro!: bexI [of _ "base_type_row t"])
next
  case (Some e)
  with assms have "e \<in> set (enum_cols (enum_catalog_inserts tables))"
    using column_join_enum by blast
  then obtain en where "en \<in> set (schema_enums tables)" "e = enum_col_row_of en"
    by (auto simp: enum_cols_eq)
  with Some show ?thesis
    by (auto simp: pg_type_def enum_types_eq enum_type_cols enum_col_row_of_def enum_type_row_of_def
        intro!: bexI [of _ "zip (map fst pgType_decl) (enum_type_values (enum_type_row_of en))"])
qed

text \<open>C13: the two descriptions of a column agree: \<^verbatim>\<open>pg_attribute\<close> and
  \<^verbatim>\<open>information_schema.columns\<close> list the same columns of the same tables in the same order,
  with the same position, nullability and presence of a default; and the type OID of the one
  joins a row of \<^verbatim>\<open>pg_type\<close> with the \<^verbatim>\<open>udt_name\<close> of the other, for base types and enums.\<close>

theorem column_views_agree:
  "list_all2 (\<lambda>a i. col ''attrelname'' a = col ''table_name'' i \<and> col ''attname'' a = col ''column_name'' i \<and>
       col ''attnum'' a = col ''ordinal_position'' i \<and>
       (col ''attnotnull'' a = SInt 1) = (col ''is_nullable'' i = SText ''NO'') \<and>
       (col ''atthasdef'' a = SInt 1) = (col ''column_default'' i \<noteq> SNull) \<and>
       (\<exists>r \<in> set (pg_type (enum_catalog_inserts tables)).
          col ''oid'' r = col ''atttypid'' a \<and> col ''typname'' r = col ''udt_name'' i))
     (pg_attribute S (enum_catalog_inserts tables)) (information_schema_columns S (enum_catalog_inserts tables) db)"
  unfolding pg_attribute_def information_schema_columns_def list_all2_map1 list_all2_map2
  using joined_type_exists
  by (auto simp: list_all2_same attribute_cols information_cols case_int_def opt_text_def split: option.splits if_splits)

section \<open>One row per column\<close>

lemma number_enums_map:
  "(\<And>e i. f (e\<lparr>oid := i\<rparr>) = f e) \<Longrightarrow> map f (number_enums n es) = map f es"
  by (induction es arbitrary: n) auto

lemma parseEnums_keys:
  "distinct (map (\<lambda>e. ToLower (column e)) (parseEnums tbl ddl))" "e \<in> set (parseEnums tbl ddl) \<Longrightarrow> tablename e = tbl"
  using enums_from_spec [of tbl ddl 0 "[]"] by (auto simp: parseEnums_def comp_def)

lemma enum_keys_distinct:
  assumes "distinct (map fst tables)"
  shows "distinct (map (\<lambda>e. (tablename e, ToLower (column e))) (schema_enums tables))"
proof -
  let ?k = "\<lambda>e. (tablename e, ToLower (column e))"
  have "map ?k (schema_enums tables) = map ?k (concat (map (\<lambda>(n, ddl). parseEnums n ddl) tables))"
    unfolding schema_enums_def by (rule number_enums_map) simp
  moreover have "distinct (map ?k (concat (map (\<lambda>(n, ddl). parseEnums n ddl) tables)))"
    using assms
  proof (induction tables)
    case (Cons t ts)
    obtain n ddl where t: "t = (n, ddl)" by (cases t)
    have keys: "map ?k (parseEnums n ddl) = map (Pair n) (map (\<lambda>e. ToLower (column e)) (parseEnums n ddl))"
      using parseEnums_keys(2) [of _ n ddl] by auto
    have "distinct (map ?k (parseEnums n ddl))"
      unfolding keys using parseEnums_keys(1) [of n ddl] by (simp add: distinct_map inj_on_def del: map_map)
    moreover have "n' \<noteq> n" if "(n', d) \<in> set ts" for n' d
      using Cons.prems t that by force
    then have "tablename x \<noteq> n" if "x \<in> set (concat (map (\<lambda>(n, ddl). parseEnums n ddl) ts))" for x
      using that parseEnums_keys(2) by fastforce
    then have "set (map ?k (parseEnums n ddl)) \<inter>
        set (map ?k (concat (map (\<lambda>(n, ddl). parseEnums n ddl) ts))) = {}"
      using parseEnums_keys(2) [of _ n ddl] by fastforce
    ultimately show ?case using Cons t by simp
  qed simp
  ultimately show ?thesis by simp
qed

lemma filter_key_short:
  assumes "distinct (map k xs)"
  shows "length (filter (\<lambda>x. k x = a) xs) \<le> 1"
proof -
  have "distinct (map k (filter (\<lambda>x. k x = a) xs))" using assms by (simp add: distinct_map inj_on_def)
  moreover have "set (map k (filter (\<lambda>x. k x = a) xs)) \<subseteq> {a}" by auto
  ultimately show ?thesis
    by (metis card_mono distinct_card finite.emptyI finite_insert card_1_singleton_iff length_map is_singletonI is_singleton_altdef)
qed

lemma enum_join_one:
  assumes "distinct (map fst tables)"
  shows "\<exists>ec. enum_join (enum_catalog_inserts tables) tbl c = [ec]"
proof -
  let ?xs = "filter (\<lambda>e. (tablename e, ToLower (column e)) = (tbl, ToLower c)) (schema_enums tables)"
  have "filter (\<lambda>ec. ec_table_name ec = tbl \<and> nocase_eq (ec_column_name ec) c) (enum_cols (enum_catalog_inserts tables)) =
      map enum_col_row_of ?xs"
    by (simp add: enum_cols_eq filter_map comp_def enum_col_row_of_def nocase_eq_def)
  moreover have "length ?xs \<le> 1" by (rule filter_key_short [OF enum_keys_distinct [OF assms]])
  ultimately show ?thesis by (cases ?xs) (auto simp: enum_join_def Let_def)
qed

text \<open>C17: every column is listed once: for tables with different names the outer join with the
  reconstructed enums never repeats or drops a column, so \<^verbatim>\<open>pg_attribute\<close> has exactly one row
  for each column of each table and view that is shown.\<close>

theorem one_row_per_column:
  assumes "distinct (map fst tables)"
  shows "map (\<lambda>r. (col ''attrelid'' r, col ''attname'' r)) (pg_attribute S (enum_catalog_inserts tables)) =
    concat (map (\<lambda>m. map (\<lambda>p. (SInt (m_rowid m), SText (ti_name p))) (table_info S (m_name m)))
      (shown S [''table'', ''view'']))"
proof -
  have id: "col ''attrelid'' (pg_attribute_row m p ec) = SInt (m_rowid m)" for m p ec
    by (simp add: pg_attribute_row_def col_def)
  have one: "map (\<lambda>ec. (SInt (m_rowid m), SText (ti_name p))) (enum_join (enum_catalog_inserts tables) (m_name m) (ti_name p)) =
      [(SInt (m_rowid m), SText (ti_name p))]" for m p
    using enum_join_one [OF assms, of "m_name m" "ti_name p"] by auto
  show ?thesis
    by (simp add: pg_attribute_def column_join_def map_concat comp_def id attribute_cols one concat_singletons)
qed

section \<open>Enum labels\<close>

lemma label_rows_of_enum:
  assumes "distinct (map oid es)" "e \<in> set es"
  shows "filter (\<lambda>r. fst r = oid e)
      (concat (map (\<lambda>e. map (\<lambda>k. (oid e, 1 + int k, labels e ! k)) [0..<length (labels e)]) es)) =
    map (\<lambda>k. (oid e, 1 + int k, labels e ! k)) [0..<length (labels e)]"
  using assms
proof (induction es)
  case (Cons x es)
  have other: "filter (\<lambda>r. fst r = oid e)
      (concat (map (\<lambda>e. map (\<lambda>k. (oid e, 1 + int k, labels e ! k)) [0..<length (labels e)]) es)) = []"
    if "x = e" using Cons.prems(1) that by (auto simp: filter_empty_conv) (metis image_eqI)
  show ?case
  proof (cases "x = e")
    case True
    with other show ?thesis by simp
  next
    case False
    with Cons.prems have "e \<in> set es" "oid x \<noteq> oid e" by auto
    with Cons show ?thesis by simp
  qed
qed simp

text \<open>C19: clients read an enum's labels in order: scanning \<^verbatim>\<open>pg_enum\<close> for the type of an enum
  reconstructed from the schema gives exactly the labels of its CHECK constraint, in the order
  of the constraint, with no sort on the client's side.\<close>

theorem enum_labels_in_order:
  assumes "e \<in> set (schema_enums tables)"
  shows "map (col ''enumlabel'') (filter (\<lambda>r. col ''enumtypid'' r = SInt (oid e)) (pg_enum (enum_catalog_inserts tables))) =
    map SText (labels e)"
proof -
  let ?rows = "map (\<lambda>k. (oid e, 1 + int k, labels e ! k)) [0..<length (labels e)]"
  have srt: "sort_key (\<lambda>(t, k, l). (t, k)) ?rows = ?rows"
    by (rule sort_key_id_if_sorted) (simp add: comp_def sorted_iff_nth_mono)
  have cols: "col ''enumlabel'' [(''oid'', a), (''enumtypid'', b), (''enumsortorder'', c), (''enumlabel'', d)] = d"
    "col ''enumtypid'' [(''oid'', a), (''enumtypid'', b), (''enumsortorder'', c), (''enumlabel'', d)] = b" for a b c d
    by (simp_all add: col_def)
  have "map (col ''enumlabel'') (filter (\<lambda>r. col ''enumtypid'' r = SInt (oid e)) (pg_enum (enum_catalog_inserts tables))) =
      map (\<lambda>(t, k, l). SText l) (filter (\<lambda>r. fst r = oid e)
        (sort_key (\<lambda>(t, k, l). (t, k)) (enum_label_rows (enum_catalog_inserts tables))))"
    by (simp add: pg_enum_def filter_map comp_def split_def cols)
  also have "\<dots> = map (\<lambda>(t, k, l). SText l) ?rows"
    unfolding filter_sort enum_label_rows_eq label_rows_of_enum [OF schema_enums_distinct assms] srt ..
  also have "\<dots> = map SText (labels e)"
    by (rule nth_equalityI) auto
  finally show ?thesis .
qed

section \<open>Groups\<close>

lemma group_by_keys: "map key (group_by key rows) = sort (remdups (map key rows))"
proof -
  have "key (hd (filter (\<lambda>r. key r = k) rows)) = k" if "k \<in> set (map key rows)" for k
  proof -
    from that have "filter (\<lambda>r. key r = k) rows \<noteq> []" by (auto simp: filter_empty_conv)
    from hd_in_set [OF this] show ?thesis by simp
  qed
  then have "map (\<lambda>k. key (hd (filter (\<lambda>r. key r = k) rows))) ks = ks" if "set ks \<subseteq> set (map key rows)" for ks
    using that by (induction ks) auto
  then show ?thesis by (simp add: group_by_def comp_def)
qed

lemma group_by_sub: "set (group_by key rows) \<subseteq> set rows"
proof
  fix x assume "x \<in> set (group_by key rows)"
  then obtain r where r: "r \<in> set rows" "x = hd (filter (\<lambda>r'. key r' = key r) rows)" by (auto simp: group_by_def)
  then have "filter (\<lambda>r'. key r' = key r) rows \<noteq> []" by (auto simp: filter_empty_conv)
  from hd_in_set [OF this] r(2) show "x \<in> set rows" by simp
qed

lemma group_by_has: "r \<in> set rows \<Longrightarrow> \<exists>r' \<in> set (group_by key rows). key r' = key r"
proof -
  assume "r \<in> set rows"
  then have "key r \<in> set (map key (group_by key rows))" unfolding group_by_keys by simp
  then show ?thesis by auto
qed

lemma pk_join_iff: "(m, p) \<in> set (pk_join S) \<longleftrightarrow> m \<in> set (real_tables S) \<and> p \<in> set (table_info S (m_name m)) \<and> 0 < ti_pk p"
  by (auto simp: pk_join_def)

lemma pk_groups_real: "set (pk_by_rowid S) \<subseteq> set (real_tables S)" "set (pk_by_name S) \<subseteq> set (real_tables S)"
  using group_by_sub [of _ "pk_join S"] by (fastforce simp: pk_by_rowid_def pk_by_name_def pk_join_iff)+

lemma pk_by_name_has:
  assumes "m \<in> set (real_tables S)" "p \<in> set (table_info S (m_name m))" "0 < ti_pk p"
  shows "\<exists>m' \<in> set (pk_by_name S). m_name m' = m_name m"
proof -
  have "(m, p) \<in> set (pk_join S)" using assms by (simp add: pk_join_iff)
  from group_by_has [OF this, of "\<lambda>(m, p). m_name m"] show ?thesis by (force simp: pk_by_name_def)
qed

text \<open>When the keys of the tables differ, the groups are the tables with a key column, sorted.\<close>

lemma grouped_tables:
  assumes "distinct (map k (real_tables S))"
  shows "map fst (group_by (\<lambda>(m, p). k m) (pk_join S)) =
    sort_key k (filter (\<lambda>m. list_ex (\<lambda>p. 0 < ti_pk p) (table_info S (m_name m))) (real_tables S))"
proof -
  let ?key = "\<lambda>(m :: master_row, p :: table_column). k m"
  let ?ms = "filter (\<lambda>m. list_ex (\<lambda>p. 0 < ti_pk p) (table_info S (m_name m))) (real_tables S)"
  have inj: "inj_on k (set (real_tables S))" using assms by (simp add: distinct_map)
  have "set (map ?key (pk_join S)) = set (map k ?ms)"
    by (force simp: pk_join_def list_ex_iff)
  moreover have "sorted (map k (sort_key k ?ms))" "distinct (map k (sort_key k ?ms))"
    using assms by (auto simp: distinct_map inj_on_def)
  ultimately have keys: "map ?key (group_by ?key (pk_join S)) = map k (sort_key k ?ms)"
    unfolding group_by_keys by (intro sorted_distinct_set_unique) auto
  have sub: "set (map fst (group_by ?key (pk_join S))) \<subseteq> set (real_tables S)"
    using group_by_sub [of ?key "pk_join S"] by (fastforce simp: pk_join_iff)
  show ?thesis
  proof (rule map_inj_on [where f = k])
    show "map k (map fst (group_by ?key (pk_join S))) = map k (sort_key k ?ms)"
      using keys by (simp add: comp_def split_def)
    show "inj_on k (set (map fst (group_by ?key (pk_join S))) \<union> set (sort_key k ?ms))"
      using inj sub by (rule_tac inj_on_subset) auto
  qed
qed

section \<open>Constraint oids\<close>

lemma constraint_oids:
  "col ''oid'' (pk_constraint_row S m) = SInt (m_rowid m * 1000000 + 1)"
  "col ''oid'' (fk_constraint_row S m fk) = SInt (m_rowid m * 1000000 + 1000 + fk_id fk)"
  "col ''oid'' (unique_constraint_row S m il) = SInt (m_rowid m * 1000000 + 2000 + il_seq il)"
  by (simp_all add: pk_constraint_row_def fk_constraint_row_def unique_constraint_row_def col_def)

lemma distinct_pairs:
  assumes "distinct (map f ms)" "\<forall>m \<in> set ms. distinct (map g (h m))"
  shows "distinct (map (\<lambda>(m, x). (f m, g x)) (concat (map (\<lambda>m. map (\<lambda>x. (m, x)) (h m)) ms)))"
  using assms
proof (induction ms)
  case (Cons m ms)
  have "distinct (map (\<lambda>x. (f m, g x)) (h m))"
    using Cons.prems(2) by (simp add: distinct_map inj_on_def)
  with Cons show ?case by (auto simp: comp_def)
qed simp

definition oid_key :: "int \<times> int \<Rightarrow> sqlval" where
  "oid_key = (\<lambda>(r, n). SInt (r * 1000000 + n))"

lemma oid_key_inj: "inj_on oid_key (UNIV \<times> {0..<1000000})"
proof (rule inj_onI)
  fix a b
  assume ab: "a \<in> UNIV \<times> {0..<1000000}" "b \<in> UNIV \<times> {0..<1000000}" "oid_key a = oid_key b"
  obtain r n r' n' where v: "a = (r, n)" "b = (r', n')" by (cases a; cases b)
  with ab have e: "r * 1000000 + n = r' * 1000000 + n'" and n: "0 \<le> n" "n < 1000000" "0 \<le> n'" "n' < 1000000"
    by (auto simp: oid_key_def)
  have "(r * 1000000 + n) div 1000000 = r" "(r' * 1000000 + n') div 1000000 = r'"
    using n by simp_all
  with e have "r = r'" by simp
  with e v show "a = b" by simp
qed

text \<open>C39: constraints have oids of their own: as long as a table has fewer than 1000 foreign
  keys and fewer than 998000 indexes, the synthesized oids of \<^verbatim>\<open>pg_constraint\<close> are all
  different, across tables and across the three kinds of constraint.\<close>

theorem constraint_oids_distinct:
  assumes "distinct (map m_rowid (sqlite_master S))"
    and "\<forall>m \<in> set (real_tables S). distinct (map fk_id (filter (\<lambda>fk. fk_seq fk = 0) (foreign_key_list S (m_name m))))
      \<and> (\<forall>fk \<in> set (foreign_key_list S (m_name m)). 0 \<le> fk_id fk \<and> fk_id fk < 1000)"
    and "\<forall>m \<in> set (real_tables S). distinct (map il_seq (index_list S (m_name m)))
      \<and> (\<forall>il \<in> set (index_list S (m_name m)). 0 \<le> il_seq il \<and> il_seq il < 998000)"
  shows "distinct (map (col ''oid'') (pg_constraint S))"
proof -
  have rows: "distinct (map m_rowid (real_tables S))"
    using assms(1) by (simp add: real_tables_def distinct_map inj_on_def)
  define pk where "pk = map (\<lambda>m. (m_rowid m, 1 :: int)) (pk_by_rowid S)"
  define fk where "fk = map (\<lambda>(m, k). (m_rowid m, 1000 + fk_id k)) (first_fks S)"
  define un where "un = map (\<lambda>(m, i). (m_rowid m, 2000 + il_seq i)) (unique_indexes S)"
  have oids: "map (col ''oid'') (pg_constraint S) = map oid_key (pk @ fk @ un)"
    by (simp add: pg_constraint_def constraint_oids oid_key_def pk_def fk_def un_def split_def comp_def ac_simps)
  have "distinct (map (\<lambda>m. (m_rowid m, m_name m)) (pk_by_rowid S))"
    using distinct_sort group_by_keys [of "\<lambda>(m, p). (m_rowid m, m_name m)" "pk_join S"]
    by (simp add: pk_by_rowid_def comp_def split_def)
  then have "distinct (pk_by_rowid S)" by (simp add: distinct_map)
  then have d_pk: "distinct pk"
    using rows pk_groups_real(1) [of S] by (auto simp: pk_def distinct_map inj_on_def)
  have add: "distinct (map (\<lambda>x. c + g x) xs)" if "distinct (map g xs)" for c :: int and g xs
    using that by (simp add: distinct_map inj_on_def)
  have d_fk: "distinct fk"
    unfolding fk_def first_fks_def using assms(2) by (intro distinct_pairs rows) (auto intro: add)
  have "distinct (map il_seq (filter (\<lambda>il. il_unique il = 1 \<and> il_origin il = ''u'') (index_list S (m_name m))))"
    if "m \<in> set (real_tables S)" for m
    using assms(3) that by (simp add: distinct_map inj_on_def)
  then have d_un: "distinct un"
    unfolding un_def unique_indexes_def by (intro distinct_pairs rows) (auto intro: add)
  have b_fk: "\<forall>x \<in> set fk. 1000 \<le> snd x \<and> snd x < 2000"
    using assms(2) by (auto simp: fk_def first_fks_def)
  have b_un: "\<forall>x \<in> set un. 2000 \<le> snd x \<and> snd x < 1000000"
    using assms(3) by (auto simp: un_def unique_indexes_def)
  have b_pk: "\<forall>x \<in> set pk. snd x = 1" by (auto simp: pk_def)
  have "distinct (pk @ fk @ un)" using d_pk d_fk d_un b_pk b_fk b_un by fastforce
  moreover have "set (pk @ fk @ un) \<subseteq> UNIV \<times> {0..<1000000}" using b_pk b_fk b_un by fastforce
  ultimately show ?thesis
    unfolding oids distinct_map using inj_on_subset [OF oid_key_inj] by blast
qed

section \<open>Virtual tables are not touched\<close>

text \<open>The tables a client's introspection must leave alone: the virtual and shadow tables that
  \<^verbatim>\<open>pragma_table_list\<close> reports, and the tables named after a virtual table and an underscore,
  which are the shadow tables SQLite does not recognise when the module is missing.\<close>

definition virtual_name :: "schema \<Rightarrow> gostr \<Rightarrow> bool" where
  "virtual_name S n \<longleftrightarrow>
     (\<exists>v \<in> set (table_list S). tl_schema v = ''main'' \<and>
        (tl_type v \<in> {''virtual'', ''shadow''} \<and> n = tl_name v \<or>
         tl_type v = ''virtual'' \<and> CHR 0x5C \<notin> set (tl_name v) \<and> (\<exists>suffix. n = tl_name v @ ''_'' @ suffix)))"

lemma like_all: "sql_like esc [CHR ''%''] s" if "esc \<noteq> Some (CHR ''%'')"
  using that by (induction s) auto

lemma like_self: "esc \<notin> set p \<Longrightarrow> sql_like (Some esc) q s \<Longrightarrow> sql_like (Some esc) (p @ q) (p @ s)"
  by (induction p) auto

lemma virtual_excluded:
  assumes "virtual_name S n"
  shows "\<not> not_virtual S n"
proof -
  from assms obtain v where v: "v \<in> set (table_list S)" "tl_schema v = ''main''" and
    "tl_type v \<in> {''virtual'', ''shadow''} \<and> n = tl_name v \<or>
     tl_type v = ''virtual'' \<and> CHR 0x5C \<notin> set (tl_name v) \<and> (\<exists>suffix. n = tl_name v @ ''_'' @ suffix)"
    unfolding virtual_name_def by blast
  then consider "tl_type v \<in> {''virtual'', ''shadow''}" "n = tl_name v"
    | suffix where "tl_type v = ''virtual''" "CHR 0x5C \<notin> set (tl_name v)" "n = tl_name v @ ''_'' @ suffix" by blast
  then show ?thesis
  proof cases
    case 1
    with v show ?thesis by (auto simp: not_virtual_def)
  next
    case 2
    have "sql_like (Some (CHR 0x5C)) [CHR 0x5C, CHR ''_'', CHR ''%''] (''_'' @ suffix)"
      using like_all [of "Some (CHR 0x5C)" suffix] by simp
    from like_self [OF 2(2) this] 2 v show ?thesis by (auto simp: not_virtual_def list_ex_iff)
  qed
qed

text \<open>Two schemas that list the same objects and differ only in what the pragma functions say of
  such tables: of their columns, indexes and foreign keys and of the columns of their indexes.\<close>

definition same_visible :: "schema \<Rightarrow> schema \<Rightarrow> bool" where
  "same_visible S S' \<longleftrightarrow> sqlite_master S' = sqlite_master S \<and> table_list S' = table_list S \<and>
     (\<forall>n. \<not> virtual_name S n \<longrightarrow> table_info S' n = table_info S n \<and> index_list S' n = index_list S n \<and>
        foreign_key_list S' n = foreign_key_list S n \<and>
        (\<forall>il \<in> set (index_list S n). index_info S' (il_name il) = index_info S (il_name il)))"

lemma same_visible_tables:
  assumes "same_visible S S'"
  shows "shown S' tys = shown S tys" "real_tables S' = real_tables S"
    "\<And>m. m \<in> set (shown S tys) \<Longrightarrow> table_info S' (m_name m) = table_info S (m_name m) \<and> index_list S' (m_name m) = index_list S (m_name m)"
    "\<And>m. m \<in> set (real_tables S) \<Longrightarrow> table_info S' (m_name m) = table_info S (m_name m) \<and>
       index_list S' (m_name m) = index_list S (m_name m) \<and> foreign_key_list S' (m_name m) = foreign_key_list S (m_name m) \<and>
       (\<forall>il \<in> set (index_list S (m_name m)). index_info S' (il_name il) = index_info S (il_name il))"
proof -
  have nv: "not_virtual S' n = not_virtual S n" for n using assms by (simp add: same_visible_def not_virtual_def)
  have vis: "not_virtual S n \<Longrightarrow> \<not> virtual_name S n" for n using virtual_excluded by blast
  show "shown S' tys = shown S tys" "real_tables S' = real_tables S"
    using assms by (simp_all add: same_visible_def shown_def real_tables_def nv)
  show "\<And>m. m \<in> set (shown S tys) \<Longrightarrow> table_info S' (m_name m) = table_info S (m_name m) \<and> index_list S' (m_name m) = index_list S (m_name m)"
    using assms vis by (auto simp: same_visible_def shown_def)
  show "\<And>m. m \<in> set (real_tables S) \<Longrightarrow> table_info S' (m_name m) = table_info S (m_name m) \<and>
       index_list S' (m_name m) = index_list S (m_name m) \<and> foreign_key_list S' (m_name m) = foreign_key_list S (m_name m) \<and>
       (\<forall>il \<in> set (index_list S (m_name m)). index_info S' (il_name il) = index_info S (il_name il))"
    using assms vis by (auto simp: same_visible_def real_tables_def)
qed

lemma concat_map_cong: "(\<And>x. x \<in> set xs \<Longrightarrow> f x = g x) \<Longrightarrow> concat (map f xs) = concat (map g xs)"
  by (induction xs) auto

lemma same_visible_sources:
  assumes "same_visible S S'"
  shows "column_join S' E = column_join S E" "pk_join S' = pk_join S" "first_fks S' = first_fks S"
    "unique_indexes S' = unique_indexes S"
  using same_visible_tables [OF assms]
  by (auto simp: column_join_def pk_join_def first_fks_def unique_indexes_def intro!: concat_map_cong)

text \<open>The tables the foreign keys of the listed tables refer to.\<close>

definition referenced :: "schema \<Rightarrow> gostr set" where
  "referenced S = {fk_table fk | m fk. m \<in> set (real_tables S) \<and> fk \<in> set (foreign_key_list S (m_name m))}"

lemma same_visible_constraints:
  assumes "same_visible S S'" "\<forall>t \<in> referenced S. \<not> virtual_name S t"
  shows "pg_constraint S' = pg_constraint S"
    "information_schema_constraint_column_usage S' db = information_schema_constraint_column_usage S db"
proof -
  note t = same_visible_tables [OF assms(1)] and src = same_visible_sources [OF assms(1)]
  have master: "sqlite_master S' = sqlite_master S" using assms(1) by (simp add: same_visible_def)
  have ref: "table_info S' (fk_table fk) = table_info S (fk_table fk)"
    if "m \<in> set (real_tables S)" "fk \<in> set (foreign_key_list S (m_name m))" for m fk
    using assms that unfolding same_visible_def referenced_def by blast
  have pk: "pk_constraint_row S' m = pk_constraint_row S m" if "m \<in> set (real_tables S)" for m
    using t(4) [OF that] by (simp add: pk_constraint_row_def pk_columns_def)
  have fk: "fk_constraint_row S' m fk = fk_constraint_row S m fk" if "(m, fk) \<in> set (first_fks S)" for m fk
  proof -
    from that have m: "m \<in> set (real_tables S)" "fk \<in> set (foreign_key_list S (m_name m))" by (auto simp: first_fks_def)
    from t(4) [OF m(1)] ref [OF m] show ?thesis
      by (simp add: fk_constraint_row_def fk_columns_def column_number_def master)
  qed
  have un: "unique_constraint_row S' m il = unique_constraint_row S m il" if "(m, il) \<in> set (unique_indexes S)" for m il
  proof -
    from that have m: "m \<in> set (real_tables S)" "il \<in> set (index_list S (m_name m))" by (auto simp: unique_indexes_def)
    from t(4) [OF m(1)] m(2) show ?thesis by (simp add: unique_constraint_row_def column_number_def)
  qed
  have rowid: "pk_by_rowid S' = pk_by_rowid S" by (simp add: pk_by_rowid_def src)
  have "map (pk_constraint_row S') (pk_by_rowid S) = map (pk_constraint_row S) (pk_by_rowid S)"
    using pk pk_groups_real(1) [of S] by auto
  moreover have "map (\<lambda>(m, k). fk_constraint_row S' m k) (first_fks S) = map (\<lambda>(m, k). fk_constraint_row S m k) (first_fks S)"
    using fk by auto
  moreover have "map (\<lambda>(m, il). unique_constraint_row S' m il) (unique_indexes S) =
      map (\<lambda>(m, il). unique_constraint_row S m il) (unique_indexes S)"
    using un by auto
  ultimately show "pg_constraint S' = pg_constraint S" by (simp add: pg_constraint_def src rowid)
  have target: "fk_target S' k = fk_target S k" if "m \<in> set (real_tables S)" "k \<in> set (foreign_key_list S (m_name m))" for m k
    using ref [OF that] by (simp add: fk_target_def split: option.split)
  show "information_schema_constraint_column_usage S' db = information_schema_constraint_column_usage S db"
    unfolding information_schema_constraint_column_usage_def t(2)
    using t(4) target by (intro arg_cong2 [where f = append] concat_map_cong) auto
qed

text \<open>C18: Introspection leaves virtual tables alone: two schemas that list the same objects and differ
  only in the columns, indexes and foreign keys the pragma functions report for virtual and shadow
  tables (also shadow tables recognised only by their name) have the same \<^verbatim>\<open>pg_class\<close>,
  \<^verbatim>\<open>pg_attribute\<close> and \<^verbatim>\<open>pg_index\<close>, and the same \<^verbatim>\<open>tables\<close>, \<^verbatim>\<open>columns\<close>, \<^verbatim>\<open>key_column_usage\<close>,
  \<^verbatim>\<open>table_constraints\<close> and \<^verbatim>\<open>referential_constraints\<close> of \<^verbatim>\<open>information_schema\<close>; so a missing module
  cannot make these views fail or change them.  \<^verbatim>\<open>pg_constraint\<close> and \<^verbatim>\<open>constraint_column_usage\<close>
  also look at the tables foreign keys refer to, and are the same when no foreign key of a listed
  table refers to such a table.\<close>

theorem virtual_tables_untouched:
  assumes "same_visible S S'"
  shows "pg_class S' = pg_class S \<and> pg_attribute S' E = pg_attribute S E \<and> pg_index S' = pg_index S \<and>
    information_schema_tables S' db = information_schema_tables S db \<and>
    information_schema_columns S' E db = information_schema_columns S E db \<and>
    information_schema_key_column_usage S' db = information_schema_key_column_usage S db \<and>
    information_schema_table_constraints S' db = information_schema_table_constraints S db \<and>
    information_schema_referential_constraints S' db = information_schema_referential_constraints S db \<and>
    ((\<forall>t \<in> referenced S. \<not> virtual_name S t) \<longrightarrow>
       pg_constraint S' = pg_constraint S \<and>
       information_schema_constraint_column_usage S' db = information_schema_constraint_column_usage S db)"
proof -
  note t = same_visible_tables [OF assms] and src = same_visible_sources [OF assms]
  have "pg_class S' = pg_class S"
    using t by (auto simp: pg_class_def pg_class_row_def)
  moreover have "pg_index S' = pg_index S"
    using t by (auto simp: pg_index_def pg_index_row_def intro!: concat_map_cong)
  moreover have "information_schema_key_column_usage S' db = information_schema_key_column_usage S db"
    unfolding information_schema_key_column_usage_def t(2)
    using t(4) by (intro arg_cong2 [where f = append] concat_map_cong) auto
  ultimately show ?thesis
    using t src same_visible_constraints [OF assms]
    by (simp add: pg_attribute_def information_schema_tables_def information_schema_columns_def pk_by_name_def
        information_schema_table_constraints_def information_schema_referential_constraints_def)
qed

section \<open>A concrete schema\<close>

definition demo_table :: master_row where
  "demo_table =
     \<lparr>m_rowid = 1, m_type = ''table'', m_name = ''t'', m_tbl_name = ''t'',
      m_sql = Some (''CREATE TABLE t(s CHECK(s IN('' @ sqlStringLiteral ''b'' @ '','' @ sqlStringLiteral ''a'' @ '')))'')\<rparr>"

definition demo_index :: index_entry where
  "demo_index = \<lparr>il_seq = 0, il_name = ''u'', il_unique = 1, il_origin = ''u''\<rparr>"

definition demo_fk :: foreign_key where
  "demo_fk =
     \<lparr>fk_id = 0, fk_seq = 0, fk_table = ''t'', fk_from = ''s'', fk_to = None, fk_on_update = ''CASCADE'', fk_on_delete = ''NO ACTION''\<rparr>"

definition demo_schema :: "table_column list \<Rightarrow> schema" where
  "demo_schema hidden =
     \<lparr>sqlite_master = [demo_table],
      table_list = [\<lparr>tl_schema = ''main'', tl_name = ''f'', tl_type = ''virtual''\<rparr>],
      table_info = (\<lambda>n. if n = ''f'' then hidden
        else [\<lparr>ti_cid = 0, ti_name = ''S'', ti_type = ''TEXT'', ti_notnull = 0, ti_dflt_value = None, ti_pk = 1\<rparr>]),
      index_list = (\<lambda>n. [demo_index]), index_info = (\<lambda>n. [\<lparr>ii_seqno = 0, ii_name = Some ''S''\<rparr>]),
      foreign_key_list = (\<lambda>n. [demo_fk])\<rparr>"

lemma demo_schema_shown:
  "shown (demo_schema h) [''table'', ''view''] = [demo_table]" "real_tables (demo_schema h) = [demo_table]"
  by (simp_all add: shown_def real_tables_def demo_schema_def demo_table_def user_named_def not_virtual_def)

lemma demo_enums:
  "schema_enums [(m_name demo_table, the (m_sql demo_table))] =
     [\<lparr>oid = 90000, typname = ''t_s'', tablename = ''t'', column = ''s'', labels = [''b'', ''a'']\<rparr>]"
  by code_simp

theorem one_row_per_column_witness:
  "map (\<lambda>r. (col ''attrelid'' r, col ''attname'' r))
     (pg_attribute (demo_schema []) (enum_catalog_inserts [(''t'', the (m_sql demo_table))])) = [(SInt 1, SText ''S'')]"
  using one_row_per_column [of "[(''t'', the (m_sql demo_table))]" "demo_schema []"]
  unfolding demo_schema_shown by (simp add: demo_schema_def demo_table_def)

theorem enum_labels_in_order_witness:
  "map (col ''enumlabel'') (filter (\<lambda>r. col ''enumtypid'' r = SInt 90000)
     (pg_enum (enum_catalog_inserts [(m_name demo_table, the (m_sql demo_table))]))) = [SText ''b'', SText ''a'']"
  using enum_labels_in_order [of "\<lparr>oid = 90000, typname = ''t_s'', tablename = ''t'', column = ''s'', labels = [''b'', ''a'']\<rparr>"
      "[(m_name demo_table, the (m_sql demo_table))]"]
  unfolding demo_enums by simp

theorem constraint_oids_distinct_witness:
  "distinct (map (col ''oid'') (pg_constraint (demo_schema [])))"
proof (rule constraint_oids_distinct)
  show "distinct (map m_rowid (sqlite_master (demo_schema [])))" by (simp add: demo_schema_def)
qed (unfold demo_schema_shown, simp_all add: demo_schema_def demo_fk_def demo_index_def)

definition hidden_column :: table_column where
  "hidden_column = \<lparr>ti_cid = 0, ti_name = ''x'', ti_type = [], ti_notnull = 0, ti_dflt_value = None, ti_pk = 0\<rparr>"

lemma demo_same_visible: "same_visible (demo_schema []) (demo_schema [hidden_column])"
proof -
  have "virtual_name (demo_schema []) ''f''" by (simp add: virtual_name_def demo_schema_def)
  then show ?thesis by (auto simp: same_visible_def) (auto simp: demo_schema_def)
qed

theorem virtual_tables_untouched_witness:
  "pg_class (demo_schema [hidden_column]) = pg_class (demo_schema []) \<and>
   pg_constraint (demo_schema [hidden_column]) = pg_constraint (demo_schema [])"
proof -
  have "\<forall>t \<in> referenced (demo_schema []). \<not> virtual_name (demo_schema []) t"
    unfolding referenced_def demo_schema_shown by (auto simp: virtual_name_def demo_schema_def demo_fk_def)
  with virtual_tables_untouched [OF demo_same_visible] show ?thesis by blast
qed

text \<open>The condition on \<^verbatim>\<open>pg_constraint\<close> is needed: for a foreign key that refers to a virtual table the
  view asks for the columns of that table, so its row changes with them (and the view fails
  when the module is missing).\<close>

lemma pg_constraint_reads_referenced:
  "fk_columns S (m_name m) fk = [fk] \<Longrightarrow> fk_to fk = Some c \<Longrightarrow>
     col ''confkey'' (fk_constraint_row S m fk) =
       json_group_array [scalar (map (\<lambda>t. SInt (ti_cid t + 1)) (filter (\<lambda>t. ti_name t = c) (table_info S (fk_table fk))))]"
  by (simp add: fk_constraint_row_def col_def column_number_def)

text \<open>The bound on foreign keys is needed: the oid of a table's foreign key 1000 is the oid of
  its first UNIQUE index.  And the predicate on virtual tables uses the name as a LIKE pattern:
  next to a virtual table \<^verbatim>\<open>a_b\<close> an ordinary table \<^verbatim>\<open>axb_c\<close> is not shown.\<close>

lemma constraint_oid_collision:
  "fk_id fk = 1000 \<Longrightarrow> il_seq il = 0 \<Longrightarrow>
     col ''oid'' (fk_constraint_row S m fk) = col ''oid'' (unique_constraint_row S m il)"
  by (simp add: constraint_oids)

lemma virtual_name_pattern:
  "table_list S = [\<lparr>tl_schema = ''main'', tl_name = ''a_b'', tl_type = ''virtual''\<rparr>] \<Longrightarrow> \<not> not_virtual S ''axb_c''"
  by (simp add: not_virtual_def lower_char_def is_upper_def)

text \<open>\<^verbatim>\<open>pg_index.indexrelid\<close> is not the oid under which \<^verbatim>\<open>pg_class\<close> lists the index.\<close>

lemma indexrelid_not_class_oid:
  "col ''indexrelid'' (pg_index_row S m il) = SInt (m_rowid m * 100000 + il_seq il)"
  "col ''oid'' (pg_class_row S i) = SInt (m_rowid i)"
  by (simp_all add: pg_index_row_def pg_class_row_def col_def)

end
