(* ===== verification/Catalog_Refs.thy ===== *)
theory Catalog_Refs
  imports Catalog "HOL-Library.Multiset"
begin

text \<open>
  References between the views.  Clients join the catalog by oids and names; every reference
  of \<open>Catalog_Views\<close> leads to a row, and the two descriptions of constraints are the same.
\<close>

section \<open>The columns that refer\<close>

lemma class_cols:
  "col ''oid'' (pg_class_row S m) = SInt (m_rowid m)" "col ''relname'' (pg_class_row S m) = SText (m_name m)"
  "col ''relnamespace'' (pg_class_row S m) = SInt 2200"
  "m_type m \<in> {''table'', ''view'', ''index''} \<Longrightarrow> col ''relkind'' (pg_class_row S m) = SText (take 1 (if m_type m = ''table'' then ''r'' else m_type m))"
  by (auto simp: pg_class_row_def col_def)

lemma attribute_rel:
  "col ''attrelid'' (pg_attribute_row m p ec) = SInt (m_rowid m)" "col ''attrelname'' (pg_attribute_row m p ec) = SText (m_name m)"
  by (simp_all add: pg_attribute_row_def col_def)

lemma index_rel: "col ''indrelid'' (pg_index_row S m il) = SInt (m_rowid m)"
  by (simp add: pg_index_row_def col_def)

lemma constraint_rel:
  "col ''conrelid'' (pk_constraint_row S m) = SInt (m_rowid m)" "col ''conrelname'' (pk_constraint_row S m) = SText (m_name m)"
  "col ''conrelid'' (fk_constraint_row S m fk) = SInt (m_rowid m)" "col ''conrelname'' (fk_constraint_row S m fk) = SText (m_name m)"
  "col ''conrelid'' (unique_constraint_row S m il) = SInt (m_rowid m)" "col ''conrelname'' (unique_constraint_row S m il) = SText (m_name m)"
  "col ''conname'' (pk_constraint_row S m) = SText (m_name m @ ''_pkey'')" "col ''contype'' (pk_constraint_row S m) = SText ''p''"
  "col ''conname'' (fk_constraint_row S m fk) = SText (fk_name m fk)" "col ''contype'' (fk_constraint_row S m fk) = SText ''f''"
  "col ''conname'' (unique_constraint_row S m il) = SText (il_name il)" "col ''contype'' (unique_constraint_row S m il) = SText ''u''"
  by (simp_all add: pk_constraint_row_def fk_constraint_row_def unique_constraint_row_def col_def)

lemma table_constraint_cols:
  "col ''constraint_name'' (table_constraint_row db cn tbl ty) = SText cn" "col ''table_name'' (table_constraint_row db cn tbl ty) = SText tbl"
  "col ''constraint_type'' (table_constraint_row db cn tbl ty) = SText ty"
  by (simp_all add: table_constraint_row_def col_def)

lemma key_usage_cols:
  "col ''constraint_name'' (key_usage_row db cn tbl cl pos up) = SText cn" "col ''table_name'' (key_usage_row db cn tbl cl pos up) = SText tbl"
  by (simp_all add: key_usage_row_def col_def)

lemma column_usage_name: "col ''constraint_name'' (column_usage_row db tbl cl cn) = SText cn"
  by (simp add: column_usage_row_def col_def)

section \<open>References to tables\<close>

definition in_class :: "schema \<Rightarrow> sqlval \<Rightarrow> sqlval \<Rightarrow> gostr set \<Rightarrow> bool" where
  "in_class S i n kinds \<longleftrightarrow>
     (\<exists>k \<in> set (pg_class S). col ''oid'' k = i \<and> col ''relname'' k = n \<and> col ''relkind'' k \<in> SText ` kinds)"

lemma in_class_shown:
  assumes "m \<in> set (shown S [''table'', ''view''])"
  shows "in_class S (SInt (m_rowid m)) (SText (m_name m)) {''r'', ''v''}"
proof -
  have "m \<in> set (shown S [''table'', ''view'', ''index''])" "m_type m \<in> {''table'', ''view''}" using assms by (auto simp: shown_def)
  then show ?thesis unfolding in_class_def pg_class_def
    by (intro bexI [of _ "pg_class_row S m"]) (auto simp: class_cols)
qed

lemma in_class_real:
  assumes "m \<in> set (real_tables S)" "user_named (m_name m)"
  shows "in_class S (SInt (m_rowid m)) (SText (m_name m)) {''r''}"
proof -
  have "m \<in> set (shown S [''table'', ''view'', ''index''])" "m_type m = ''table''"
    using assms by (auto simp: shown_def real_tables_def)
  then show ?thesis unfolding in_class_def pg_class_def
    by (intro bexI [of _ "pg_class_row S m"]) (auto simp: class_cols)
qed

lemma constraint_source:
  assumes "r \<in> set (pg_constraint S)"
  shows "\<exists>m \<in> set (real_tables S). col ''conrelid'' r = SInt (m_rowid m) \<and> col ''conrelname'' r = SText (m_name m)"
  using assms pk_groups_real(1) [of S] by (auto simp: pg_constraint_def first_fks_def unique_indexes_def constraint_rel)

lemma index_source: "r \<in> set (pg_index S) \<Longrightarrow> \<exists>m \<in> set (real_tables S). col ''indrelid'' r = SInt (m_rowid m)"
  by (auto simp: pg_index_def index_rel)

lemma enum_type_typtype: "col ''typtype'' (zip (map fst pgType_decl) (enum_type_values et)) = SText ''e''"
  by (simp add: enum_type_values_def pgType_decl_def col_def)

lemma enum_reference:
  assumes "r \<in> set (pg_enum (enum_catalog_inserts tables))"
  shows "\<exists>t \<in> set (pg_type (enum_catalog_inserts tables)). col ''oid'' t = col ''enumtypid'' r \<and> col ''typtype'' t = SText ''e''"
proof -
  from assms obtain e k where e: "e \<in> set (schema_enums tables)" and "col ''enumtypid'' r = SInt (oid e)"
    by (auto simp: pg_enum_def enum_label_rows_eq col_def)
  then show ?thesis
    by (auto simp: pg_type_def enum_types_eq enum_type_cols enum_type_typtype enum_type_row_of_def
        intro!: bexI [of _ "zip (map fst pgType_decl) (enum_type_values (enum_type_row_of e))"])
qed

text \<open>C14: No dangling references: in a schema none of whose tables has a name like \<^verbatim>\<open>sqlite_%\<close>, every
  column of \<^verbatim>\<open>pg_attribute\<close> belongs to a table or view that \<^verbatim>\<open>pg_class\<close> lists under that oid
  and name, every index and every constraint to a table it lists, and every label of
  \<^verbatim>\<open>pg_enum\<close> to an enum type of \<^verbatim>\<open>pg_type\<close>.\<close>

theorem catalog_references:
  assumes "\<forall>m \<in> set (real_tables S). user_named (m_name m)"
  shows "(\<forall>r \<in> set (pg_attribute S (enum_catalog_inserts tables)). in_class S (col ''attrelid'' r) (col ''attrelname'' r) {''r'', ''v''}) \<and>
    (\<forall>r \<in> set (pg_index S). \<exists>n. in_class S (col ''indrelid'' r) n {''r''}) \<and>
    (\<forall>r \<in> set (pg_constraint S). in_class S (col ''conrelid'' r) (col ''conrelname'' r) {''r''}) \<and>
    (\<forall>r \<in> set (pg_enum (enum_catalog_inserts tables)). \<exists>t \<in> set (pg_type (enum_catalog_inserts tables)).
       col ''oid'' t = col ''enumtypid'' r \<and> col ''typtype'' t = SText ''e'')"
proof (intro conjI ballI)
  fix r assume "r \<in> set (pg_attribute S (enum_catalog_inserts tables))"
  then show "in_class S (col ''attrelid'' r) (col ''attrelname'' r) {''r'', ''v''}"
    by (auto simp: pg_attribute_def column_join_def attribute_rel intro: in_class_shown)
next
  fix r assume "r \<in> set (pg_index S)"
  then obtain m where m: "m \<in> set (real_tables S)" "col ''indrelid'' r = SInt (m_rowid m)"
    using index_source by blast
  then have "in_class S (col ''indrelid'' r) (SText (m_name m)) {''r''}" using assms by (simp add: in_class_real)
  then show "\<exists>n. in_class S (col ''indrelid'' r) n {''r''}" by (rule exI [of _ "SText (m_name m)"])
next
  fix r assume "r \<in> set (pg_constraint S)"
  then show "in_class S (col ''conrelid'' r) (col ''conrelname'' r) {''r''}"
    using constraint_source [of r S] assms in_class_real by (metis (no_types, lifting))
qed (rule enum_reference)

section \<open>Constraints\<close>

text \<open>The name PostgreSQL's \<^verbatim>\<open>information_schema\<close> gives a kind of constraint.\<close>

fun constraint_kind :: "sqlval \<Rightarrow> sqlval" where
  "constraint_kind (SText t) =
     SText (if t = ''p'' then ''PRIMARY KEY'' else if t = ''f'' then ''FOREIGN KEY'' else if t = ''u'' then ''UNIQUE'' else t)"
| "constraint_kind v = v"

lemma sorted_mset: "mset (sort_key k xs) = mset xs"
  by simp

text \<open>C16: \<^verbatim>\<open>pg_constraint\<close> and \<^verbatim>\<open>information_schema.table_constraints\<close> list the same constraints: in a
  database whose tables have different names (as SQLite ensures), the constraints of both, each
  with its name, its table and its kind, are the same and occur equally often.  Their order
  differs: primary keys come in the order of the tables' rowids in the one and of the tables' names
  in the other.\<close>

theorem constraint_views_agree:
  assumes "distinct (map m_name (real_tables S))"
  shows "mset (map (\<lambda>r. (col ''conname'' r, col ''conrelname'' r, constraint_kind (col ''contype'' r))) (pg_constraint S)) =
    mset (map (\<lambda>r. (col ''constraint_name'' r, col ''table_name'' r, col ''constraint_type'' r))
      (information_schema_table_constraints S db)) \<and>
    (\<exists>rest. map (col ''conrelid'') (pg_constraint S) = map (SInt \<circ> m_rowid) (pk_by_rowid S) @ rest) \<and>
    sorted (map m_rowid (pk_by_rowid S)) \<and> sorted (map m_name (pk_by_name S))"
proof -
  let ?pk = "filter (\<lambda>m. list_ex (\<lambda>p. 0 < ti_pk p) (table_info S (m_name m))) (real_tables S)"
  have "distinct (map (\<lambda>m. (m_rowid m, m_name m)) (real_tables S))"
    using assms by (auto simp: distinct_map inj_on_def)
  from grouped_tables [OF this] have rowid: "pk_by_rowid S = sort_key (\<lambda>m. (m_rowid m, m_name m)) ?pk"
    by (simp add: pk_by_rowid_def)
  from grouped_tables [OF assms] have name: "pk_by_name S = sort_key m_name ?pk" by (simp add: pk_by_name_def)
  have "sorted (map m_rowid (sort_key (\<lambda>m. (m_rowid m, m_name m)) xs))" for xs
  proof -
    have "sorted (map (\<lambda>m. (m_rowid m, m_name m)) (sort_key (\<lambda>m. (m_rowid m, m_name m)) xs))" by simp
    then show ?thesis by (auto simp: sorted_map elim!: sorted_wrt_mono_rel [rotated] simp: less_eq_prod_def)
  qed
  moreover have "mset (map f (pk_by_rowid S)) = mset (map f (pk_by_name S))" for f :: "master_row \<Rightarrow> sqlval \<times> sqlval \<times> sqlval"
    by (simp add: rowid name)
  ultimately show ?thesis
    by (simp add: pg_constraint_def information_schema_table_constraints_def constraint_rel table_constraint_cols split_def
        comp_def rowid name)
qed

lemma pk_listed:
  assumes "m \<in> set (real_tables S)" "p \<in> set (table_info S (m_name m))" "0 < ti_pk p"
  shows "table_constraint_row db (m_name m @ ''_pkey'') (m_name m) ''PRIMARY KEY'' \<in> set (information_schema_table_constraints S db)"
proof -
  from pk_by_name_has [OF assms] obtain m' where "m' \<in> set (pk_by_name S)" "m_name m' = m_name m" by blast
  then have "table_constraint_row db (m_name m @ ''_pkey'') (m_name m) ''PRIMARY KEY'' \<in>
      (\<lambda>m. table_constraint_row db (m_name m @ ''_pkey'') (m_name m) ''PRIMARY KEY'') ` set (pk_by_name S)"
    by (intro image_eqI [of _ _ m']) simp_all
  then show ?thesis by (simp add: information_schema_table_constraints_def)
qed

lemma fk_listed: "m \<in> set (real_tables S) \<Longrightarrow> fk \<in> set (foreign_key_list S (m_name m)) \<Longrightarrow> fk_seq fk = 0 \<Longrightarrow>
    table_constraint_row db (fk_name m fk) (m_name m) ''FOREIGN KEY'' \<in> set (information_schema_table_constraints S db)"
  by (force simp: information_schema_table_constraints_def first_fks_def)

lemma fk_name_id: "fk_id fk0 = fk_id fk \<Longrightarrow> fk_name m fk0 = fk_name m fk"
  by (simp add: fk_name_def)

text \<open>C15: Key columns and references name constraints that exist: when, as SQLite documents, each
  foreign key has a column number 0, every row of \<^verbatim>\<open>key_column_usage\<close> names a constraint of
  \<^verbatim>\<open>table_constraints\<close> of the same table, every row of \<^verbatim>\<open>referential_constraints\<close> a FOREIGN KEY
  of it, and every row of \<^verbatim>\<open>constraint_column_usage\<close> some constraint of it.\<close>

theorem constraint_names_resolve:
  assumes "\<forall>m \<in> set (real_tables S). \<forall>fk \<in> set (foreign_key_list S (m_name m)).
      \<exists>fk0 \<in> set (foreign_key_list S (m_name m)). fk_id fk0 = fk_id fk \<and> fk_seq fk0 = 0"
  shows "(\<forall>r \<in> set (information_schema_key_column_usage S db). \<exists>c \<in> set (information_schema_table_constraints S db).
        col ''constraint_name'' c = col ''constraint_name'' r \<and> col ''table_name'' c = col ''table_name'' r) \<and>
    (\<forall>r \<in> set (information_schema_referential_constraints S db). \<exists>c \<in> set (information_schema_table_constraints S db).
        col ''constraint_name'' c = col ''constraint_name'' r \<and> col ''constraint_type'' c = SText ''FOREIGN KEY'') \<and>
    (\<forall>r \<in> set (information_schema_constraint_column_usage S db). \<exists>c \<in> set (information_schema_table_constraints S db).
        col ''constraint_name'' c = col ''constraint_name'' r)"
proof -
  have fk: "\<exists>c \<in> set (information_schema_table_constraints S db). col ''constraint_name'' c = SText (fk_name m fk) \<and>
      col ''table_name'' c = SText (m_name m) \<and> col ''constraint_type'' c = SText ''FOREIGN KEY''"
    if m: "m \<in> set (real_tables S)" and f: "fk \<in> set (foreign_key_list S (m_name m))" for m fk
  proof -
    from assms m f obtain fk0 where "fk0 \<in> set (foreign_key_list S (m_name m))" "fk_id fk0 = fk_id fk" "fk_seq fk0 = 0" by blast
    with fk_listed [OF m this(1,3), of db] fk_name_id [OF this(2), of m] show ?thesis
      by (intro bexI [of _ "table_constraint_row db (fk_name m fk) (m_name m) ''FOREIGN KEY''"]) (simp_all add: table_constraint_cols)
  qed
  have pk: "\<exists>c \<in> set (information_schema_table_constraints S db). col ''constraint_name'' c = SText (m_name m @ ''_pkey'') \<and>
      col ''table_name'' c = SText (m_name m)"
    if "m \<in> set (real_tables S)" "p \<in> set (table_info S (m_name m))" "0 < ti_pk p" for m p
    using pk_listed [OF that, of db]
    by (intro bexI [of _ "table_constraint_row db (m_name m @ ''_pkey'') (m_name m) ''PRIMARY KEY''"]) (simp_all add: table_constraint_cols)
  have "\<exists>c \<in> set (information_schema_table_constraints S db).
        col ''constraint_name'' c = col ''constraint_name'' r \<and> col ''table_name'' c = col ''table_name'' r"
    if "r \<in> set (information_schema_key_column_usage S db)" for r
    using that by (auto simp: information_schema_key_column_usage_def key_usage_cols dest: pk) (blast dest: fk)
  moreover have "\<exists>c \<in> set (information_schema_table_constraints S db).
        col ''constraint_name'' c = col ''constraint_name'' r \<and> col ''constraint_type'' c = SText ''FOREIGN KEY''"
    if "r \<in> set (information_schema_referential_constraints S db)" for r
    using that by (auto simp: information_schema_referential_constraints_def first_fks_def col_def [of _ "_ # _"]) (blast dest: fk)
  moreover have "\<exists>c \<in> set (information_schema_table_constraints S db). col ''constraint_name'' c = col ''constraint_name'' r"
    if "r \<in> set (information_schema_constraint_column_usage S db)" for r
    using that by (auto simp: information_schema_constraint_column_usage_def column_usage_name dest: pk) (blast dest: fk pk)+
  ultimately show ?thesis by blast
qed

section \<open>Concrete schemas\<close>

theorem constraint_views_agree_witness:
  "mset (map (\<lambda>r. (col ''conname'' r, col ''conrelname'' r, constraint_kind (col ''contype'' r))) (pg_constraint (demo_schema []))) =
   mset (map (\<lambda>r. (col ''constraint_name'' r, col ''table_name'' r, col ''constraint_type'' r))
     (information_schema_table_constraints (demo_schema []) ''d''))"
proof -
  have "distinct (map m_name (real_tables (demo_schema [])))" unfolding demo_schema_shown by simp
  from constraint_views_agree [OF this] show ?thesis by blast
qed

theorem catalog_references_witness:
  "pk_constraint_row (demo_schema []) demo_table \<in> set (pg_constraint (demo_schema [])) \<and>
     in_class (demo_schema []) (SInt 1) (SText ''t'') {''r''}"
proof -
  have h: "\<forall>m \<in> set (real_tables (demo_schema [])). user_named (m_name m)"
    unfolding demo_schema_shown by (simp add: demo_table_def user_named_def)
  have r: "pk_constraint_row (demo_schema []) demo_table \<in> set (pg_constraint (demo_schema []))"
    unfolding pg_constraint_def pk_by_rowid_def pk_join_def demo_schema_shown by (simp add: demo_schema_def demo_table_def group_by_def)
  from catalog_references [OF h, of "[]"] r have
    "in_class (demo_schema []) (col ''conrelid'' (pk_constraint_row (demo_schema []) demo_table))
       (col ''conrelname'' (pk_constraint_row (demo_schema []) demo_table)) {''r''}" by blast
  with r show ?thesis by (simp add: constraint_rel demo_table_def)
qed

theorem constraint_names_resolve_witness:
  "\<exists>c \<in> set (information_schema_table_constraints (demo_schema []) ''d''). col ''constraint_name'' c = SText ''t_0_fkey'' \<and>
     col ''constraint_type'' c = SText ''FOREIGN KEY''"
proof -
  have h: "\<forall>m \<in> set (real_tables (demo_schema [])). \<forall>fk \<in> set (foreign_key_list (demo_schema []) (m_name m)).
      \<exists>fk0 \<in> set (foreign_key_list (demo_schema []) (m_name m)). fk_id fk0 = fk_id fk \<and> fk_seq fk0 = 0"
    unfolding demo_schema_shown by (simp add: demo_schema_def demo_fk_def)
  have "\<exists>r \<in> set (information_schema_referential_constraints (demo_schema []) ''d''). col ''constraint_name'' r = SText ''t_0_fkey''"
    unfolding information_schema_referential_constraints_def first_fks_def demo_schema_shown
    by (simp add: demo_schema_def demo_fk_def demo_table_def fk_name_def col_def) code_simp
  with constraint_names_resolve [OF h, of "''d''"] show ?thesis by (metis (no_types, lifting))
qed

text \<open>\<^verbatim>\<open>NOT LIKE 'sqlite_%'\<close> hides more than SQLite's own tables: the underscore is a wildcard, so a
  user's table \<^verbatim>\<open>sqlite3_data\<close> is missing from \<^verbatim>\<open>pg_class\<close>, while \<^verbatim>\<open>pg_constraint\<close> refers to it.\<close>

lemma sqlite_prefix_pattern: "\<not> user_named ''sqlite3_data''"
  by (simp add: user_named_def lower_char_def is_upper_def)

text \<open>\<^verbatim>\<open>confrelid\<close> compares the referenced name byte by byte, where SQLite ignores case: a reference
  to \<^verbatim>\<open>T\<close> finds no table \<^verbatim>\<open>t\<close>.\<close>

lemma confrelid_case_sensitive:
  "col ''confrelid'' (fk_constraint_row (demo_schema []) demo_table (demo_fk\<lparr>fk_table := ''T''\<rparr>)) = SNull"
  by (simp add: fk_constraint_row_def col_def demo_schema_def demo_table_def scalar_def)

end
