(* ===== verification/Command.thy ===== *)
theory Command
  imports Regex
begin

text \<open>
  \<^verbatim>\<open>command.go\<close>: classification of statements by their leading keyword, the
  CommandComplete tag, the number of bind parameters, the transaction status codes and
  the SQLSTATE of an error.
\<close>

section \<open>Bind parameters\<close>

definition paramRegex :: re where
  "paramRegex = RSeq (RLit False ''$'') (RGroup 1 (RPlus (RCls False r_d)))"

text \<open>\<^verbatim>\<open>strconv.Atoi\<close> of a digit string on a 64-bit platform: an error beyond the range.\<close>

definition Atoi :: "gostr \<Rightarrow> nat option" where
  "Atoi ds = (if ds \<noteq> [] \<and> list_all is_digit ds \<and> digits_val ds < 2 ^ 63
              then Some (digits_val ds) else None)"

definition countParams :: "gostr \<Rightarrow> nat" where
  "countParams query =
     foldl (\<lambda>mx m. case Atoi (group query m 1) of
                     None \<Rightarrow> mx
                   | Some n \<Rightarrow> if mx < n then n else mx) 0 (FindAll paramRegex query)"

section \<open>The leading keyword\<close>

definition returningRegex :: re where
  "returningRegex = RSeqs [RWordB, RLit True ''returning'', RWordB]"

fun first_keyword :: "gostr list \<Rightarrow> gostr" where
  "first_keyword [] = []"
| "first_keyword (f # fs) =
     (let f' = TrimLeft f ''('' in if f' \<noteq> [] then ToUpper f' else first_keyword fs)"

definition leadingKeyword :: "gostr \<Rightarrow> gostr" where
  "leadingKeyword query = first_keyword (Fields query)"

definition isRowReturning :: "gostr \<Rightarrow> bool" where
  "isRowReturning query =
     (if leadingKeyword query \<in>
           {''SELECT'', ''VALUES'', ''WITH'', ''SHOW'', ''EXPLAIN'', ''TABLE'', ''PRAGMA''}
      then True
      else MatchString returningRegex query)"

section \<open>Command tags\<close>

definition objectTag :: "gostr \<Rightarrow> gostr \<Rightarrow> gostr" where
  "objectTag query kw =
     (case Fields query of
        f0 # f1 # fs \<Rightarrow>
          (let obj = ToUpper f1 in
           if obj \<in> {''TABLE'', ''INDEX'', ''VIEW'', ''TRIGGER'', ''DATABASE'', ''SCHEMA'', ''SEQUENCE''}
           then kw @ '' '' @ obj else kw)
      | _ \<Rightarrow> kw)"

definition commandTag :: "gostr \<Rightarrow> int \<Rightarrow> int \<Rightarrow> gostr" where
  "commandTag query rowsAffected rowsReturned =
     (let kw = leadingKeyword query;
          writeCount = (if isRowReturning query then rowsReturned else rowsAffected) in
      if kw = ''INSERT'' then ''INSERT 0 '' @ FormatInt writeCount
      else if kw \<in> {''UPDATE'', ''DELETE''} then kw @ '' '' @ FormatInt writeCount
      else if kw \<in> {''SELECT'', ''VALUES'', ''WITH'', ''SHOW'', ''TABLE''}
        then ''SELECT '' @ FormatInt rowsReturned
      else if kw \<in> {''CREATE'', ''DROP'', ''ALTER'', ''TRUNCATE'', ''GRANT'', ''REVOKE'', ''COMMENT'', ''REINDEX''}
        then objectTag query kw
      else if kw \<in> {''BEGIN'', ''START''} then ''BEGIN''
      else if kw \<in> {''COMMIT'', ''END''} then ''COMMIT''
      else if kw = ''ROLLBACK'' then ''ROLLBACK''
      else if kw \<in> {''SAVEPOINT'', ''RELEASE'', ''SET'', ''RESET'', ''PRAGMA'', ''VACUUM'', ''ANALYZE'', ''EXPLAIN''}
        then kw
      else if kw = [] then []
      else kw)"

section \<open>Transaction status\<close>

datatype tx_status = TxIdle | TxInProgress | TxFailed

fun tx_byte :: "tx_status \<Rightarrow> char" where
  "tx_byte TxIdle = CHR ''I''"
| "tx_byte TxInProgress = CHR ''T''"
| "tx_byte TxFailed = CHR ''E''"

definition isTxBegin :: "gostr \<Rightarrow> bool" where
  "isTxBegin kw \<longleftrightarrow> kw = ''BEGIN'' \<or> kw = ''START''"

definition isTxCommit :: "gostr \<Rightarrow> bool" where
  "isTxCommit kw \<longleftrightarrow> kw = ''COMMIT'' \<or> kw = ''END''"

definition isTxRollback :: "gostr \<Rightarrow> bool" where
  "isTxRollback kw \<longleftrightarrow> kw = ''ROLLBACK'' \<or> kw = ''ABORT''"

section \<open>Errors\<close>

text \<open>
  Go error values: the two sentinels of the package, SQLite's error with its primary and
  extended result code, any other error, and an error wrapped with \<^verbatim>\<open>%w\<close> between two
  pieces of text.
\<close>

datatype go_error =
    ErrInFailedTransaction
  | ErrAuthFailed
  | ErrSqlite int int gostr
  | ErrMsg gostr
  | ErrWrap gostr go_error gostr

primrec error_text :: "go_error \<Rightarrow> gostr" where
  "error_text ErrInFailedTransaction =
     ''current transaction is aborted, commands ignored until end of transaction block''"
| "error_text ErrAuthFailed = ''authentication failed''"
| "error_text (ErrSqlite c x msg) = msg"
| "error_text (ErrMsg msg) = msg"
| "error_text (ErrWrap pre e post) = pre @ error_text e @ post"

text \<open>\<^verbatim>\<open>errors.Is(err, errInFailedTransaction)\<close> and \<^verbatim>\<open>errors.As(err, &sqlite3.Error)\<close>.\<close>

primrec is_in_failed_tx :: "go_error \<Rightarrow> bool" where
  "is_in_failed_tx ErrInFailedTransaction = True"
| "is_in_failed_tx ErrAuthFailed = False"
| "is_in_failed_tx (ErrSqlite c x msg) = False"
| "is_in_failed_tx (ErrMsg msg) = False"
| "is_in_failed_tx (ErrWrap pre e post) = is_in_failed_tx e"

primrec as_sqlite :: "go_error \<Rightarrow> (int \<times> int) option" where
  "as_sqlite ErrInFailedTransaction = None"
| "as_sqlite ErrAuthFailed = None"
| "as_sqlite (ErrSqlite c x msg) = Some (c, x)"
| "as_sqlite (ErrMsg msg) = None"
| "as_sqlite (ErrWrap pre e post) = as_sqlite e"

text \<open>SQLite's result codes (\<^verbatim>\<open>sqlite3.h\<close>), under the names of the driver.\<close>

definition sqErrError :: int where "sqErrError = 1"
definition sqErrReadonly :: int where "sqErrReadonly = 8"
definition sqErrConstraint :: int where "sqErrConstraint = 19"
definition sqErrConstraintCheck :: int where "sqErrConstraintCheck = 19 + 1 * 256"
definition sqErrConstraintForeignKey :: int where "sqErrConstraintForeignKey = 19 + 3 * 256"
definition sqErrConstraintNotNull :: int where "sqErrConstraintNotNull = 19 + 5 * 256"
definition sqErrConstraintPrimaryKey :: int where "sqErrConstraintPrimaryKey = 19 + 6 * 256"
definition sqErrConstraintUnique :: int where "sqErrConstraintUnique = 19 + 8 * 256"

lemmas sq_codes =
  sqErrError_def sqErrReadonly_def sqErrConstraint_def sqErrConstraintCheck_def
  sqErrConstraintForeignKey_def sqErrConstraintNotNull_def sqErrConstraintPrimaryKey_def
  sqErrConstraintUnique_def

definition sqlState :: "go_error \<Rightarrow> gostr" where
  "sqlState err =
     (if is_in_failed_tx err then ''25P02''
      else case as_sqlite err of
        Some (rc, ext) \<Rightarrow>
          (if ext = sqErrConstraintNotNull then ''23502''
           else if ext = sqErrConstraintForeignKey then ''23503''
           else if ext = sqErrConstraintUnique \<or> ext = sqErrConstraintPrimaryKey then ''23505''
           else if ext = sqErrConstraintCheck then ''23514''
           else if rc = sqErrConstraint then ''23514''
           else if rc = sqErrReadonly then ''25006''
           else if rc = sqErrError then ''42601''
           else ''XX000'')
      | None \<Rightarrow> ''XX000'')"

section \<open>The leading keyword: laws\<close>

lemma fields_acc_word:
  "w \<noteq> [] \<Longrightarrow> fields_acc w s =
     (rev w @ takeWhile (\<lambda>c. \<not> is_space c) s) # fields_acc [] (dropWhile (\<lambda>c. \<not> is_space c) s)"
proof (induction s arbitrary: w)
  case (Cons c s)
  from Cons.IH [of "c # w"] Cons.prems show ?case by simp
qed simp

lemma fields_acc_no_space:
  "f \<in> set (fields_acc w s) \<Longrightarrow> \<forall>c \<in> set w. \<not> is_space c \<Longrightarrow> \<forall>c \<in> set f. \<not> is_space c"
proof (induction s arbitrary: w)
  case (Cons c s)
  from Cons.prems Cons.IH [of "[]"] Cons.IH [of "c # w"] show ?case
    by (auto split: if_splits)
qed (auto split: if_splits)

lemma fields_acc_ToUpper: "fields_acc (ToUpper w) (ToUpper s) = map ToUpper (fields_acc w s)"
proof (induction s arbitrary: w)
  case (Cons c s)
  from Cons.IH [of "[]"] Cons.IH [of "c # w"] show ?case
    by (simp add: ToUpper_def rev_map)
qed (simp add: ToUpper_def rev_map)

lemma Fields_ToUpper: "Fields (ToUpper s) = map ToUpper (Fields s)"
  using fields_acc_ToUpper [of "[]" s] by (simp add: Fields_def ToUpper_def)

lemma upper_char_paren [simp]: "upper_char c = CHR ''('' \<longleftrightarrow> c = CHR ''(''"
  by (rule upper_char_eq_iff) (simp add: is_letter_def is_upper_def is_lower_def)

lemma TrimLeft_ToUpper: "TrimLeft (ToUpper f) ''('' = ToUpper (TrimLeft f ''('')"
  by (induction f) (auto simp: TrimLeft_def ToUpper_def)

lemma ToUpper_ToUpper [simp]: "ToUpper (ToUpper s) = ToUpper s"
  by (simp add: ToUpper_def)

lemma ToUpper_eq_Nil [simp]: "ToUpper s = [] \<longleftrightarrow> s = []"
  by (simp add: ToUpper_def)

lemma first_keyword_ToUpper: "first_keyword (map ToUpper fs) = first_keyword fs"
  by (induction fs) (auto simp: TrimLeft_ToUpper Let_def)

lemma leadingKeyword_ToUpper: "leadingKeyword (ToUpper q) = leadingKeyword q"
  by (simp add: leadingKeyword_def Fields_ToUpper first_keyword_ToUpper)

text \<open>A keyword is upper case, has no white space and does not begin with a parenthesis.\<close>

lemma hd_TrimLeft: "TrimLeft f cs \<noteq> [] \<Longrightarrow> hd (TrimLeft f cs) \<notin> set cs"
  unfolding TrimLeft_def by (rule hd_dropWhile)

lemma first_keyword_shape:
  assumes "\<forall>f \<in> set fs. \<forall>c \<in> set f. \<not> is_space c"
  shows "(\<forall>c \<in> set (first_keyword fs). \<not> is_space c \<and> \<not> is_lower c)
    \<and> (first_keyword fs \<noteq> [] \<longrightarrow> hd (first_keyword fs) \<noteq> CHR ''('')"
  using assms
proof (induction fs)
  case (Cons f fs)
  show ?case
  proof (cases "TrimLeft f ''('' = []")
    case True
    with Cons show ?thesis by simp
  next
    case False
    have "\<forall>c \<in> set (TrimLeft f ''(''). \<not> is_space c"
      using Cons.prems by (auto simp: TrimLeft_def dest: set_dropWhileD)
    moreover have "hd (TrimLeft f ''('') \<noteq> CHR ''(''"
      using hd_TrimLeft [OF False] by simp
    ultimately show ?thesis using False by (simp add: ToUpper_def hd_map)
  qed
qed simp

lemma TrimLeft_Cons_paren: "TrimLeft (CHR ''('' # f) ''('' = TrimLeft f ''(''"
  by (simp add: TrimLeft_def)

lemma first_keyword_paren: "first_keyword (fields_acc [CHR ''(''] s) = first_keyword (fields_acc [] s)"
proof (cases s)
  case (Cons c cs)
  then show ?thesis
    by (cases "is_space c") (simp_all add: fields_acc_word TrimLeft_def)
qed (simp add: TrimLeft_def)

lemma leadingKeyword_skip:
  assumes "\<forall>c \<in> set w. is_space c \<or> c = CHR ''(''"
  shows "leadingKeyword (w @ q) = leadingKeyword q"
  using assms
proof (induction w)
  case (Cons c w)
  have p: "\<not> is_space (CHR ''('')" by (simp add: is_space_def)
  from Cons.prems consider "is_space c" | "c = CHR ''(''" by auto
  then show ?case
  proof cases
    case 1
    with Cons show ?thesis by (simp add: leadingKeyword_def Fields_def)
  next
    case 2
    with Cons p show ?thesis by (simp add: leadingKeyword_def Fields_def first_keyword_paren)
  qed
qed simp

lemma leadingKeyword_word:
  assumes "w \<noteq> []" "\<forall>c \<in> set w. \<not> is_space c" "hd w \<noteq> CHR ''(''" "q = [] \<or> is_space (hd q)"
  shows "leadingKeyword (w @ q) = ToUpper w"
proof -
  obtain c w' where w: "w = c # w'" using assms(1) by (cases w) auto
  have tw: "takeWhile (\<lambda>c. \<not> is_space c) (w' @ q) = w'"
    using assms(2,4) w by (cases q) (auto simp: takeWhile_append2)
  show ?thesis
    using assms(2,3) w by (simp add: leadingKeyword_def Fields_def TrimLeft_def fields_acc_word tw)
qed

lemma fields_acc_spaces: "\<forall>c \<in> set b. is_space c \<Longrightarrow> fields_acc w (s @ b) = fields_acc w s"
proof (induction s arbitrary: w)
  case Nil
  then have "fields_acc [] b = []" by (induction b) auto
  then have "fields_acc w b = fields_acc w []" using Nil by (cases b) auto
  then show ?case by simp
qed auto

lemma leadingKeyword_TrimSpace: "leadingKeyword (TrimSpace q) = leadingKeyword q"
proof -
  let ?s = "dropWhile is_space q"
  have q: "q = takeWhile is_space q @ ?s" by simp
  have "leadingKeyword q = leadingKeyword ?s"
    by (subst q, rule leadingKeyword_skip) (auto dest: set_takeWhileD)
  moreover have s: "?s = TrimSpace q @ rev (takeWhile is_space (rev ?s))"
    unfolding TrimSpace_def trim_right_def by (metis rev_append rev_rev_ident takeWhile_dropWhile_id)
  have "leadingKeyword ?s = leadingKeyword (TrimSpace q)"
    by (subst s) (auto simp: leadingKeyword_def Fields_def dest: set_takeWhileD intro!: arg_cong [of _ _ first_keyword] fields_acc_spaces)
  ultimately show ?thesis by simp
qed

text \<open>A pattern that anchors a keyword at the start of the text, as those for SHOW and the
  DDL no-ops do, only matches a statement that leads with that keyword.\<close>

lemma anchored_keyword:
  assumes f: "find (RSeq RBegin (RSeq Sps (RSeq kw (RSeq Sps1 r)))) s = Some m"
    and kw: "\<And>i g st'. i \<le> length s \<Longrightarrow> st' \<in> set (matches kw (cursor_at s i, g)) \<Longrightarrow>
        \<exists>w \<in> set ws. lit_at True w s i \<and> (\<exists>g'. st' = (cursor_at s (i + length w), g'))"
    and ws: "list_all (\<lambda>w. w \<noteq> [] \<and> list_all is_upper w) ws"
  shows "leadingKeyword s \<in> set ws"
proof -
  from find_matches [OF f] obtain st st0 st1 st2 st4 where
    0: "st0 \<in> set (matches RBegin (cursor_at s (mstart m), []))"
    and 1: "st1 \<in> set (matches Sps st0)" and 2: "st2 \<in> set (matches kw st1)"
    and "st4 \<in> set (matches Sps1 st2)"
    by (blast dest: matches_seqD)
  then obtain st3 where 3: "st3 \<in> set (matches Sp st2)" by (blast dest: matches_seqD)
  from 0 have "st0 = (cursor_at s 0, [])" unfolding matches_begin_at by (auto split: if_splits)
  with 1 obtain i where i: "i \<le> run is_re_space s 0" "st1 = (cursor_at s i, [])"
    using matches_star_cls_at [OF le0, of False r_s s "[]"] by (fastforce simp: less_Suc_eq_le simp del: upt_Suc matches.simps(9))
  with run_le [of 0 s is_re_space] have le: "i \<le> length s" by simp
  from kw [OF le 2 [unfolded i(2)]] obtain w g where w: "w \<in> set ws" "lit_at True w s i"
    and st2: "st2 = (cursor_at s (i + length w), g)" by blast
  let ?j = "i + length w"
  have "?j \<le> length s" using w(2) by (simp add: lit_at_def)
  have j: "?j < length s" "is_re_space (s ! ?j)"
    using 3 matches_cls_at [of False r_s s ?j g] unfolding st2 by (simp_all split: if_splits del: matches.simps)
  from w(1) ws have wu: "w \<noteq> []" "list_all is_upper w" by (auto simp: list_all_iff)
  let ?v = "slice s i ?j"
  have "ToLower ?v = ToLower w" by (rule lit_at_ToLower [OF w(2)])
  then have len: "length ?v = length w" and ch: "\<And>k. k < length w \<Longrightarrow> lower_char (?v ! k) = lower_char (w ! k)"
    using \<open>?j \<le> length s\<close> by (simp_all add: ToLower_def list_eq_iff_nth_eq)
  have let_: "is_letter (?v ! k) \<and> upper_char (?v ! k) = w ! k" if "k < length w" for k
  proof -
    have "is_upper (w ! k)" using wu(2) that by (simp add: list_all_length)
    with ch [OF that] show ?thesis by (rule upper_of_lower_eq [rotated])
  qed
  have v: "ToUpper ?v = w" using len let_ by (simp add: ToUpper_def list_eq_iff_nth_eq)
  have "s = take i s @ ?v @ drop ?j s" using take_slice_drop [of i ?j s] by simp
  then have "leadingKeyword s = leadingKeyword (take i s @ (?v @ drop ?j s))" by simp
  also have "\<dots> = leadingKeyword (?v @ drop ?j s)"
  proof (rule leadingKeyword_skip)
    have "is_space (s ! k)" if "k < i" for k
      using i(1) run_nth [of k is_re_space s 0] that by (simp add: is_re_space_is_space)
    then show "\<forall>c \<in> set (take i s). is_space c \<or> c = CHR ''(''"
      by (auto simp: in_set_conv_nth)
  qed
  also have "\<dots> = ToUpper ?v"
  proof (rule leadingKeyword_word)
    show "?v \<noteq> []" using len wu(1) by auto
    have l: "\<forall>c \<in> set ?v. is_letter c" using let_ len by (auto simp: in_set_conv_nth)
    then show "\<forall>c \<in> set ?v. \<not> is_space c" by (metis is_word_def is_word_not_space)
    have "is_letter (hd ?v)" using l \<open>?v \<noteq> []\<close> by simp
    then show "hd ?v \<noteq> CHR ''(''" by (auto simp: is_letter_def is_upper_def is_lower_def)
    show "drop ?j s = [] \<or> is_space (hd (drop ?j s))"
      using j by (simp add: hd_drop_conv_nth is_re_space_is_space)
  qed
  finally show ?thesis using v w(1) by simp
qed

section \<open>Counting parameters: a declarative reading\<close>

text \<open>The numbers of the maximal digit runs behind a dollar sign, left to right.\<close>

fun param_numbers :: "gostr \<Rightarrow> nat list" where
  "param_numbers [] = []"
| "param_numbers (c # cs) =
     (if c = CHR ''$'' \<and> cs \<noteq> [] \<and> is_digit (hd cs)
      then digits_val (takeWhile is_digit cs) # param_numbers cs
      else param_numbers cs)"

lemma not_digit_dollar: "\<not> is_digit (CHR ''$'')"
  by (simp add: is_digit_def)

lemma match_here_param:
  assumes "i \<le> length s"
  shows "match_here paramRegex (cursor_at s i) =
     (if i < length s \<and> s ! i = CHR ''$'' \<and> 0 < run is_digit s (Suc i)
      then Some \<lparr>mstart = i, mend = Suc i + run is_digit s (Suc i),
                 mcaps = [(1, (Suc i, Suc i + run is_digit s (Suc i)))]\<rparr>
      else None)"
proof (cases "i < length s \<and> s ! i = CHR ''$''")
  case False
  then have "\<not> lit_at False ''$'' s i"
    by (auto simp: lit_at_def slice_Suc lit_char_def)
  with assms False show ?thesis
    by (auto simp: match_here_def paramRegex_def re_at simp del: matches.simps(1,2,3,4,5,6,8,9))
next
  case True
  then have l: "lit_at False ''$'' s i" by (auto simp: lit_at_def slice_Suc lit_char_def)
  show ?thesis
  proof (cases "Suc i < length s \<and> is_digit (s ! Suc i)")
    case False
    then have "run is_digit s (Suc i) = 0" by (cases "Suc i < length s") auto
    with True l False show ?thesis
      by (auto simp: match_here_def paramRegex_def re_at simp del: matches.simps(1,2,3,4,5,6,8,9))
  next
    case 2: True
    then have r: "run is_digit s (Suc i) = Suc (run is_digit s (Suc (Suc i)))" by simp
    show ?thesis
      using True l 2
      by (simp add: match_here_def paramRegex_def re_at r del: matches.simps(1,2,3,4,5,6,8,9) run_step)
  qed
qed

lemma takeWhile_drop_group:
  assumes "Suc i + run is_digit s (Suc i) \<le> length s" "mcaps m = [(1, (Suc i, Suc i + run is_digit s (Suc i)))]"
  shows "group s m 1 = takeWhile is_digit (drop (Suc i) s)"
  using assms
  by (simp add: group_def group_span_def slice_def run_def)
     (metis takeWhile_eq_take)

lemma param_numbers_step:
  "i < length s \<Longrightarrow> param_numbers (drop i s) =
     (if s ! i = CHR ''$'' \<and> 0 < run is_digit s (Suc i)
      then digits_val (takeWhile is_digit (drop (Suc i) s)) # param_numbers (drop (Suc i) s)
      else param_numbers (drop (Suc i) s))"
  by (cases "drop (Suc i) s") (auto simp: drop_Cons_nth run_def)

lemma param_numbers_skip:
  assumes "\<forall>j. i \<le> j \<and> j < k \<longrightarrow> match_here paramRegex (cursor_at s j) = None"
    and "i \<le> k" "k \<le> length s"
  shows "param_numbers (drop i s) = param_numbers (drop k s)"
  using assms
proof (induction "k - i" arbitrary: i)
  case (Suc d)
  then have "i < k" "i < length s" by auto
  then have "match_here paramRegex (cursor_at s i) = None" using Suc.prems(1) by simp
  then have "\<not> (s ! i = CHR ''$'' \<and> 0 < run is_digit s (Suc i))"
    using match_here_param [of i s] \<open>i < length s\<close> by (auto split: if_splits)
  then have "param_numbers (drop i s) = param_numbers (drop (Suc i) s)"
    using param_numbers_step [OF \<open>i < length s\<close>] by simp
  also have "\<dots> = param_numbers (drop k s)"
    using Suc.hyps(2) Suc.prems \<open>i < k\<close> by (intro Suc.hyps(1)) auto
  finally show ?case .
qed simp

lemma param_digits_skip:
  assumes "i + n \<le> length s" "n \<le> run is_digit s i"
  shows "param_numbers (drop i s) = param_numbers (drop (i + n) s)"
proof (rule param_numbers_skip)
  show "\<forall>j. i \<le> j \<and> j < i + n \<longrightarrow> match_here paramRegex (cursor_at s j) = None"
  proof (intro allI impI)
    fix j assume j: "i \<le> j \<and> j < i + n"
    then have "j - i < run is_digit s i" using assms(2) by linarith
    from run_nth [OF this] j have "is_digit (s ! j)" by simp
    then have "s ! j \<noteq> CHR ''$''" using not_digit_dollar by metis
    then show "match_here paramRegex (cursor_at s j) = None"
      using match_here_param [of j s] j assms(1) by simp
  qed
qed (use assms in auto)

lemma all_matches_param:
  assumes "pos \<le> length s"
  shows "map (\<lambda>m. digits_val (group s m 1)) (all_matches paramRegex s pos prev) = param_numbers (drop pos s)
    \<and> (\<forall>m \<in> set (all_matches paramRegex s pos prev).
          group s m 1 \<noteq> [] \<and> list_all is_digit (group s m 1))"
  using assms
proof (induction "length s - pos" arbitrary: pos prev rule: less_induct)
  case less
  show ?case
  proof (cases "search_from paramRegex s pos")
    case None
    then have "\<forall>j. pos \<le> j \<and> j \<le> length s \<longrightarrow> match_here paramRegex (cursor_at s j) = None"
      using search_from_None [OF less.prems] by blast
    then have "param_numbers (drop pos s) = param_numbers (drop (length s) s)"
      using less.prems by (intro param_numbers_skip) auto
    moreover have "all_matches paramRegex s pos prev = []"
      using None less.prems by (subst all_matches.simps) simp
    ultimately show ?thesis by simp
  next
    case (Some m)
    note sf = search_from_Some [OF Some less.prems]
    let ?i = "mstart m"
    from sf have i: "?i \<le> length s" by linarith
    from sf(2) match_here_param [OF i]
    have "?i < length s \<and> s ! ?i = CHR ''$'' \<and> 0 < run is_digit s (Suc ?i)"
      and "m = \<lparr>mstart = ?i, mend = Suc ?i + run is_digit s (Suc ?i),
                 mcaps = [(1, (Suc ?i, Suc ?i + run is_digit s (Suc ?i)))]\<rparr>"
      by (simp_all split: if_splits)
    then have m: "?i < length s" "s ! ?i = CHR ''$''" "0 < run is_digit s (Suc ?i)"
      "mend m = Suc ?i + run is_digit s (Suc ?i)"
      "mcaps m = [(1, (Suc ?i, Suc ?i + run is_digit s (Suc ?i)))]"
      by (blast, blast, blast, metis rmatch.select_convs(2), metis rmatch.select_convs(3))
    have grp: "group s m 1 = takeWhile is_digit (drop (Suc ?i) s)"
      using takeWhile_drop_group [OF _ m(5)] run_le [of "Suc ?i" s is_digit] m(1) by simp
    have gok: "group s m 1 \<noteq> []" "list_all is_digit (group s m 1)"
      using m(3) unfolding grp by (auto simp: run_def list_all_iff dest: set_takeWhileD)
    have end_le: "mend m \<le> length s" and lt: "pos < mend m" using sf m(4) by auto
    have "param_numbers (drop pos s) = param_numbers (drop ?i s)"
      using sf i by (intro param_numbers_skip) auto
    also have "\<dots> = digits_val (group s m 1) # param_numbers (drop (Suc ?i) s)"
      using param_numbers_step [OF m(1)] m(2,3) grp by simp
    also have "param_numbers (drop (Suc ?i) s) = param_numbers (drop (mend m) s)"
      using param_digits_skip [of "Suc ?i" "run is_digit s (Suc ?i)" s] m(4) end_le by simp
    finally have pn: "param_numbers (drop pos s) =
        digits_val (group s m 1) # param_numbers (drop (mend m) s)" .
    have "all_matches paramRegex s pos prev = m # all_matches paramRegex s (mend m) (Some (mend m))"
      using less.prems Some lt by (subst all_matches.simps) (simp add: Let_def)
    with pn gok less.hyps [of "mend m" "Some (mend m)"] lt end_le less.prems show ?thesis by simp
  qed
qed

lemma foldl_max:
  "foldl (\<lambda>mx n. if n < b \<and> mx < n then n else mx) a (ns :: nat list) = Max (insert a {n \<in> set ns. n < b})"
proof (induction ns arbitrary: a)
  case (Cons n ns)
  let ?S = "{x \<in> set ns. x < b}"
  have S: "{x \<in> set (n # ns). x < b} = (if n < b then insert n ?S else ?S)" by auto
  have fin: "finite (insert a ?S)" "insert a ?S \<noteq> {}" "finite ?S" by simp_all
  show ?case
  proof (cases "n < b \<and> a < n")
    case True
    have "n \<le> Max (insert n ?S)" by (rule Max_ge) simp_all
    with True have "max a (Max (insert n ?S)) = Max (insert n ?S)" by (intro max_absorb2) linarith
    then have "Max (insert a (insert n ?S)) = Max (insert n ?S)" by (subst Max_insert) simp_all
    with True Cons.IH [of n] S show ?thesis by simp
  next
    case False
    have "a \<le> Max (insert a ?S)" by (rule Max_ge) simp_all
    with False have "n < b \<Longrightarrow> max n (Max (insert a ?S)) = Max (insert a ?S)"
      by (intro max_absorb2) linarith
    then have "n < b \<Longrightarrow> Max (insert a (insert n ?S)) = Max (insert a ?S)"
      by (simp only: insert_commute [of a n] Max_insert [OF fin(1,2)])
    with False Cons.IH [of a] S show ?thesis by auto
  qed
qed simp

lemma countParams_fold:
  "countParams q = foldl (\<lambda>mx n. if n < 2 ^ 63 \<and> mx < n then n else mx) 0 (param_numbers q)"
proof -
  let ?ms = "FindAll paramRegex q"
  have ok: "\<forall>m \<in> set ?ms. group q m 1 \<noteq> [] \<and> list_all is_digit (group q m 1)"
    and pn: "map (\<lambda>m. digits_val (group q m 1)) ?ms = param_numbers q"
    using all_matches_param [of 0 q None] by (auto simp: FindAll_def)
  have "foldl (\<lambda>mx m. case Atoi (group q m 1) of None \<Rightarrow> mx | Some n \<Rightarrow> if mx < n then n else mx) a ms =
      foldl (\<lambda>mx n. if n < 2 ^ 63 \<and> mx < n then n else mx) a (map (\<lambda>m. digits_val (group q m 1)) ms)"
    if "\<forall>m \<in> set ms. group q m 1 \<noteq> [] \<and> list_all is_digit (group q m 1)" for ms a
    using that by (induction ms arbitrary: a) (simp_all add: Atoi_def)
  from this [OF ok] pn show ?thesis by (simp add: countParams_def)
qed

lemma param_numbers_set:
  "set (param_numbers q) =
     {digits_val ds | a ds b. q = a @ CHR ''$'' # ds @ b \<and> ds \<noteq> [] \<and> (\<forall>c \<in> set ds. is_digit c)
        \<and> (b = [] \<or> \<not> is_digit (hd b))}"
    (is "_ = ?S q")
proof (induction q)
  case (Cons c q)
  have "?S (c # q) = (if c = CHR ''$'' \<and> q \<noteq> [] \<and> is_digit (hd q)
      then insert (digits_val (takeWhile is_digit q)) (?S q) else ?S q)" (is "_ = ?R")
  proof (intro equalityI subsetI)
    fix n assume "n \<in> ?S (c # q)"
    then obtain a ds b where *: "c # q = a @ CHR ''$'' # ds @ b" "ds \<noteq> []" "\<forall>c \<in> set ds. is_digit c"
      "b = [] \<or> \<not> is_digit (hd b)" "n = digits_val ds" by blast
    show "n \<in> ?R"
    proof (cases a)
      case Nil
      have "takeWhile is_digit (ds @ b) = ds"
        using *(3,4) by (cases b) (auto simp: takeWhile_append2)
      with * Nil show ?thesis by (cases ds) auto
    next
      case (Cons x a')
      with * have "n \<in> ?S q" by auto
      then show ?thesis by auto
    qed
  next
    fix n assume n: "n \<in> ?R"
    show "n \<in> ?S (c # q)"
    proof (cases "c = CHR ''$'' \<and> q \<noteq> [] \<and> is_digit (hd q) \<and> n = digits_val (takeWhile is_digit q)")
      case True
      let ?ds = "takeWhile is_digit q" and ?b = "dropWhile is_digit q"
      have "c # q = [] @ CHR ''$'' # ?ds @ ?b" using True by simp
      moreover have "?ds \<noteq> []" using True by (cases q) auto
      moreover have "\<forall>c \<in> set ?ds. is_digit c" by (auto dest: set_takeWhileD)
      moreover have "?b = [] \<or> \<not> is_digit (hd ?b)" using hd_dropWhile by blast
      ultimately show ?thesis using True by blast
    next
      case False
      with n have "n \<in> ?S q" by (auto split: if_splits)
      then obtain a ds b where *: "q = a @ CHR ''$'' # ds @ b" "ds \<noteq> []" "\<forall>c \<in> set ds. is_digit c"
        "b = [] \<or> \<not> is_digit (hd b)" "n = digits_val ds" by blast
      from *(1) have "c # q = (c # a) @ CHR ''$'' # ds @ b" by simp
      with * show ?thesis by blast
    qed
  qed
  with Cons.IH show ?case by simp
qed simp

text \<open>\<open>countParams\<close> is the highest placeholder index of the statement: the largest
  number (of those an \<^verbatim>\<open>int\<close> can hold) that occurs as a maximal digit run behind a
  dollar sign, and 0 when there is none.\<close>

theorem countParams_is_highest_index:
  "countParams q =
     Max (insert 0 {n \<in> {digits_val ds | a ds b. q = a @ CHR ''$'' # ds @ b \<and> ds \<noteq> []
            \<and> (\<forall>c \<in> set ds. is_digit c) \<and> (b = [] \<or> \<not> is_digit (hd b))}. n < 2 ^ 63})"
  unfolding countParams_fold foldl_max param_numbers_set ..

lemma countParams_two: "countParams ''a=$2 b=$1'' = 2"
proof -
  have n: "map (\<lambda>m. group ''a=$2 b=$1'' m 1) (FindAll paramRegex ''a=$2 b=$1'') = [''2'', ''1'']" by code_simp
  have "countParams q = foldl (\<lambda>mx d. case Atoi d of None \<Rightarrow> mx | Some n \<Rightarrow> if mx < n then n else mx) 0
      (map (\<lambda>m. group q m 1) (FindAll paramRegex q))" for q
    by (simp only: countParams_def foldl_map)
  moreover have "Atoi ''1'' = Some 1" "Atoi ''2'' = Some 2"
    by (simp_all add: Atoi_def digits_val_def digit_val_def is_digit_def)
  ultimately show ?thesis by (simp only: n) simp
qed

theorem countParams_is_highest_index_witness:
  "Max (insert 0 {n \<in> {digits_val ds | a ds b. ''a=$2 b=$1'' = a @ CHR ''$'' # ds @ b \<and> ds \<noteq> []
            \<and> (\<forall>c \<in> set ds. is_digit c) \<and> (b = [] \<or> \<not> is_digit (hd b))}. n < 2 ^ 63}) = 2"
  by (simp only: countParams_is_highest_index [symmetric] countParams_two)

text \<open>the keyword of a statement does not depend on how it is written: leading white space
  and parentheses, surrounding white space and letter case make no difference, and a statement
  that begins with a word followed by white space or nothing has that word, in capitals.\<close>

theorem keyword_recognised:
  assumes "\<forall>c \<in> set lead. is_space c \<or> c = CHR ''(''"
    and "w \<noteq> []" "\<forall>c \<in> set w. \<not> is_space c" "hd w \<noteq> CHR ''(''" "rest = [] \<or> is_space (hd rest)"
  shows "leadingKeyword (lead @ w @ rest) = ToUpper w \<and>
    leadingKeyword (ToUpper q) = leadingKeyword q \<and> leadingKeyword (TrimSpace q) = leadingKeyword q"
  using leadingKeyword_skip [OF assms(1)] leadingKeyword_word [OF assms(2-5)]
    leadingKeyword_ToUpper leadingKeyword_TrimSpace by simp

theorem keyword_recognised_witness: "leadingKeyword ('' ( '' @ ''rollback'' @ '' to x'') = ''ROLLBACK''"
proof -
  have "leadingKeyword ('' ( '' @ ''rollback'' @ '' to x'') = ToUpper ''rollback''"
    by (rule keyword_recognised [THEN conjunct1]) (simp_all add: is_space_def)
  moreover have "ToUpper ''rollback'' = ''ROLLBACK''" by code_simp
  ultimately show ?thesis by (rule trans)
qed

lemma objectTag_prefix: "\<exists>r. objectTag q kw = kw @ r"
  by (auto simp: objectTag_def Let_def split: list.splits)

text \<open>The command tag and the transaction status cannot disagree about what a statement did:
  CommandComplete says BEGIN for exactly the statements that begin a transaction block, COMMIT
  for exactly those that commit one, and ROLLBACK for those that lead with that word (which
  leaves ABORT, whose tag is its own name).\<close>

theorem tag_matches_transaction:
  "(commandTag q a r = ''BEGIN'') = isTxBegin (leadingKeyword q) \<and>
   (commandTag q a r = ''COMMIT'') = isTxCommit (leadingKeyword q) \<and>
   (commandTag q a r = ''ROLLBACK'') = (isTxRollback (leadingKeyword q) \<and> leadingKeyword q \<noteq> ''ABORT'')"
proof -
  let ?kw = "leadingKeyword q"
  obtain t where t: "objectTag q ?kw = ?kw @ t" using objectTag_prefix by blast
  show ?thesis
    using t by (auto simp: commandTag_def isTxBegin_def isTxCommit_def isTxRollback_def Let_def)
qed

text \<open>Error codes: every error has a five-character SQLSTATE, wrapping an error in more text
  keeps its code, and a constraint violation gets one of the specific subclasses of class 23
  that drivers handle, never the bare class.\<close>

theorem sqlstate_classes:
  assumes "as_sqlite err = Some (sqErrConstraint, ext)" "\<not> is_in_failed_tx err"
  shows "sqlState err \<in> {''23502'', ''23503'', ''23505'', ''23514''} \<and>
    sqlState (ErrWrap pre e post) = sqlState e \<and> length (sqlState e) = 5"
  using assms by (auto simp: sqlState_def split: option.splits)

theorem sqlstate_classes_witness:
  "sqlState (ErrSqlite 19 (19 + 6 * 256) ''UNIQUE constraint failed'') \<in> {''23502'', ''23503'', ''23505'', ''23514''}"
  using sqlstate_classes [of "ErrSqlite 19 (19 + 6 * 256) ''UNIQUE constraint failed''" "19 + 6 * 256"]
  by (simp add: sq_codes)

end
