(* ===== verification/Rewrite.thy ===== *)
theory Rewrite
  imports Command Sql_Scan
begin

text \<open>
  \<^verbatim>\<open>rewrite.go\<close>: the textual translation of PostgreSQL statements into SQLite's
  dialect, through which both protocol paths send every statement.  Each pattern of the
  file is a syntax tree of \<open>Regex\<close>; the passes are composed by \<open>rewrite\<close> in the order of
  the code.  The scans that the code runs as open loops (\<open>rewriteToChar\<close>,
  \<open>rewriteConcat\<close>) are recursive functions with a termination proof.

  An identifier is followed by the next pass on its own result, as \<^verbatim>\<open>q\<close> is in the code.
\<close>

abbreviation lbrack :: char where "lbrack \<equiv> CHR ''[''"
abbreviation rbrack :: char where "rbrack \<equiv> CHR '']''"
abbreviation lbrace :: char where "lbrace \<equiv> CHR ''{''"
abbreviation rbrace :: char where "rbrace \<equiv> CHR ''}''"
abbreviation dquote :: char where "dquote \<equiv> CHR 0x22"

abbreviation ILit :: "gostr \<Rightarrow> re" where "ILit w \<equiv> RLit True w"
abbreviation CLit :: "gostr \<Rightarrow> re" where "CLit w \<equiv> RLit False w"

section \<open>Patterns\<close>

definition currentDatabaseRegex :: re where
  "currentDatabaseRegex = RSeqs [RWordB, ILit ''current_database'', Sps, ILit ''('', Sps, ILit '')'']"

definition systemFunctionRegex :: re where
  "systemFunctionRegex =
     RSeqs [RWordB,
       RGroup 1 (RAlts [CLit ''current_catalog'', CLit ''current_schema'', CLit ''current_user'',
                        CLit ''session_user'', CLit ''user'']),
       RWordB, RGroup 2 (RAlt (NotIn [lpar]) REnd)]"

definition castRegex :: re where
  "castRegex =
     RSeqs [CLit ''::'', Sps,
       RAlt (RSeqs [CLit [dquote], RStar True (NotIn [dquote]), CLit [dquote]])
            (RSeq Wds1 (ROpt (RSeq (CLit ''.'') Wds1))),
       ROpt (RSeqs [Sps, CLit ''('', RStar True (NotIn [rpar]), CLit '')'']),
       RStar True (RSeq Sps (CLit ''[]''))]"

definition pgCatalogRegex :: re where
  "pgCatalogRegex = RSeqs [RWordB, ILit ''pg_catalog.'']"

definition informationSchemaRegex :: re where
  "informationSchemaRegex = RSeqs [RWordB, ILit ''information_schema.'']"

definition showRegex :: re where
  "showRegex = RSeqs [RBegin, Sps, ILit ''SHOW'', Sps1, RGroup 1 Wds1]"

definition databaseDDLRegex :: re where
  "databaseDDLRegex =
     RSeqs [RBegin, Sps, RGroup 1 (RAlt (ILit ''CREATE'') (ILit ''DROP'')), Sps1, ILit ''DATABASE'', RWordB]"

definition operatorRegex :: re where
  "operatorRegex =
     RSeqs [ILit ''OPERATOR'', Sps, ILit ''('', Sps, ROpt (ILit ''pg_catalog.''), Sps,
       RGroup 1 (RPlus (RCls False (Cls True [CChar rpar, CSpace]))), Sps, ILit '')'']"

definition anyArrayRegex :: re where
  "anyArrayRegex =
     RSeqs [ILit ''='', Sps, ILit ''ANY'', Sps, ILit ''('', Sps, ILit ''ARRAY['',
       RGroup 1 (RStar True (NotIn [rbrack])), ILit '']'', Sps, ILit '')'']"

definition anyBraceRegex :: re where
  "anyBraceRegex =
     RSeqs [ILit ''='', Sps, ILit ''ANY'', Sps, ILit ''('', Sps, ILit [quote, lbrace],
       RGroup 1 (RStar True (NotIn [rbrace])), ILit [rbrace, quote], Sps,
       ROpt (RSeqs [ILit ''::'', Sps,
         RPlus (RCls False (Cls False [CWord, CChar dquote, CChar (CHR ''.''), CChar lbrack, CChar rbrack, CChar (CHR '' '')]))]),
       ILit '')'']"

definition stringAggRegex :: re where
  "stringAggRegex = RSeqs [RWordB, ILit ''string_agg'', Sps, ILit ''('']"

definition concatRegex :: re where
  "concatRegex = RSeqs [RWordB, ILit ''concat'', Sps, ILit ''('']"

definition unnestRegex :: re where
  "unnestRegex =
     RSeqs [ROpt (RSeq (ILit ''LATERAL'') Sps1), ILit ''UNNEST'', Sps, ILit ''('', Sps,
       RGroup 1 (RStar False (NotIn [lpar, rpar])), Sps, ILit '')'', Sps,
       ROpt (RSeqs [ILit ''WITH'', Sps1, ILit ''ORDINALITY'', Sps1]),
       ROpt (RSeq (ILit ''AS'') Sps1),
       RGroup 2 Wds1, Sps, ILit ''('', Sps, RGroup 3 Wds1, Sps,
       ROpt (RSeqs [ILit '','', Sps, RGroup 4 Wds1, Sps]), ILit '')'']"

definition regclassOidRegex :: re where
  "regclassOidRegex =
     RSeqs [ILit [quote], RGroup 1 (RStar True (NotIn [quote])), ILit [quote], Sps, ILit ''::'', Sps,
       ILit ''regclass'', RWordB]"

definition regclassNameRegex :: re where
  "regclassNameRegex =
     RSeqs [RWordB, RGroup 1 (RSeq Wds1 (ROpt (RSeq (ILit ''.'') Wds1))), Sps, ILit ''::'', Sps,
       ILit ''regclass'',
       ROpt (RSeqs [Sps, ILit ''::'', Sps, RAlts [ILit ''text'', ILit ''varchar'', ILit ''name'']])]"

definition keywordsCallRegex :: re where
  "keywordsCallRegex = RSeqs [RWordB, ILit ''pg_get_keywords'', Sps, ILit ''('', Sps, ILit '')'']"

definition atTimeZoneRegex :: re where
  "atTimeZoneRegex =
     RSeqs [Sps1, ILit ''AT'', Sps1, ILit ''TIME'', Sps1, ILit ''ZONE'', Sps1,
       RAlts [RSeqs [ILit [quote], RStar True (NotIn [quote]), ILit [quote]],
              RSeqs [ILit [dquote], RStar True (NotIn [dquote]), ILit [dquote]],
              RSeqs [Wds1, Sps, ILit ''('', RStar True (NotIn [rpar]), ILit '')''],
              RSeq Wds1 (ROpt (RSeq (ILit ''.'') Wds1))]]"

definition toCharRegex :: re where
  "toCharRegex = RSeqs [RWordB, ILit ''to_char'', Sps, ILit ''('']"

definition ilikeRegex :: re where
  "ilikeRegex = RSeqs [RWordB, ILit ''ilike'', RWordB]"

text \<open>The pattern built for a column of an UNNEST alias; the names are quoted.\<close>

definition aliasColRegex :: "gostr \<Rightarrow> gostr \<Rightarrow> re" where
  "aliasColRegex al col = RSeqs [RWordB, CLit al, CLit ''.'', CLit col, RWordB]"

subsection \<open>Patterns of the DDL translation\<close>

definition createSequenceRegex :: re where
  "createSequenceRegex =
     RSeqs [RBegin, Sps, ILit ''CREATE'', Sps1,
       ROpt (RSeqs [ILit ''TEMP'', ROpt (ILit ''ORARY''), Sps1]), ILit ''SEQUENCE'', RWordB]"

definition alterSequenceRegex :: re where
  "alterSequenceRegex = RSeqs [RBegin, Sps, ILit ''ALTER'', Sps1, ILit ''SEQUENCE'', RWordB]"

definition dropSequenceRegex :: re where
  "dropSequenceRegex = RSeqs [RBegin, Sps, ILit ''DROP'', Sps1, ILit ''SEQUENCE'', RWordB]"

definition serialRegex :: re where
  "serialRegex = RSeqs [RWordB, ROpt (RAlt (ILit ''big'') (ILit ''small'')), ILit ''serial'', RWordB]"

definition nextvalDefaultRegex :: re where
  "nextvalDefaultRegex =
     RSeqs [Sps1, ILit ''DEFAULT'', Sps1, ILit ''nextval('', RStar True (NotIn [rpar]), ILit '')'']"

abbreviation word_re :: "gostr \<Rightarrow> re" where
  "word_re w \<equiv> RSeqs [RWordB, ILit w, RWordB]"

abbreviation paren_group :: re where
  "paren_group \<equiv> RGroup 1 (RSeqs [ILit ''('', RStar True (NotIn [rpar]), ILit '')''])"

definition ddlTypeMappings :: "(re \<times> gostr) list" where
  "ddlTypeMappings =
     [(RSeqs [RWordB, ILit ''timestamp'', Sps1, ILit ''with'', ROpt (ILit ''out''), Sps1, ILit ''time'', Sps1, ILit ''zone'', RWordB], ''TIMESTAMP''),
      (word_re ''timestamptz'', ''TIMESTAMP''),
      (RSeqs [RWordB, ILit ''time'', Sps1, ILit ''with'', ROpt (ILit ''out''), Sps1, ILit ''time'', Sps1, ILit ''zone'', RWordB], ''TIME''),
      (word_re ''timetz'', ''TIME''),
      (RSeqs [RWordB, ILit ''character'', Sps1, ILit ''varying'', Sps, ROpt paren_group], ''VARCHAR$1''),
      (RSeqs [RWordB, ILit ''character'', Sps, paren_group], ''CHAR$1''),
      (word_re ''bpchar'', ''TEXT''),
      (RSeqs [RWordB, ILit ''double'', Sps1, ILit ''precision'', RWordB], ''REAL''),
      (word_re ''bytea'', ''BLOB''),
      (word_re ''boolean'', ''BOOLEAN''),
      (word_re ''bigint'', ''INTEGER''),
      (word_re ''smallint'', ''INTEGER''),
      (word_re ''int8'', ''INTEGER''),
      (word_re ''int4'', ''INTEGER''),
      (word_re ''int2'', ''INTEGER''),
      (word_re ''integer'', ''INTEGER''),
      (RSeqs [RWordB, ILit ''json'', ROpt (ILit ''b''), RWordB], ''TEXT''),
      (word_re ''uuid'', ''TEXT''),
      (RSeqs [RWordB, RAlts [ILit ''inet'', ILit ''cidr'', ILit ''macaddr''], RWordB], ''TEXT'')]"

section \<open>The passes\<close>

definition translateDDL :: "gostr \<Rightarrow> gostr" where
  "translateDDL q =
     (let kw = leadingKeyword q;
          body = (let q1 = ReplaceAllString serialRegex q ''INTEGER'';
                      q2 = ReplaceAllString nextvalDefaultRegex q1 []
                  in foldl (\<lambda>q (re, repl). ReplaceAllString re q repl) q2 ddlTypeMappings) in
      if kw = ''CREATE'' then
        (if MatchString createSequenceRegex q then ''SELECT 'CREATE SEQUENCE'' @ [quote] else body)
      else if kw = ''ALTER'' then
        (if MatchString alterSequenceRegex q then ''SELECT 'ALTER SEQUENCE'' @ [quote] else body)
      else if kw = ''DROP'' then
        (if MatchString dropSequenceRegex q then ''SELECT 'DROP SEQUENCE'' @ [quote] else q)
      else q)"

definition unwrapOperator :: "gostr \<Rightarrow> gostr" where
  "unwrapOperator mt =
     (case find operatorRegex mt of
        None \<Rightarrow> mt
      | Some m \<Rightarrow>
          (let op = group mt m 1 in
           if op = ''~~'' \<or> op = ''~~*'' then '' LIKE ''
           else if op = ''!~~'' \<or> op = ''!~~*'' then '' NOT LIKE ''
           else if op = ''~'' \<or> op = ''~*'' then '' REGEXP ''
           else if op = ''!~'' \<or> op = ''!~*'' then '' NOT REGEXP ''
           else '' '' @ op @ '' ''))"

definition brace_element :: "gostr \<Rightarrow> gostr" where
  "brace_element p = sqlStringLiteral (Trim (TrimSpace p) [dquote])"

definition rewriteAnyBrace :: "gostr \<Rightarrow> gostr" where
  "rewriteAnyBrace mt =
     (case find anyBraceRegex mt of
        None \<Rightarrow> mt
      | Some m \<Rightarrow>
          (let inner = TrimSpace (group mt m 1) in
           if inner = [] then ''IN (NULL)''
           else ''IN ('' @ Join (map brace_element (SplitChar inner comma)) '', '' @ '')''))"

definition pgToStrftime :: "gostr \<Rightarrow> gostr" where
  "pgToStrftime =
     replacer
       [(''TZH:TZM'', ''+00:00''), (''HH24'', ''%H''), (''HH12'', ''%I''), (''YYYY'', ''%Y''),
        (''TZH'', ''+00''), (''TZM'', ''00''), (''US'', ''%f''), (''MS'', ''%f''), (''MM'', ''%m''),
        (''DD'', ''%d''), (''HH'', ''%H''), (''MI'', ''%M''), (''SS'', ''%S''), (''YY'', ''%Y'')]"

definition is_quoted :: "gostr \<Rightarrow> bool" where
  "is_quoted f \<longleftrightarrow> 2 \<le> length f \<and> f ! 0 = quote \<and> f ! (length f - 1) = quote"

definition strftime_call :: "gostr \<Rightarrow> gostr \<Rightarrow> gostr" where
  "strftime_call expr format =
     ''strftime('' @ [quote] @ pgToStrftime (slice format 1 (length format - 1)) @ [quote] @ '', '' @ expr @ '')''"

lemma toChar_bounds [go_bounds]:
  "find toCharRegex s = Some m \<Longrightarrow> mstart m + 8 \<le> mend m \<and> mend m \<le> length s"
  using find_Some(3,4) [of toCharRegex s m] by (simp add: toCharRegex_def)

text \<open>The loop of \<open>rewriteToChar\<close> from position \<open>from\<close>.\<close>

function to_char_loop :: "gostr \<Rightarrow> nat \<Rightarrow> gostr" where
  "to_char_loop q pos =
     (if pos \<le> length q then
        (case find toCharRegex (drop pos q) of
           None \<Rightarrow> q
         | Some m \<Rightarrow>
             (let start = pos + mstart m; opn = pos + mend m - 1 in
              case matchParen q opn of
                None \<Rightarrow> q
              | Some e \<Rightarrow>
                  (let args = splitArgs (slice q (opn + 1) e) in
                   if length args = 2 \<and> is_quoted (TrimSpace (args ! 1)) then
                     (let repl = strftime_call (TrimSpace (args ! 0)) (TrimSpace (args ! 1))
                      in to_char_loop (take start q @ repl @ drop (e + 1) q) (start + length repl))
                   else to_char_loop q (e + 1))))
      else q)"
  by pat_completeness auto
termination
proof (relation "measure (\<lambda>(q, pos). Suc (length q) - pos)", goal_cases)
  case 1
  show ?case by simp
next
  case (2 q pos m x xa e xb xc)
  then have "pos + mstart m \<le> length q" "pos < e" "e < length q"
    using toChar_bounds [of "drop pos q" m] matchParen_bounds [of q "pos + mend m - 1" e] by auto
  with 2 show ?case by simp
next
  case (3 q pos m x xa e xb)
  then have "pos < e" "e < length q"
    using toChar_bounds [of "drop pos q" m] matchParen_bounds [of q "pos + mend m - 1" e] by auto
  then show ?case by simp
qed

declare to_char_loop.simps [simp del]

definition rewriteToChar :: "gostr \<Rightarrow> gostr" where
  "rewriteToChar q = to_char_loop q 0"

text \<open>The text a CONCAT call is replaced by.\<close>

definition coalesce :: "gostr \<Rightarrow> gostr" where
  "coalesce a = ''COALESCE('' @ TrimSpace a @ '','' @ [quote, quote] @ '')''"

definition concat_expr :: "gostr list \<Rightarrow> gostr" where
  "concat_expr args =
     ''('' @ Join (map coalesce args) '' || '' @ '')''"

text \<open>The number of places where the word \<open>concat\<close> stands, in any case; every pass of the
  loop removes one.\<close>

definition concat_here :: "gostr \<Rightarrow> bool" where
  "concat_here s \<longleftrightarrow> ToLower (take 6 s) = ''concat''"

fun concats :: "gostr \<Rightarrow> nat" where
  "concats [] = 0"
| "concats (c # cs) = (if concat_here (c # cs) then 1 else 0) + concats cs"

lemma concat_here_length: "concat_here s \<Longrightarrow> 6 \<le> length s"
  by (drule arg_cong [of _ _ length, OF concat_here_def [THEN iffD1]]) (simp add: ToLower_def)

lemma concat_here_append: "concat_here s \<Longrightarrow> concat_here (s @ t)"
  using concat_here_length by (fastforce simp: concat_here_def)

lemma concats_append_le: "concats a + concats b \<le> concats (a @ b)"
proof (induction a)
  case (Cons c a)
  with concat_here_append [of "c # a" b] show ?case by auto
qed simp

abbreviation non_concat :: "char \<Rightarrow> bool" where
  "non_concat c \<equiv> lower_char c \<notin> set ''concat''"

lemma concats_sep: "non_concat c \<Longrightarrow> concats (a @ c # b) = concats a + concats b"
proof (induction a)
  case Nil
  have "\<not> concat_here (c # b)"
    using Nil by (auto simp: concat_here_def ToLower_def numeral_eq_Suc)
  then show ?case by simp
next
  case (Cons x a)
  have "concat_here (x # a @ c # b) \<longleftrightarrow> concat_here (x # a)"
  proof (cases "6 \<le> length (x # a)")
    case True
    then have "take 6 ((x # a) @ c # b) = take 6 (x # a)" by simp
    then show ?thesis by (simp add: concat_here_def)
  next
    case False
    then have "c \<in> set (take 6 ((x # a) @ c # b))"
      unfolding take_append by (auto simp: take_Cons')
    then have "lower_char c \<in> set (ToLower (take 6 (x # a @ c # b)))"
      unfolding ToLower_def set_map by (intro imageI) simp
    then have "\<not> concat_here (x # a @ c # b)" using Cons.prems by (auto simp: concat_here_def)
    moreover have "\<not> concat_here (x # a)" using False concat_here_length by blast
    ultimately show ?thesis by simp
  qed
  with Cons show ?case by simp
qed

lemma non_concat_chars: "non_concat lpar" "non_concat rpar" "non_concat comma" "non_concat quote"
  "non_concat (CHR '' '')" "non_concat (CHR ''|'')"
  by code_simp+

lemmas concats_seps = concats_sep [OF non_concat_chars(1)] concats_sep [OF non_concat_chars(2)]
  concats_sep [OF non_concat_chars(3)] concats_sep [OF non_concat_chars(4)]
  concats_sep [OF non_concat_chars(5)] concats_sep [OF non_concat_chars(6)]

lemmas concats_lead = concats_seps [of "[]", simplified]

lemma concats_coalesce: "concats ''COALESCE'' = 0"
  by code_simp

lemma concats_TrimSpace: "concats (TrimSpace s) \<le> concats s"
proof -
  obtain a b where ab: "s = a @ TrimSpace s @ b" using TrimSpace_sub by blast
  have "concats (TrimSpace s) \<le> concats (a @ TrimSpace s @ b)"
    using concats_append_le [of a "TrimSpace s @ b"] concats_append_le [of "TrimSpace s" b] by linarith
  then show ?thesis using ab by simp
qed

lemma concats_coalesce_arg: "concats (coalesce a) \<le> concats a"
proof -
  have "concats (coalesce a) = concats (''COALESCE'' @ lpar # (TrimSpace a @ comma # [quote] @ quote # [] @ rpar # []))"
    by (simp add: coalesce_def del: concats.simps)
  also have "\<dots> = concats (TrimSpace a)"
    unfolding concats_seps concats_coalesce by (simp add: concats_lead)
  finally show ?thesis using concats_TrimSpace by simp
qed

lemma concats_Join_comma: "concats (Join as [comma]) = sum_list (map concats as)"
  by (induction as rule: induct_list012) (simp_all add: concats_seps)

lemma concats_Join_bars: "concats (Join as '' || '') = sum_list (map concats as)"
proof (induction as rule: induct_list012)
  case (3 x y zs)
  have "concats (Join (x # y # zs) '' || '') =
      concats (x @ CHR '' '' # [] @ CHR ''|'' # [] @ CHR ''|'' # [] @ CHR '' '' # Join (y # zs) '' || '')"
    by (simp del: concats.simps)
  also have "\<dots> = concats x + concats (Join (y # zs) '' || '')"
    unfolding concats_seps by simp
  finally show ?case using 3 by simp
qed simp_all

lemma concats_concat_expr: "concats (concat_expr args) \<le> concats (Join args [comma])"
proof -
  have "concats (concat_expr args) = concats ([] @ lpar # Join (map coalesce args) '' || '' @ rpar # [])"
    by (simp add: concat_expr_def del: concats.simps)
  also have "\<dots> = sum_list (map (concats \<circ> coalesce) args)"
    unfolding concats_seps concats_Join_bars by (simp add: concats_lead)
  also have "\<dots> \<le> sum_list (map concats args)"
    by (intro sum_list_mono) (simp add: concats_coalesce_arg)
  finally show ?thesis by (simp add: concats_Join_comma)
qed

text \<open>A match of the pattern starts with the word.\<close>

lemma concat_match:
  assumes "find concatRegex q = Some m"
  shows "concat_here (drop (mstart m) q)" "mstart m + 7 \<le> mend m" "mend m \<le> length q"
proof -
  note f = find_Some [OF assms]
  from f(3,4) show b: "mstart m + 7 \<le> mend m" "mend m \<le> length q"
    by (simp_all add: concatRegex_def)
  let ?i = "mstart m"
  have i: "?i \<le> length q" using b by linarith
  have "matches concatRegex (cursor_at q ?i, []) \<noteq> []"
    using f(1) by (auto simp: match_here_def split: list.splits)
  then have "lit_at True ''concat'' q ?i"
    unfolding concatRegex_def RSeqs.simps matches.simps(7) matches_wordb_at
    using matches_lit_at [OF i] by (auto split: if_splits simp del: matches.simps(2))
  from lit_at_ToLower [OF this] have "ToLower (take 6 (drop ?i q)) = ToLower ''concat''"
    by (simp add: slice_def)
  also have "ToLower ''concat'' = ''concat''" by code_simp
  finally show "concat_here (drop ?i q)" by (simp add: concat_here_def)
qed

lemma concats_pos: "concat_here s \<Longrightarrow> 0 < concats s"
  by (cases s) (auto simp: concat_here_def ToLower_def)

lemma concats_step:
  assumes "find concatRegex q = Some m" "matchParen q (mend m - 1) = Some e"
  shows "concats (take (mstart m) q @ concat_expr (splitArgs (slice q (mend m) e)) @ drop (e + 1) q) < concats q"
proof -
  note c = concat_match [OF assms(1)]
  note e = matchParen_bounds [OF assms(2)]
  let ?st = "mstart m" and ?o = "mend m"
  let ?args = "splitArgs (slice q ?o e)"
  obtain inner where inner: "concat_expr ?args = lpar # inner @ [rpar]"
    by (simp add: concat_expr_def)
  have "concats (concat_expr ?args) = concats inner"
    using concats_seps(1) [of "[]" "inner @ rpar # []"] concats_seps(2) [of inner "[]"] inner
    by (simp del: concats.simps(2))
  then have i: "concats inner \<le> concats (slice q ?o e)"
    using concats_concat_expr [of ?args] by (simp add: splitArgs_join)
  have "concats (take ?st q @ concat_expr ?args @ drop (e + 1) q) =
      concats (take ?st q @ lpar # inner @ rpar # drop (e + 1) q)" by (simp add: inner)
  also have "\<dots> = concats (take ?st q) + concats inner + concats (drop (e + 1) q)"
    unfolding concats_seps by simp
  also have "\<dots> < concats (take ?st q) + concats (slice q ?st ?o) + concats (slice q ?o e) + concats (drop (e + 1) q)"
  proof -
    have "take 6 (slice q ?st ?o) = take 6 (drop ?st q)"
      using c(2) by (simp add: slice_def min_def)
    then have "concat_here (slice q ?st ?o)" using c(1) by (simp add: concat_here_def)
    then have "0 < concats (slice q ?st ?o)" by (rule concats_pos)
    with i show ?thesis by linarith
  qed
  also have "\<dots> \<le> concats (take ?st q @ slice q ?st ?o @ slice q ?o e @ drop (max e ?o) q)"
  proof -
    have "concats (drop (e + 1) q) \<le> concats (drop (max e ?o) q)"
    proof (cases "?o \<le> e")
      case True
      then show ?thesis using e by (simp add: Cons_nth_drop_Suc [symmetric] max_def)
    next
      case False
      with e c(2) have "e + 1 = ?o" by linarith
      with False show ?thesis by (simp add: max_def)
    qed
    then show ?thesis
      using concats_append_le [of "take ?st q" "slice q ?st ?o @ slice q ?o e @ drop (max e ?o) q"]
        concats_append_le [of "slice q ?st ?o" "slice q ?o e @ drop (max e ?o) q"]
        concats_append_le [of "slice q ?o e" "drop (max e ?o) q"] by linarith
  qed
  also have "take ?st q @ slice q ?st ?o @ slice q ?o e @ drop (max e ?o) q = q"
  proof (cases "?o \<le> e")
    case True
    then show ?thesis using c(2) by (simp add: slice_drop max_def)
  next
    case False
    then show ?thesis using c(2) by (simp add: slice_drop max_def) (simp add: slice_def slice_drop [unfolded slice_def])
  qed
  finally show ?thesis .
qed

function rewriteConcat :: "gostr \<Rightarrow> gostr" where
  "rewriteConcat q =
     (case find concatRegex q of
        None \<Rightarrow> q
      | Some m \<Rightarrow>
          (case matchParen q (mend m - 1) of
             None \<Rightarrow> q
           | Some e \<Rightarrow>
               rewriteConcat
                 (take (mstart m) q @ concat_expr (splitArgs (slice q (mend m) e)) @ drop (e + 1) q)))"
  by pat_completeness auto
termination
  by (relation "measure concats") (use concats_step in \<open>simp_all del: concats.simps\<close>)

declare rewriteConcat.simps [simp del]

record rename = ralias :: gostr  rvalCol :: gostr  rordCol :: gostr

definition unnest_rename :: "gostr \<Rightarrow> rmatch \<Rightarrow> rename" where
  "unnest_rename s m = \<lparr>ralias = group s m 2, rvalCol = group s m 3, rordCol = group s m 4\<rparr>"

text \<open>The callback of \<open>rewriteUnnest\<close> matches the matched text again, as the code does.\<close>

definition unnest_text :: "gostr \<Rightarrow> gostr" where
  "unnest_text mt =
     (case find unnestRegex mt of
        None \<Rightarrow> []
      | Some m \<Rightarrow> ''json_each(COALESCE('' @ group mt m 1 @ '','' @ [quote] @ ''[]'' @ [quote] @ '')) '' @ group mt m 2)"

definition unnest_renames :: "gostr \<Rightarrow> rename list" where
  "unnest_renames q =
     List.map_filter
       (\<lambda>m. let mt = group q m 0 in map_option (unnest_rename mt) (find unnestRegex mt))
       (FindAll unnestRegex q)"

definition apply_rename :: "gostr \<Rightarrow> rename \<Rightarrow> gostr" where
  "apply_rename q r =
     (let q1 = ReplaceAllString (aliasColRegex (ralias r) (rvalCol r)) q (ralias r @ ''.value'') in
      if rordCol r \<noteq> []
      then ReplaceAllString (aliasColRegex (ralias r) (rordCol r)) q1 (''('' @ ralias r @ ''.key + 1)'')
      else q1)"

definition rewriteUnnest :: "gostr \<Rightarrow> gostr" where
  "rewriteUnnest q = foldl apply_rename (ReplaceAllStringFunc unnestRegex q unnest_text) (unnest_renames q)"

definition show_call :: "gostr \<Rightarrow> gostr" where
  "show_call mt =
     (let name = ToLower (case find showRegex mt of None \<Rightarrow> [] | Some m \<Rightarrow> group mt m 1)
      in ''SELECT show('' @ [quote] @ name @ [quote] @ '') AS '' @ [dquote] @ name @ [dquote])"

section \<open>The composition\<close>

definition rewrite_passes :: "gostr \<Rightarrow> gostr" where
  "rewrite_passes q0 =
     (let q = translateDDL q0;
          q = ReplaceAllStringFunc operatorRegex q unwrapOperator;
          q = ReplaceAllString ilikeRegex q ''LIKE'';
          q = ReplaceAllString anyArrayRegex q ''IN ($1)'';
          q = ReplaceAllStringFunc anyBraceRegex q rewriteAnyBrace;
          q = ReplaceAllString atTimeZoneRegex q [];
          q = rewriteToChar q;
          q = ReplaceAllString stringAggRegex q ''group_concat('';
          q = rewriteConcat q;
          q = rewriteUnnest q;
          q = ReplaceAllString regclassOidRegex q (''(SELECT oid FROM pg_class WHERE relname = '' @ [quote] @ ''$1'' @ [quote] @ '')'');
          q = ReplaceAllString regclassNameRegex q ''(SELECT relname FROM pg_class WHERE oid = $1)'';
          q = ReplaceAllString pgCatalogRegex q [];
          q = ReplaceAllString informationSchemaRegex q ''information_schema_'';
          q = ReplaceAllString keywordsCallRegex q ''pg_get_keywords'';
          q = ReplaceAllString castRegex q [];
          q = ReplaceAllString systemFunctionRegex q ''$1()$2''
      in ReplaceAllStringFunc showRegex q show_call)"

definition rewrite :: "gostr \<Rightarrow> gostr" where
  "rewrite q =
     (let trimmed = TrimSpace q in
      if leadingKeyword trimmed \<in> {''SET'', ''RESET''} then ''SELECT 'SET'' @ [quote]
      else (case find databaseDDLRegex trimmed of
              Some m \<Rightarrow> ''SELECT '' @ [quote] @ ToUpper (group trimmed m 1) @ '' DATABASE'' @ [quote]
            | None \<Rightarrow> rewrite_passes q))"

text \<open>\<^verbatim>\<open>(*Conn).rewrite\<close> with the connection's database name.\<close>

definition conn_rewrite :: "gostr \<Rightarrow> gostr \<Rightarrow> gostr" where
  "conn_rewrite database q =
     (let q' = rewrite q in
      if database \<noteq> [] then ReplaceAllString currentDatabaseRegex q' (sqlStringLiteral database) else q')"

section \<open>Statements the rewriter leaves alone\<close>

text \<open>The interface of a pass: it changes nothing in a text that mentions none of its
  words (compared without case).\<close>

locale rewrite_pass =
  fixes pass :: "gostr \<Rightarrow> gostr" and triggers :: "gostr list"
  assumes idle: "\<not> mentions q triggers \<Longrightarrow> pass q = q"
begin

lemma idle_among: "set triggers \<subseteq> set ws \<Longrightarrow> \<not> mentions q ws \<Longrightarrow> pass q = q"
  using idle mentions_mono by blast

lemma fires: "pass q \<noteq> q \<Longrightarrow> mentions q triggers"
  using idle by blast

lemma iterate_idle: "\<not> mentions q triggers \<Longrightarrow> (pass ^^ n) q = q"
  by (induction n) (simp_all add: idle)

end

lemma string_pass: "needs r ws \<Longrightarrow> \<not> mentions q ws \<Longrightarrow> ReplaceAllString r q t = q"
  by (simp add: needs_no_match ReplaceAllString_no_match)

lemma string_func_pass: "needs r ws \<Longrightarrow> \<not> mentions q ws \<Longrightarrow> ReplaceAllStringFunc r q f = q"
  by (simp add: needs_no_match ReplaceAllStringFunc_no_match)

lemma needs_find_None: "needs r ws \<Longrightarrow> \<not> mentions q ws \<Longrightarrow> find r q = None"
  using needs_no_match by (auto simp: MatchString_def)

lemma FindAll_None: "find r s = None \<Longrightarrow> FindAll r s = []"
  by (simp add: FindAll_def all_matches.simps find_search_from)

interpretation operator_pass: rewrite_pass "\<lambda>q. ReplaceAllStringFunc operatorRegex q unwrapOperator" "[''operator'']"
  by unfold_locales (rule string_func_pass [rotated], assumption, code_simp)

interpretation ilike_pass: rewrite_pass "\<lambda>q. ReplaceAllString ilikeRegex q ''LIKE''" "[''ilike'']"
  by unfold_locales (rule string_pass [rotated], assumption, code_simp)

interpretation any_array_pass: rewrite_pass "\<lambda>q. ReplaceAllString anyArrayRegex q ''IN ($1)''" "[''array['']"
  by unfold_locales (rule string_pass [rotated], assumption, code_simp)

interpretation any_brace_pass: rewrite_pass "\<lambda>q. ReplaceAllStringFunc anyBraceRegex q rewriteAnyBrace" "[[quote, lbrace]]"
  by unfold_locales (rule string_func_pass [rotated], assumption, code_simp)

interpretation at_time_zone_pass: rewrite_pass "\<lambda>q. ReplaceAllString atTimeZoneRegex q []" "[''zone'']"
  by unfold_locales (rule string_pass [rotated], assumption, code_simp)

interpretation to_char_pass: rewrite_pass rewriteToChar "[''to_char'']"
proof
  fix q assume q: "\<not> mentions q [''to_char'']"
  have "needs toCharRegex [''to_char'']" by code_simp
  from needs_find_None [OF this q] show "rewriteToChar q = q"
    by (simp add: rewriteToChar_def to_char_loop.simps)
qed

interpretation string_agg_pass: rewrite_pass "\<lambda>q. ReplaceAllString stringAggRegex q ''group_concat(''" "[''string_agg'']"
  by unfold_locales (rule string_pass [rotated], assumption, code_simp)

interpretation concat_pass: rewrite_pass rewriteConcat "[''concat'']"
proof
  fix q assume q: "\<not> mentions q [''concat'']"
  have "needs concatRegex [''concat'']" by code_simp
  from needs_find_None [OF this q] show "rewriteConcat q = q"
    by (simp add: rewriteConcat.simps)
qed

interpretation unnest_pass: rewrite_pass rewriteUnnest "[''unnest'']"
proof
  fix q assume q: "\<not> mentions q [''unnest'']"
  have n: "needs unnestRegex [''unnest'']" by code_simp
  from needs_find_None [OF n q] string_func_pass [OF n q] show "rewriteUnnest q = q"
    by (simp add: rewriteUnnest_def unnest_renames_def FindAll_None List.map_filter_def)
qed

interpretation regclass_oid_pass:
  rewrite_pass "\<lambda>q. ReplaceAllString regclassOidRegex q t" "[''regclass'']" for t
  by unfold_locales (rule string_pass [rotated], assumption, code_simp)

interpretation regclass_name_pass:
  rewrite_pass "\<lambda>q. ReplaceAllString regclassNameRegex q t" "[''regclass'']" for t
  by unfold_locales (rule string_pass [rotated], assumption, code_simp)

interpretation pg_catalog_pass: rewrite_pass "\<lambda>q. ReplaceAllString pgCatalogRegex q []" "[''pg_catalog.'']"
  by unfold_locales (rule string_pass [rotated], assumption, code_simp)

interpretation information_schema_pass:
  rewrite_pass "\<lambda>q. ReplaceAllString informationSchemaRegex q ''information_schema_''" "[''information_schema.'']"
  by unfold_locales (rule string_pass [rotated], assumption, code_simp)

interpretation keywords_pass:
  rewrite_pass "\<lambda>q. ReplaceAllString keywordsCallRegex q ''pg_get_keywords''" "[''pg_get_keywords'']"
  by unfold_locales (rule string_pass [rotated], assumption, code_simp)

interpretation cast_pass: rewrite_pass "\<lambda>q. ReplaceAllString castRegex q []" "[''::'']"
  by unfold_locales (rule string_pass [rotated], assumption, code_simp)

interpretation system_function_pass:
  rewrite_pass "\<lambda>q. ReplaceAllString systemFunctionRegex q ''$1()$2''" "[''current_catalog'', ''current_schema'', ''user'']"
  by unfold_locales (rule string_pass [rotated], assumption, code_simp)

interpretation current_database_pass:
  rewrite_pass "\<lambda>q. ReplaceAllString currentDatabaseRegex q t" "[''current_database'']" for t
  by unfold_locales (rule string_pass [rotated], assumption, code_simp)

text \<open>The words of the passes of \<open>rewrite\<close> except the last textual one, and all words.\<close>

definition pass_words :: "gostr list" where
  "pass_words =
     [''operator'', ''ilike'', ''array['', [quote, lbrace], ''zone'', ''to_char'', ''string_agg'', ''concat'',
      ''unnest'', ''regclass'', ''pg_catalog.'', ''information_schema.'', ''pg_get_keywords'', ''::'']"

definition dialect_words :: "gostr list" where
  "dialect_words = pass_words @ [''current_catalog'', ''current_schema'', ''user'', ''current_database'']"

text \<open>The anchored patterns, by their keyword.\<close>

lemma matches_lit_keyword:
  "i \<le> length s \<Longrightarrow> st' \<in> set (matches (ILit w) (cursor_at s i, g)) \<Longrightarrow>
     lit_at True w s i \<and> st' = (cursor_at s (i + length w), g)"
  using matches_lit_at [of i s True w g] by (simp split: if_splits del: matches.simps)

lemma show_keyword: "find showRegex q = Some m \<Longrightarrow> leadingKeyword q = ''SHOW''"
  using anchored_keyword [of "ILit ''SHOW''" "RSeqs [RGroup 1 Wds1]" q m "[''SHOW'']"] matches_lit_keyword
  by (fastforce simp: showRegex_def is_upper_def)

lemma database_keyword: "find databaseDDLRegex q = Some m \<Longrightarrow> leadingKeyword q \<in> {''CREATE'', ''DROP''}"
proof -
  assume f: "find databaseDDLRegex q = Some m"
  let ?kw = "RGroup 1 (RAlt (ILit ''CREATE'') (ILit ''DROP''))"
  have "leadingKeyword q \<in> set [''CREATE'', ''DROP'']"
  proof (rule anchored_keyword [of ?kw "RSeqs [ILit ''DATABASE'', RWordB]" q m])
    show "find (RSeq RBegin (RSeq Sps (RSeq ?kw (RSeq Sps1 (RSeqs [ILit ''DATABASE'', RWordB]))))) q = Some m"
      using f by (simp add: databaseDDLRegex_def)
  next
    fix i g st' assume i: "i \<le> length q" and "st' \<in> set (matches ?kw (cursor_at q i, g))"
    then obtain k g' w where "w \<in> {''CREATE'', ''DROP''}" "(k, g') \<in> set (matches (ILit w) (cursor_at q i, g))"
      "st' = (k, (1, i, cpos k) # g')"
      by (auto simp del: matches.simps(2))
    with matches_lit_keyword [OF i this(2)]
    show "\<exists>w \<in> set [''CREATE'', ''DROP'']. lit_at True w q i \<and> (\<exists>g'. st' = (cursor_at q (i + length w), g'))"
      by auto
  next
    show "list_all (\<lambda>w. w \<noteq> [] \<and> list_all is_upper w) [''CREATE'', ''DROP'']" by code_simp
  qed
  then show ?thesis by simp
qed

lemma translateDDL_other:
  "leadingKeyword q \<notin> {''CREATE'', ''ALTER'', ''DROP''} \<Longrightarrow> translateDDL q = q"
  by (auto simp: translateDDL_def Let_def)

lemma show_pass: "leadingKeyword q \<noteq> ''SHOW'' \<Longrightarrow> ReplaceAllStringFunc showRegex q f = q"
  using show_keyword [of q] by (intro ReplaceAllStringFunc_no_match) (cases "find showRegex q"; simp add: MatchString_def)

lemma pass_subsets:
  "set [''operator''] \<subseteq> set pass_words" "set [''ilike''] \<subseteq> set pass_words"
  "set [''array[''] \<subseteq> set pass_words" "set [[quote, lbrace]] \<subseteq> set pass_words"
  "set [''zone''] \<subseteq> set pass_words" "set [''to_char''] \<subseteq> set pass_words"
  "set [''string_agg''] \<subseteq> set pass_words" "set [''concat''] \<subseteq> set pass_words"
  "set [''unnest''] \<subseteq> set pass_words" "set [''regclass''] \<subseteq> set pass_words"
  "set [''pg_catalog.''] \<subseteq> set pass_words" "set [''information_schema.''] \<subseteq> set pass_words"
  "set [''pg_get_keywords''] \<subseteq> set pass_words" "set [''::''] \<subseteq> set pass_words"
  by (simp_all add: pass_words_def)

lemmas pass_idle =
  operator_pass.idle_among [OF pass_subsets(1)]
  ilike_pass.idle_among [OF pass_subsets(2)]
  any_array_pass.idle_among [OF pass_subsets(3)]
  any_brace_pass.idle_among [OF pass_subsets(4)]
  at_time_zone_pass.idle_among [OF pass_subsets(5)]
  to_char_pass.idle_among [OF pass_subsets(6)]
  string_agg_pass.idle_among [OF pass_subsets(7)]
  concat_pass.idle_among [OF pass_subsets(8)]
  unnest_pass.idle_among [OF pass_subsets(9)]
  regclass_oid_pass.idle_among [OF pass_subsets(10)]
  regclass_name_pass.idle_among [OF pass_subsets(10)]
  pg_catalog_pass.idle_among [OF pass_subsets(11)]
  information_schema_pass.idle_among [OF pass_subsets(12)]
  keywords_pass.idle_among [OF pass_subsets(13)]
  cast_pass.idle_among [OF pass_subsets(14)]

definition system_words :: "gostr list" where
  "system_words = [''current_catalog'', ''current_schema'', ''user'']"

lemma rewrite_reduced:
  assumes "\<not> mentions q pass_words"
    and "leadingKeyword q \<notin> {''SET'', ''RESET'', ''SHOW'', ''CREATE'', ''ALTER'', ''DROP''}"
    and "leadingKeyword (ReplaceAllString systemFunctionRegex q ''$1()$2'') \<noteq> ''SHOW''"
  shows "rewrite q = ReplaceAllString systemFunctionRegex q ''$1()$2''"
proof -
  have p: "rewrite_passes q = ReplaceAllString systemFunctionRegex q ''$1()$2''"
    unfolding rewrite_passes_def Let_def
    using assms(2,3) by (simp add: translateDDL_other show_pass pass_idle [OF assms(1)])
  have "find databaseDDLRegex (TrimSpace q) = None"
    using database_keyword [of "TrimSpace q"] assms(2)
    by (cases "find databaseDDLRegex (TrimSpace q)") (auto simp: leadingKeyword_TrimSpace)
  with assms(2) p show ?thesis by (simp add: rewrite_def leadingKeyword_TrimSpace)
qed

lemma rewrite_plain:
  assumes "\<not> mentions q (pass_words @ system_words)"
    and "leadingKeyword q \<notin> {''SET'', ''RESET'', ''SHOW'', ''CREATE'', ''ALTER'', ''DROP''}"
  shows "rewrite q = q"
proof -
  have m: "\<not> mentions q pass_words" "\<not> mentions q system_words"
    using assms(1) mentions_mono [of _ "pass_words @ system_words" q] by auto
  from m(2) have "ReplaceAllString systemFunctionRegex q ''$1()$2'' = q"
    unfolding system_words_def by (rule system_function_pass.idle)
  with rewrite_reduced [OF m(1) assms(2)] assms(2) show ?thesis by simp
qed

text \<open>C20: ordinary statements reach SQLite byte for byte: a statement that mentions none of
  the dialect words the passes look for, and does not lead with SET, RESET, SHOW or a DDL
  keyword, is not changed by the rewriter, whatever the connection's database is called.\<close>

theorem rewrite_leaves_plain_sql:
  assumes "\<not> mentions q dialect_words"
    and "leadingKeyword q \<notin> {''SET'', ''RESET'', ''SHOW'', ''CREATE'', ''ALTER'', ''DROP''}"
  shows "rewrite q = q \<and> conn_rewrite database q = q"
proof -
  have "\<not> mentions q ws" if "set ws \<subseteq> set dialect_words" for ws
    using assms(1) mentions_mono [OF that] by blast
  from this [of "pass_words @ system_words"] this [of "[''current_database'']"]
  have "\<not> mentions q (pass_words @ system_words)" "\<not> mentions q [''current_database'']"
    by (auto simp: dialect_words_def system_words_def)
  with rewrite_plain assms(2) show ?thesis
    by (simp add: conn_rewrite_def current_database_pass.idle)
qed

theorem rewrite_leaves_plain_sql_witness:
  "conn_rewrite ''shop'' (''INSERT INTO t (a, b) VALUES ($1, '' @ sqlStringLiteral ''it's'' @ '')'') =
     ''INSERT INTO t (a, b) VALUES ($1, '' @ sqlStringLiteral ''it's'' @ '')''"
  by (rule rewrite_leaves_plain_sql [THEN conjunct2]) code_simp+

text \<open>SET and RESET are accepted and ignored: whatever follows the keyword, the
  connection sends SQLite the same constant SELECT, and nothing of the client's text.\<close>

theorem rewrite_session_noop:
  assumes "leadingKeyword q \<in> {''SET'', ''RESET''}"
  shows "conn_rewrite database q = ''SELECT 'SET'' @ [quote]"
proof -
  have "rewrite q = ''SELECT 'SET'' @ [quote]"
    using assms by (simp add: rewrite_def leadingKeyword_TrimSpace)
  moreover have "ReplaceAllString currentDatabaseRegex (''SELECT 'SET'' @ [quote]) t = ''SELECT 'SET'' @ [quote]" for t
    by (rule current_database_pass.idle) code_simp
  ultimately show ?thesis by (simp add: conn_rewrite_def Let_def)
qed

theorem rewrite_session_noop_witness:
  "conn_rewrite ''shop'' ''  set search_path = public'' = ''SELECT 'SET'' @ [quote]"
  by (rule rewrite_session_noop) code_simp

text \<open>The limits of a textual translation.  The words are also replaced inside string
  literals and quoted names, which changes the data of an ordinary INSERT and the table of
  an ordinary query.\<close>

lemma ReplaceAllString_once:
  assumes "0 < min_len r" "find r s = Some m" "search_from r s (mend m) = None"
  shows "ReplaceAllString r s t = take (mstart m) s @ expand t (group s m) @ drop (mend m) s"
  using ReplaceAllFunc_once [OF assms] by (simp add: ReplaceAllString_def)

lemma rewrite_changes_literal:
  "rewrite (''INSERT INTO t VALUES ('' @ sqlStringLiteral ''user'' @ '')'') =
     ''INSERT INTO t VALUES ('' @ sqlStringLiteral ''user()'' @ '')''"
proof -
  let ?q = "''INSERT INTO t VALUES ('' @ sqlStringLiteral ''user'' @ '')''"
  let ?r = "''INSERT INTO t VALUES ('' @ sqlStringLiteral ''user()'' @ '')''"
  let ?m = "\<lparr>mstart = 23, mend = 28, mcaps = [(2, (27, 28)), (1, (23, 27))]\<rparr>"
  have l: "0 < min_len systemFunctionRegex" by code_simp
  have f: "find systemFunctionRegex ?q = Some ?m" by code_simp
  have n: "search_from systemFunctionRegex ?q (mend ?m) = None" by code_simp
  have e: "expand ''$1()$2'' (group ?q ?m) = ''user()'' @ [quote]" by code_simp
  have "ReplaceAllString systemFunctionRegex ?q ''$1()$2'' = take 23 ?q @ (''user()'' @ [quote]) @ drop 28 ?q"
    unfolding ReplaceAllString_once [OF l f n] e by simp
  also have "\<dots> = ?r" by code_simp
  finally have "ReplaceAllString systemFunctionRegex ?q ''$1()$2'' = ?r" .
  moreover have "\<not> mentions ?q pass_words" "leadingKeyword ?q = ''INSERT''" "leadingKeyword ?r = ''INSERT''"
    by code_simp+
  ultimately show ?thesis by (subst rewrite_reduced) simp_all
qed

text \<open>The name of the database is substituted through a template, in which a dollar sign
  starts a reference.\<close>

lemma conn_rewrite_expands_name:
  "conn_rewrite ''a$b'' ''SELECT current_database()'' = ''SELECT '' @ sqlStringLiteral ''a''"
proof -
  have "rewrite ''SELECT current_database()'' = ''SELECT current_database()''"
    by (rule rewrite_plain) code_simp+
  moreover have "ReplaceAllString currentDatabaseRegex ''SELECT current_database()'' (sqlStringLiteral ''a$b'') =
      ''SELECT '' @ sqlStringLiteral ''a''" by code_simp
  ultimately show ?thesis by (simp add: conn_rewrite_def del: append_Cons)
qed

text \<open>An element of an array literal is escaped again although it is already escaped.\<close>

lemma rewriteAnyBrace_double_escape:
  "rewriteAnyBrace (''= ANY('' @ [quote, lbrace] @ ''it'' @ [quote, quote] @ ''s'' @ [rbrace, quote] @ '')'') =
     ''IN ('' @ sqlStringLiteral (''it'' @ [quote, quote] @ ''s'') @ '')''"
  by code_simp

text \<open>SQLite's \<^verbatim>\<open>%f\<close> is seconds with a fraction, so the seconds of a format with
  milliseconds appear twice.\<close>

lemma pgToStrftime_seconds_twice: "pgToStrftime ''HH24:MI:SS.MS'' = ''%H:%M:%S.%f''"
  by code_simp

section \<open>Array membership\<close>

text \<open>The elements a client prints: not empty, without commas, braces and single quotes, and
  without outer white space or double quotes.\<close>

definition brace_plain :: "gostr \<Rightarrow> bool" where
  "brace_plain p \<longleftrightarrow> p \<noteq> [] \<and> comma \<notin> set p \<and> rbrace \<notin> set p \<and> quote \<notin> set p
     \<and> \<not> is_space (hd p) \<and> \<not> is_space (last p) \<and> hd p \<noteq> dquote \<and> last p \<noteq> dquote"

lemma brace_element_plain: "brace_plain p \<Longrightarrow> brace_element p = sqlStringLiteral p"
  unfolding brace_element_def brace_plain_def
  by (subst TrimSpace_id) (auto simp: Trim_def hd_dropWhile trim_right_none neq_Nil_conv)

lemma Join_hd_last:
  "ps \<noteq> [] \<Longrightarrow> \<forall>p \<in> set ps. p \<noteq> [] \<Longrightarrow>
     Join ps [comma] \<noteq> [] \<and> hd (Join ps [comma]) = hd (hd ps) \<and> last (Join ps [comma]) = last (last ps)"
  by (induction ps rule: induct_list012) (auto simp: neq_Nil_conv)

lemma set_Join: "set (Join ps sep) \<subseteq> set sep \<union> (\<Union>p \<in> set ps. set p)"
  by (induction ps sep rule: Join.induct) auto

definition any_brace_call :: "gostr list \<Rightarrow> gostr" where
  "any_brace_call ps = ''= ANY('' @ [quote, lbrace] @ Join ps [comma] @ [rbrace, quote] @ '')''"

lemma any_brace_no: "k < length q \<longrightarrow> q ! k \<noteq> CHR ''='' \<Longrightarrow> k \<le> length q \<Longrightarrow> no_match q anyBraceRegex k"
  unfolding anyBraceRegex_def RSeqs.simps
  by (intro nm_seq nm_lit_at) (auto simp: lower_char_quote_eq is_letter_def is_upper_def is_lower_def)

text \<open>A text that starts no membership test: no \<^verbatim>\<open>=\<close> in it is followed, behind white space, by
  \<^verbatim>\<open>ANY\<close> in any case.\<close>

definition any_word :: "gostr \<Rightarrow> bool" where
  "any_word s \<longleftrightarrow> ToLower (take 3 (dropWhile is_re_space s)) = ''any''"

fun any_free :: "gostr \<Rightarrow> bool" where
  "any_free [] = True"
| "any_free (c # s) = ((c = CHR ''='' \<longrightarrow> \<not> any_word s) \<and> any_free s)"

lemma any_word_append: "rest = [] \<or> hd rest = CHR ''='' \<Longrightarrow> any_word (s @ rest) \<longleftrightarrow> any_word s"
proof -
  assume r: "rest = [] \<or> hd rest = CHR ''=''"
  let ?d = "dropWhile is_re_space s"
  have d: "dropWhile is_re_space (s @ rest) = (if ?d = [] then dropWhile is_re_space rest else ?d @ rest)"
    by (cases "?d = []") (simp_all add: dropWhile_append dropWhile_append3 dropWhile_eq_Nil_conv)
  have sp: "\<not> is_re_space (CHR ''='')" by code_simp
  have r': "dropWhile is_re_space rest = rest" using r sp by (cases rest) auto
  have "any_word (s @ rest) \<longleftrightarrow> ToLower (take 3 (?d @ rest)) = ''any''"
    unfolding any_word_def d r' by (cases "?d = []") (simp_all only: if_True if_False append_Nil simp_thms)
  also have "\<dots> \<longleftrightarrow> any_word s"
  proof (cases "rest = [] \<or> 3 \<le> length ?d")
    case True
    then show ?thesis by (auto simp: any_word_def ToLower_def)
  next
    case False
    then have l: "length ?d < 3" by simp
    obtain b where b: "rest = CHR ''='' # b" using r False by (cases rest) auto
    then have "CHR ''='' \<in> set (take 3 (?d @ rest))"
      using l by (simp add: take_Cons')
    then have "lower_char (CHR ''='') \<in> set (ToLower (take 3 (?d @ rest)))"
      unfolding ToLower_def set_map by (rule imageI)
    moreover have "lower_char (CHR ''='') \<notin> set ''any''" by code_simp
    ultimately have "ToLower (take 3 (?d @ rest)) \<noteq> ''any''" by metis
    moreover have "\<not> any_word s"
    proof
      assume "any_word s"
      then have "length (ToLower (take 3 ?d)) = length ''any''" by (simp add: any_word_def)
      with l show False by (simp add: ToLower_def)
    qed
    ultimately show ?thesis by blast
  qed
  finally show ?thesis .
qed

lemma any_free_at: "any_free s \<Longrightarrow> k < length s \<Longrightarrow> s ! k = CHR ''='' \<Longrightarrow> \<not> any_word (drop (Suc k) s)"
  by (induction s arbitrary: k) (auto simp: nth_Cons split: nat.splits)

text \<open>No test starts inside such a text.\<close>

lemma any_brace_no_text:
  assumes "any_free t" "rest = [] \<or> hd rest = CHR ''=''" "k < length t"
  shows "no_match (a @ t @ rest) anyBraceRegex (length a + k)"
proof (cases "t ! k = CHR ''=''")
  case False
  then show ?thesis
    using assms(3) unfolding anyBraceRegex_def RSeqs.simps
    by (intro nm_seq nm_lit_at)
       (auto simp: nth_append lower_char_quote_eq is_letter_def is_upper_def is_lower_def)
next
  case True
  let ?q = "a @ t @ rest" and ?i = "length a + k" and ?d = "drop (Suc k) t @ rest"
  have d: "drop (Suc ?i) ?q = ?d" using assms(3) by simp
  have w: "\<not> any_word ?d" using any_word_append [OF assms(2)] any_free_at [OF assms(1,3) True] by simp
  have i: "Suc ?i \<le> length ?q" using assms(3) by simp
  have no: "no_match ?q (RSeq Sps (RSeq (ILit ''ANY'') r)) (Suc ?i)" for r
  proof (rule nm_sps_lit [OF i])
    show "\<not> lit_char True (CHR ''A'') c" if "is_re_space c" for c
      using that by (auto simp: is_re_space_def lit_char_def lower_char_def is_upper_def)
    show "\<not> lit_at True ''ANY'' ?q (Suc ?i + run is_re_space ?q (Suc ?i))" (is "\<not> lit_at _ _ _ ?j")
    proof
      assume "lit_at True ''ANY'' ?q ?j"
      from lit_at_ToLower [OF this] have "ToLower (take 3 (drop ?j ?q)) = ToLower ''ANY''"
        by (simp add: slice_def del: drop_append)
      moreover have "drop ?j ?q = dropWhile is_re_space ?d"
        unfolding run_def dropWhile_eq_drop d [symmetric] by (simp only: drop_drop add.commute)
      moreover have "ToLower ''ANY'' = ''any''" by code_simp
      ultimately show False using w unfolding any_word_def by metis
    qed
  qed
  show ?thesis
    unfolding anyBraceRegex_def RSeqs.simps by (rule nm_lit_seq) (use i no in simp_all)
qed

lemma any_brace_first:
  assumes "rbrace \<notin> set inner" "q = pre @ ''= ANY('' @ [quote, lbrace] @ inner @ [rbrace, quote, rpar] @ post"
  shows "first_match q anyBraceRegex (length pre) [] (length pre + length inner + 11)
     [(1, (length pre + 8, length pre + 8 + length inner))]"
proof -
  let ?n = "length pre" and ?l = "length inner"
  let ?g = "[(1, (?n + 8, ?n + 8 + ?l))]"
  have len: "?n + ?l + 11 \<le> length q" using assms(2) by simp
  have d: "drop ?n q = ''='' @ '' ANY('' @ [quote, lbrace] @ inner @ [rbrace, quote, rpar] @ post"
    "drop (?n + 1) q = '' '' @ ''ANY('' @ [quote, lbrace] @ inner @ [rbrace, quote, rpar] @ post"
    "drop (?n + 2) q = ''ANY'' @ ''('' @ [quote, lbrace] @ inner @ [rbrace, quote, rpar] @ post"
    "drop (?n + 5) q = ''('' @ [quote, lbrace] @ inner @ [rbrace, quote, rpar] @ post"
    "drop (?n + 6) q = [quote, lbrace] @ inner @ [rbrace, quote, rpar] @ post"
    "drop (?n + 8) q = inner @ [rbrace, quote, rpar] @ post"
    using assms(2) by simp_all
  have d7: "drop (?n + 8 + ?l) q = [rbrace, quote] @ [rpar] @ post"
    using drop_append_index [OF d(6)] by simp
  have d8: "drop (?n + 8 + ?l + 2) q = [rpar] @ post"
    using drop_append_index [OF d7] by simp
  have sp: "\<not> is_re_space (CHR ''('')" "\<not> is_re_space quote" "\<not> is_re_space (CHR ''A'')" "\<not> is_re_space rpar"
    "is_re_space (CHR '' '')"
    by code_simp+
  have lits: "lit_char ci c c" for ci c by (simp add: lit_char_def)
  have 1: "first_match q (ILit ''='') ?n g (?n + 1) g" for g
    using fm_lit [OF d(1), of True "''=''" g] len by (simp add: lits)
  have 2: "first_match q Sps (?n + 1) g (?n + 2) g" for g
    using fm_star_sp [OF d(2), of g] len sp by simp
  have 3: "first_match q (ILit ''ANY'') (?n + 2) g (?n + 5) g" for g
    using fm_lit [OF d(3), of True "''ANY''" g] len by (simp add: lits eval_nat_numeral)
  have 4: "first_match q Sps (?n + 5) g (?n + 5) g" for g
    using fm_star_sp [of "?n + 5" q "[]" _ g] d(4) len sp by simp
  have 5: "first_match q (ILit ''('') (?n + 5) g (?n + 6) g" for g
    using fm_lit [OF d(4), of True "''(''" g] len by (simp add: lits add.commute)
  have 6: "first_match q Sps (?n + 6) g (?n + 6) g" for g
    using fm_star_sp [of "?n + 6" q "[]" _ g] d(5) len sp by simp
  have 7: "first_match q (ILit [quote, lbrace]) (?n + 6) g (?n + 8) g" for g
    using fm_lit [OF d(5), of True "[quote, lbrace]" g] len by (simp add: lits add.commute)
  have 8: "first_match q (RGroup 1 (RStar True (NotIn [rbrace]))) (?n + 8) [] (?n + 8 + ?l) ?g"
    by (rule fm_group, rule fm_star [OF d(6)]) (use assms(1) len in \<open>auto simp: citem_match_def\<close>)
  have 9: "first_match q (ILit [rbrace, quote]) (?n + 8 + ?l) g (?n + 8 + ?l + 2) g" for g
    using fm_lit [OF d7, of True "[rbrace, quote]" g] len by (simp add: lits)
  have 10: "first_match q Sps (?n + 8 + ?l + 2) g (?n + 8 + ?l + 2) g" for g
    using fm_star_sp [of "?n + 8 + ?l + 2" q "[]" _ g] d8 len sp by simp
  have 11: "first_match q (ROpt (RSeq (ILit ''::'') r)) (?n + 8 + ?l + 2) g (?n + 8 + ?l + 2) g" for g r
    using d8 by (intro fm_alt2 nm_seq nm_lit fm_empty) (auto simp: lit_char_def lower_char_def is_upper_def)
  have 12: "first_match q (ILit '')'') (?n + 8 + ?l + 2) g (?n + 8 + ?l + 3) g" for g
    using fm_lit [OF d8, of True "'')''" g] len by (simp add: lits eval_nat_numeral)
  have "first_match q anyBraceRegex ?n [] (?n + 8 + ?l + 3) ?g"
    unfolding anyBraceRegex_def RSeqs.simps
    by (rule fm_seq [OF 1 fm_seq [OF 2 fm_seq [OF 3 fm_seq [OF 4 fm_seq [OF 5 fm_seq [OF 6 fm_seq [OF 7
         fm_seq [OF 8 fm_seq [OF 9 fm_seq [OF 10 fm_seq [OF 11 fm_seq [OF 12 fm_empty]]]]]]]]]]]])
  moreover have "?n + 8 + ?l + 3 = ?n + ?l + 11" by simp
  ultimately show ?thesis by metis
qed

lemma any_brace_text: "any_brace_call ps = ''= ANY('' @ [quote, lbrace] @ Join ps [comma] @ [rbrace, quote, rpar]"
  by (simp add: any_brace_call_def)

lemma brace_free: "\<forall>p \<in> set ps. brace_plain p \<Longrightarrow> rbrace \<notin> set (Join ps [comma])"
  using set_Join [of ps "[comma]"] by (auto simp: brace_plain_def)

lemma rewriteAnyBrace_call:
  assumes "ps \<noteq> []" "\<forall>p \<in> set ps. brace_plain p"
  shows "rewriteAnyBrace (any_brace_call ps) = ''IN ('' @ Join (map sqlStringLiteral ps) '', '' @ '')''"
proof -
  let ?in = "Join ps [comma]" and ?c = "any_brace_call ps"
  have self: "find anyBraceRegex ?c = Some \<lparr>mstart = 0, mend = length ?in + 11, mcaps = [(1, (8, 8 + length ?in))]\<rparr>"
    using find_first [OF any_brace_first [OF brace_free [OF assms(2)], of ?c "[]" "[]"]]
    by (simp add: any_brace_text)
  have ne: "\<forall>p \<in> set ps. p \<noteq> []" using assms(2) by (auto simp: brace_plain_def)
  have sp: "TrimSpace ?in = ?in" "?in \<noteq> []"
    using Join_hd_last [OF assms(1) ne] assms by (auto intro!: TrimSpace_id simp: brace_plain_def)
  have g: "group ?c \<lparr>mstart = 0, mend = length ?in + 11, mcaps = [(1, (8, 8 + length ?in))]\<rparr> 1 = ?in"
    by (simp add: group_def group_span_def slice_def any_brace_text)
  have sc: "SplitChar ?in comma = ps"
    using assms by (intro SplitChar_Join) (auto simp: brace_plain_def)
  have mp: "map brace_element ps = map sqlStringLiteral ps"
    using assms(2) brace_element_plain by simp
  show ?thesis
    using sp(2) unfolding rewriteAnyBrace_def self option.case Let_def g sp(1) sc mp by (simp only: if_False)
qed

text \<open>A statement with membership tests, given by the text in front of each and the text behind
  the last, and what becomes of it.\<close>

fun any_text :: "(gostr \<times> gostr list) list \<Rightarrow> gostr \<Rightarrow> gostr" where
  "any_text [] post = post"
| "any_text ((t, ps) # ts) post = t @ any_brace_call ps @ any_text ts post"

fun in_text :: "(gostr \<times> gostr list) list \<Rightarrow> gostr \<Rightarrow> gostr" where
  "in_text [] post = post"
| "in_text ((t, ps) # ts) post =
     t @ ''IN ('' @ Join (map sqlStringLiteral ps) '', '' @ '')'' @ in_text ts post"

lemma any_brace_replaced:
  assumes "\<forall>(t, ps) \<in> set ts. any_free t \<and> ps \<noteq> [] \<and> (\<forall>p \<in> set ps. brace_plain p)" "any_free post"
  shows "replaced_from anyBraceRegex (\<lambda>m. rewriteAnyBrace (group (a @ any_text ts post) m 0)) (a @ any_text ts post) (length a)
     = in_text ts post"
  using assms(1)
proof (induction ts arbitrary: a)
  case Nil
  have "search_from anyBraceRegex (a @ post) (length a) = None"
  proof (subst search_from_None)
    show "\<forall>j. length a \<le> j \<and> j \<le> length (a @ post) \<longrightarrow> match_here anyBraceRegex (cursor_at (a @ post) j) = None"
    proof (intro allI impI, elim conjE, rule match_here_no)
      fix j assume j: "length a \<le> j" "j \<le> length (a @ post)"
      show "no_match (a @ post) anyBraceRegex j"
      proof (cases "j = length (a @ post)")
        case True
        then show ?thesis by (intro any_brace_no) simp_all
      next
        case False
        then show ?thesis
          using any_brace_no_text [OF assms(2), of "[]" "j - length a" a] j by simp
      qed
    qed
  qed simp
  moreover have "0 < min_len anyBraceRegex" by code_simp
  ultimately show ?case by (subst replaced_from_unfold) simp_all
next
  case (Cons x ts)
  obtain t ps where x: "x = (t, ps)" by (cases x)
  let ?in = "Join ps [comma]" and ?c = "any_brace_call ps"
  let ?q = "a @ t @ ?c @ any_text ts post"
  have ps: "any_free t" "ps \<noteq> []" "\<forall>p \<in> set ps. brace_plain p"
    and ts: "\<forall>(t, ps) \<in> set ts. any_free t \<and> ps \<noteq> [] \<and> (\<forall>p \<in> set ps. brace_plain p)"
    using Cons.prems by (auto simp: x)
  have lc: "length ?c = length ?in + 11" by (simp add: any_brace_text)
  define g where "g = [(1 :: nat, (length (a @ t) + 8, length (a @ t) + 8 + length ?in))]"
  have f: "first_match ?q anyBraceRegex (length (a @ t)) [] (length (a @ t) + length ?in + 11) g"
    using any_brace_first [OF brace_free [OF ps(3)], of ?q "a @ t" "any_text ts post"]
    by (simp add: any_brace_text g_def)
  have n: "no_match ?q anyBraceRegex k" if "length a \<le> k" "k < length (a @ t)" for k
    using any_brace_no_text [OF ps(1), of "?c @ any_text ts post" "k - length a" a] that
    by (simp add: any_brace_text)
  have s: "search_from anyBraceRegex ?q (length a) =
      Some \<lparr>mstart = length (a @ t), mend = length (a @ t @ ?c), mcaps = g\<rparr>" (is "_ = Some ?m")
    using search_from_first [OF f n] by (simp add: lc add.assoc)
  have "group ?q ?m 0 = slice ?q (length (a @ t)) (length (a @ t @ ?c))" by (simp add: group_def group_span_def)
  also have "\<dots> = ?c" by (simp add: slice_def)
  finally have gr: "group ?q ?m 0 = ?c" .
  have sl: "slice ?q (length a) (length (a @ t)) = t" by (simp add: slice_def)
  have m: "0 < min_len anyBraceRegex" by code_simp
  have IH: "replaced_from anyBraceRegex (\<lambda>m. rewriteAnyBrace (group ?q m 0)) ?q (length (a @ t @ ?c)) = in_text ts post"
    using Cons.IH [of "a @ t @ ?c"] ts by simp
  have le: "length a \<le> length ?q" by simp
  have "replaced_from anyBraceRegex (\<lambda>m. rewriteAnyBrace (group ?q m 0)) ?q (length a) =
      t @ ''IN ('' @ Join (map sqlStringLiteral ps) '', '' @ '')'' @ in_text ts post"
    unfolding replaced_from_unfold [OF m le] s option.case rmatch.simps sl gr IH
      rewriteAnyBrace_call [OF ps(2,3)] by simp
  then show ?case by (simp only: x any_text.simps in_text.simps)
qed

text \<open>The \<^verbatim>\<open>=\<close> may be the end of another operator, which the pattern does not see.\<close>

lemma any_brace_not_equal:
  "ReplaceAllStringFunc anyBraceRegex (''x !'' @ any_brace_call [''a'']) rewriteAnyBrace =
     ''x !IN ('' @ sqlStringLiteral ''a'' @ '')''"
  using any_brace_replaced [of "[(''x !'', [''a''])]" "[]" "[]"]
  by (simp add: ReplaceAllStringFunc_def ReplaceAllFunc_replaced brace_plain_def is_space_def)

text \<open>C25: array membership tests become IN lists of the same elements: in a statement with any
  number of tests \<^verbatim>\<open>= ANY('{a,b}')\<close>, whose elements are not empty, contain no comma, closing
  brace or single quote and have no outer white space or double quote, each test is replaced by
  \<^verbatim>\<open>IN ('a', 'b')\<close>, every element a string literal of its own, and the text before, between and
  behind the tests is kept byte for byte, as long as no further \<^verbatim>\<open>=\<close> in it is followed by the
  word ANY.  An \<^verbatim>\<open>=\<close> that ends another operator, as in \<^verbatim>\<open>!= ANY('{a}')\<close>, is rewritten alike.\<close>

theorem any_brace_rewritten:
  assumes "\<forall>(t, ps) \<in> set ts. any_free t \<and> ps \<noteq> [] \<and> (\<forall>p \<in> set ps. brace_plain p)" "any_free post"
  shows "ReplaceAllStringFunc anyBraceRegex (any_text ts post) rewriteAnyBrace = in_text ts post"
  using any_brace_replaced [OF assms, of "[]"] by (simp add: ReplaceAllStringFunc_def ReplaceAllFunc_replaced)

theorem any_brace_rewritten_witness:
  "ReplaceAllStringFunc anyBraceRegex
     (any_text [(''WHERE a = b AND relkind '', [''r'', ''v'']), ('' OR n = 1 OR relkind '', [''m''])] '' AND k = 1'') rewriteAnyBrace =
   in_text [(''WHERE a = b AND relkind '', [''r'', ''v'']), ('' OR n = 1 OR relkind '', [''m''])] '' AND k = 1''"
  by (rule any_brace_rewritten) code_simp+

section \<open>CONCAT calls\<close>

lemma concats_0_find: "concats q = 0 \<Longrightarrow> find concatRegex q = None"
proof (rule ccontr)
  assume z: "concats q = 0" and "find concatRegex q \<noteq> None"
  then obtain m where "find concatRegex q = Some m" by blast
  from concat_match(1) [OF this] have "0 < concats (drop (mstart m) q)" by (rule concats_pos)
  then show False using z concats_append_le [of "take (mstart m) q" "drop (mstart m) q"] by simp
qed

lemma concat_no: "k \<le> length q \<Longrightarrow> \<not> concat_here (drop k q) \<Longrightarrow> no_match q concatRegex k"
proof -
  assume k: "k \<le> length q" and n: "\<not> concat_here (drop k q)"
  have "\<not> lit_at True ''concat'' q k"
  proof
    assume "lit_at True ''concat'' q k"
    from lit_at_ToLower [OF this] have "ToLower (take 6 (drop k q)) = ToLower ''concat''"
      by (simp add: slice_def)
    moreover have "ToLower ''concat'' = ''concat''" by code_simp
    ultimately show False using n by (simp add: concat_here_def)
  qed
  then have "no_match q (ILit ''concat'') k"
    using matches_lit_at [OF k, of True "''concat''"] by (simp add: no_match_def del: matches.simps)
  then show ?thesis
    unfolding concatRegex_def RSeqs.simps by (intro nm_wordb_seq nm_seq)
qed

lemma concats_between: "concats (a @ concat_expr args @ b) \<le> concats a + concats (Join args [comma]) + concats b"
proof -
  obtain inner where inner: "concat_expr args = lpar # inner @ [rpar]" by (simp add: concat_expr_def)
  have "concats (concat_expr args) = concats inner"
    using concats_seps(1) [of "[]" "inner @ rpar # []"] concats_seps(2) [of inner "[]"] inner
    by (simp del: concats.simps(2))
  then have "concats inner \<le> concats (Join args [comma])" using concats_concat_expr [of args] by simp
  moreover have "concats (a @ concat_expr args @ b) = concats (a @ lpar # inner @ rpar # b)" by (simp add: inner)
  then have "concats (a @ concat_expr args @ b) = concats a + concats inner + concats b"
    unfolding concats_seps by simp
  ultimately show ?thesis by simp
qed

lemma non_word_non_concat: "\<not> is_word c \<Longrightarrow> non_concat c"
proof
  assume w: "\<not> is_word c" and "lower_char c \<in> set ''concat''"
  then have "is_word (lower_char c)" by (auto simp: is_word_def is_letter_def is_lower_def)
  with w show False by simp
qed

lemma concat_call_find:
  assumes "pre = [] \<or> \<not> is_word (last pre)" "concats pre = 0"
  shows "find concatRegex (pre @ ''CONCAT('' @ rest) = Some \<lparr>mstart = length pre, mend = length pre + 7, mcaps = []\<rparr>"
proof (rule find_first)
  let ?q = "pre @ ''CONCAT('' @ rest" and ?n = "length pre"
  show "?n \<le> length ?q" by simp
  show "no_match ?q concatRegex k" if "k < ?n" for k
  proof (rule concat_no)
    show "k \<le> length ?q" using that by simp
    show "\<not> concat_here (drop k ?q)"
    proof
      assume h: "concat_here (drop k ?q)"
      show False
      proof (cases "6 \<le> length (drop k pre)")
        case True
        with h that have "concat_here (drop k pre)" by (simp add: concat_here_def ToLower_def)
        then have "0 < concats (drop k pre)" by (rule concats_pos)
        then show False using concats_append_le [of "take k pre" "drop k pre"] assms(2) by simp
      next
        case False
        have ne: "drop k pre \<noteq> []" "pre \<noteq> []" using that by auto
        then have "last pre \<in> set (take 6 (drop k ?q))"
          using False that by (auto simp: last_drop [symmetric] simp del: last_drop)
        then have "lower_char (last pre) \<in> set (ToLower (take 6 (drop k ?q)))"
          unfolding ToLower_def set_map by (rule imageI)
        with h have "lower_char (last pre) \<in> set ''concat''" by (simp add: concat_here_def)
        with assms(1) ne(2) non_word_non_concat show False by blast
      qed
    qed
  qed
  have d: "drop ?n ?q = ''CONCAT'' @ ''('' @ rest" "drop (?n + 6) ?q = ''('' @ rest" by simp_all
  have b: "boundary ?q ?n"
  proof -
    have "is_word (?q ! ?n)" by (simp add: nth_append is_word_def is_letter_def is_upper_def)
    moreover have "\<not> (0 < ?n \<and> is_word (?q ! (?n - 1)))"
      using assms(1) by (cases pre rule: rev_cases) (auto simp: nth_append)
    ultimately show ?thesis by (simp add: boundary_def)
  qed
  have "list_all2 (lit_char True) ''concat'' ''CONCAT''" by code_simp
  then have 1: "first_match ?q (ILit ''concat'') ?n g (?n + 6) g" for g
    by (rule fm_lit_to [OF d(1)]) simp_all
  have 2: "first_match ?q Sps (?n + 6) g (?n + 6) g" for g
  proof -
    have "first_match ?q Sps (?n + 6) g (?n + 6 + length ([] :: gostr)) g"
      by (rule fm_star_sp [where rest = "''('' @ rest"]) (use d(2) in \<open>auto simp: is_re_space_def\<close>)
    then show ?thesis by simp
  qed
  have "list_all2 (lit_char True) ''('' ''(''" by code_simp
  then have 3: "first_match ?q (ILit ''('') (?n + 6) g (?n + 7) g" for g
    by (rule fm_lit_to [OF d(2)]) simp_all
  show "first_match ?q concatRegex ?n [] (?n + 7) []"
    unfolding concatRegex_def RSeqs.simps
    by (rule fm_seq [OF fm_wordb [OF b] fm_seq [OF 1 fm_seq [OF 2 fm_seq [OF 3 fm_empty]]]])
qed

lemma rewriteConcat_step:
  "find concatRegex q = Some m \<Longrightarrow> matchParen q (mend m - 1) = Some e \<Longrightarrow> rewriteConcat q =
     rewriteConcat (take (mstart m) q @ concat_expr (splitArgs (slice q (mend m) e)) @ drop (e + 1) q)"
  by (subst rewriteConcat.simps) simp

text \<open>A statement with CONCAT calls, given by the text in front of each and the text behind the
  last, and what becomes of it.\<close>

fun concat_calls :: "(gostr \<times> gostr list) list \<Rightarrow> gostr \<Rightarrow> gostr" where
  "concat_calls [] post = post"
| "concat_calls ((t, args) # cs) post =
     t @ ''CONCAT('' @ Join args [comma] @ '')'' @ concat_calls cs post"

fun concat_exprs :: "(gostr \<times> gostr list) list \<Rightarrow> gostr \<Rightarrow> gostr" where
  "concat_exprs [] post = post"
| "concat_exprs ((t, args) # cs) post =
     t @ ''('' @ Join (map (\<lambda>a. ''COALESCE('' @ TrimSpace a @ '','' @ [quote, quote] @ '')'') args) '' || '' @ '')''
       @ concat_exprs cs post"

lemma concat_exprs_expr: "concat_exprs ((t, args) # cs) post = t @ concat_expr args @ concat_exprs cs post"
  by (simp add: concat_expr_def coalesce_def [abs_def])

declare concat_exprs.simps(2) [simp del]
declare concat_exprs_expr [simp]

lemma concat_call_rewritten:
  assumes "args \<noteq> []" "\<forall>a \<in> set args. arg_text a" "pre = [] \<or> \<not> is_word (last pre)" "concats pre = 0"
  shows "rewriteConcat (pre @ ''CONCAT('' @ Join args [comma] @ '')'' @ post) = rewriteConcat (pre @ concat_expr args @ post)"
proof -
  let ?u = "Join args [comma]"
  let ?q = "pre @ ''CONCAT('' @ ?u @ '')'' @ post"
  note f = concat_call_find [OF assms(3,4), of "?u @ '')'' @ post"]
  have bal: "balanced ?u" using assms(2) by (intro balanced_Join) blast
  have m: "matchParen ?q (length pre + 6) = Some (length pre + 6 + length ?u + 1)"
    using matchParen_append [OF bal, of "pre @ ''CONCAT''" post] by (simp add: eval_nat_numeral)
  have s: "slice ?q (length pre + 7) (length pre + 6 + length ?u + 1) = ?u" by (simp add: slice_def)
  have sp: "splitArgs ?u = args" using assms(1,2) by (intro splitArgs_args) auto
  have "drop (length (pre @ ''CONCAT('' @ ?u @ '')'')) ((pre @ ''CONCAT('' @ ?u @ '')'') @ post) = post"
    by (rule append_eq_conv_conj [THEN iffD1, THEN conjunct2, symmetric]) (rule refl)
  then have d: "drop (length pre + 6 + length ?u + 1 + 1) ?q = post"
    by (simp add: eval_nat_numeral)
  have t: "take (length pre) ?q = pre" by simp
  show ?thesis
    using rewriteConcat_step [OF f, unfolded rmatch.simps, of "length pre + 6 + length ?u + 1"]
    unfolding t s d sp using m by (simp add: add.commute)
qed

lemma concat_calls_rewritten:
  assumes "\<forall>(t, args) \<in> set cs. args \<noteq> [] \<and> (\<forall>a \<in> set args. arg_text a \<and> concats a = 0) \<and>
      (t = [] \<or> \<not> is_word (last t)) \<and> concats t = 0" "concats post = 0"
    and "pre = [] \<or> (\<exists>a. pre = a @ [rpar])" "concats pre = 0"
  shows "rewriteConcat (pre @ concat_calls cs post) = pre @ concat_exprs cs post"
  using assms(1,3,4)
proof (induction cs arbitrary: pre)
  case Nil
  have "concats (pre @ post) = 0" using Nil.prems(2,3) assms(2) by (auto simp: concats_seps concats_lead)
  from concats_0_find [OF this] show ?case by (subst rewriteConcat.simps) simp
next
  case (Cons x cs)
  obtain t args where x: "x = (t, args)" by (cases x)
  have a: "args \<noteq> []" "\<forall>a \<in> set args. arg_text a" "\<forall>a \<in> set args. concats a = 0" "t = [] \<or> \<not> is_word (last t)" "concats t = 0"
    using Cons.prems(1) by (auto simp: x)
  have w: "pre @ t = [] \<or> \<not> is_word (last (pre @ t))"
    using a(4) Cons.prems(2) by (auto simp: last_append is_word_def is_letter_def is_lower_def is_upper_def is_digit_def)
  have z: "concats (pre @ t) = 0" using a(5) Cons.prems(2,3) by (auto simp: concats_seps concats_lead)
  have "concats (Join args [comma]) = 0" using a(3) by (simp add: concats_Join_comma)
  then have z': "concats (pre @ t @ concat_expr args) = 0"
    using concats_between [of "pre @ t" args "[]"] z by simp
  have r: "\<exists>b. pre @ t @ concat_expr args = b @ [rpar]" by (simp add: concat_expr_def)
  have "rewriteConcat (pre @ concat_calls (x # cs) post) = rewriteConcat ((pre @ t @ concat_expr args) @ concat_calls cs post)"
    using concat_call_rewritten [OF a(1,2) w z, of "concat_calls cs post"] by (simp add: x)
  also have "\<dots> = (pre @ t @ concat_expr args) @ concat_exprs cs post"
    by (rule Cons.IH) (use Cons.prems(1) r z' in auto)
  finally show ?case by (simp add: x)
qed

text \<open>A call inside a string literal is rewritten too, and its quotes end the literal.\<close>

lemma rewriteConcat_in_literal:
  "rewriteConcat (''SELECT '' @ sqlStringLiteral ''concat(x)'') = ''SELECT '' @ quote # concat_expr [''x''] @ [quote]"
  (is "rewriteConcat ?q = ?r")
proof -
  have f: "find concatRegex ?q = Some \<lparr>mstart = 8, mend = 15, mcaps = []\<rparr>" by code_simp
  have "matchParen ?q 14 = Some 16" by code_simp
  then have "rewriteConcat ?q =
      rewriteConcat (take 8 ?q @ concat_expr (splitArgs (slice ?q 15 16)) @ drop 17 ?q)"
    using rewriteConcat_step [OF f, of 16] by simp
  moreover have "take 8 ?q @ concat_expr (splitArgs (slice ?q 15 16)) @ drop 17 ?q = ?r" by code_simp
  moreover have "find concatRegex ?r = None" by code_simp
  then have "rewriteConcat ?r = ?r" by (subst rewriteConcat.simps) simp
  ultimately show ?thesis by simp
qed

text \<open>C21: CONCAT calls become the NULL-tolerant concatenations of exactly their arguments: in a
  statement with any number of calls, one after the other, every call is replaced by the
  parenthesised concatenation of its arguments, which commas inside nested calls and string
  literals do not split, the text before, between and behind the calls is kept byte for byte,
  and the loop ends there.  Each call starts at the start of a word, and the letters of concat,
  in any case, occur nowhere else: not in the text around the calls and not in an argument, be
  it a nested call or a literal.\<close>

theorem concat_rewritten:
  assumes "\<forall>(t, args) \<in> set cs. args \<noteq> [] \<and> (\<forall>a \<in> set args. arg_text a \<and> concats a = 0) \<and>
      (t = [] \<or> \<not> is_word (last t)) \<and> concats t = 0" "concats post = 0"
  shows "rewriteConcat (concat_calls cs post) = concat_exprs cs post"
  using concat_calls_rewritten [OF assms, of "[]"] by simp

theorem concat_rewritten_witness:
  "rewriteConcat (concat_calls [(''SELECT '', [''f(a,1)'', sqlStringLiteral ''x,y'']), ('', '', [''b''])] '' FROM t'') =
     concat_exprs [(''SELECT '', [''f(a,1)'', sqlStringLiteral ''x,y'']), ('', '', [''b''])] '' FROM t''"
proof (rule concat_rewritten)
  have "arg_text ''f(a,1)''"
    by (rule arg_chr; (rule arg_par [of "''a,1''" "[]", simplified])?)
       (auto intro: balanced_intros(1,2) arg_nil)
  moreover have "arg_text ''b''" by (rule arg_chr) (auto intro: arg_nil)
  moreover have "concats ''f(a,1)'' = 0" "concats (sqlStringLiteral ''x,y'') = 0" "concats ''b'' = 0"
    "concats ''SELECT '' = 0" "concats '', '' = 0" "\<not> is_word (last ''SELECT '')" "\<not> is_word (last '', '')"
    by code_simp+
  ultimately show "\<forall>(t, args) \<in> set [(''SELECT '', [''f(a,1)'', sqlStringLiteral ''x,y'']), ('', '', [''b''])].
      args \<noteq> [] \<and> (\<forall>a \<in> set args. arg_text a \<and> concats a = 0) \<and> (t = [] \<or> \<not> is_word (last t)) \<and> concats t = 0"
    using arg_text_literal by (simp del: last.simps concats.simps)
  show "concats '' FROM t'' = 0" by code_simp
qed

end
