(* ===== verification/Session.thy ===== *)
theory Session
  imports Rewrite Types "HOL-Library.AList"
begin

text \<open>
  \<^verbatim>\<open>server.go\<close>: one client session.  The state of \<^verbatim>\<open>Conn\<close> is the record \<open>conn\<close>; each
  \<^verbatim>\<open>handle...Message\<close> method is a function on it, and \<open>serve_loop\<close> is the message loop of
  \<^verbatim>\<open>serveConn\<close>.

  The SQLite driver is not part of the repository: it is a parameter, a record of the
  operations the code calls, over an abstract database state \<open>'s\<close>, statement handles
  \<open>'t\<close> and open result sets \<open>'r\<close>.  Nothing is assumed of it except where a property says
  so.  The socket accepts a number of writes and then fails (\<open>wfail\<close>).

  A handler returns the new state with \<open>HNil\<close> (Go's nil), \<open>HErr\<close> (the connection will be
  closed) or \<open>HPanic\<close>; \<open>None\<close> is a call that never returns, which a result set without
  end can cause.
\<close>

section \<open>Messages\<close>

record field_desc =
  fd_name :: gostr
  fd_oid :: oid32
  fd_size :: int

datatype backend_msg =
    AuthenticationOk
  | AuthenticationMD5Password gostr
  | ParameterStatus gostr gostr
  | BackendKeyData "32 word" "32 word"
  | ReadyForQuery tx_status
  | ErrorResponse gostr gostr gostr      \<comment> \<open>severity, code, message\<close>
  | EmptyQueryResponse
  | CommandComplete gostr
  | RowDescription "field_desc list"
  | DataRow "gostr option list"
  | ParseComplete
  | BindComplete
  | CloseComplete
  | NoData
  | ParameterDescription "oid32 list"
  | RawBytes gostr

datatype frontend_msg =
    Query gostr
  | Parse gostr gostr                         \<comment> \<open>name, query\<close>
  | Bind gostr gostr "gostr option list"      \<comment> \<open>portal, statement, parameters\<close>
  | Describe char gostr
  | Execute gostr
  | CloseMsg char gostr
  | Sync
  | Flush
  | Terminate
  | PasswordMessage gostr
  | OtherMsg gostr

section \<open>The driver\<close>

datatype row_step =
    RowDone                                   \<comment> \<open>\<^verbatim>\<open>Next\<close> is false, \<^verbatim>\<open>Err\<close> is nil\<close>
  | RowErr go_error                           \<comment> \<open>\<^verbatim>\<open>Next\<close> is false, \<^verbatim>\<open>Err\<close> is not\<close>
  | RowData "go_error + go_value list"        \<comment> \<open>\<^verbatim>\<open>Next\<close> is true; the outcome of \<^verbatim>\<open>Scan\<close>\<close>

record ('s, 't, 'r) driver =
  d_exec :: "'s \<Rightarrow> gostr \<Rightarrow> (go_error + i64) \<times> 's"           \<comment> \<open>the rows affected\<close>
  d_query :: "'s \<Rightarrow> gostr \<Rightarrow> (go_error + 'r) \<times> 's"
  d_prepare :: "'s \<Rightarrow> gostr \<Rightarrow> (go_error + 't) \<times> 's"
  d_stmt_exec :: "'s \<Rightarrow> 't \<Rightarrow> go_value list \<Rightarrow> (go_error + i64) \<times> 's"
  d_stmt_query :: "'s \<Rightarrow> 't \<Rightarrow> go_value list \<Rightarrow> (go_error + 'r) \<times> 's"
  d_stmt_close :: "'s \<Rightarrow> 't \<Rightarrow> 's"
  d_columns :: "'s \<Rightarrow> 'r \<Rightarrow> go_error + column_type list"
  d_next :: "'s \<Rightarrow> 'r \<Rightarrow> row_step \<times> 's"
  d_rows_close :: "'s \<Rightarrow> 'r \<Rightarrow> 's"
  d_exec_args :: "'s \<Rightarrow> gostr \<Rightarrow> go_value list \<Rightarrow> (go_error + i64) \<times> 's"
  d_open :: "'s \<Rightarrow> gostr \<Rightarrow> go_error option \<times> 's"            \<comment> \<open>\<^verbatim>\<open>sql.Open\<close>\<close>
  d_pin :: "'s \<Rightarrow> go_error option \<times> 's"                      \<comment> \<open>\<^verbatim>\<open>db.Conn\<close>\<close>
  d_unpin :: "'s \<Rightarrow> go_error option \<times> 's"                    \<comment> \<open>\<^verbatim>\<open>conn.Close\<close>\<close>
  d_shut :: "'s \<Rightarrow> go_error option \<times> 's"                     \<comment> \<open>\<^verbatim>\<open>db.Close\<close>\<close>

section \<open>The state of a connection\<close>

record 't preparedStatement =
  ps_name :: gostr
  ps_query :: gostr
  ps_stmt :: 't
  ps_nparams :: nat

record ('t, 'r) boundPortal =
  bp_name :: gostr
  bp_ps :: "'t preparedStatement"
  bp_params :: "go_value list"
  bp_executed :: bool
  bp_rows :: "'r option"
  bp_cols :: "column_type list"
  bp_oids :: "oid32 list"
  bp_result :: "i64 option"
  bp_execErr :: "go_error option"

record ('s, 't, 'r) conn =
  dbstate :: 's
  db_open :: bool                       \<comment> \<open>\<^verbatim>\<open>c.db\<close> is not nil\<close>
  pinned :: bool                        \<comment> \<open>\<^verbatim>\<open>c.conn\<close> is not nil\<close>
  database :: gostr
  txStatus :: tx_status
  stmts :: "(gostr \<times> 't preparedStatement) list"
  portals :: "(gostr \<times> ('t, 'r) boundPortal) list"
  skipUntilSync :: bool
  sent :: "backend_msg list list"       \<comment> \<open>one entry per successful write\<close>
  wfail :: "nat option"                 \<comment> \<open>writes left before the socket fails\<close>

datatype hres = HNil | HErr go_error | HPanic

text \<open>\<^verbatim>\<open>newConn\<close>.\<close>

definition newConn :: "'s \<Rightarrow> nat option \<Rightarrow> ('s, 't, 'r) conn" where
  "newConn s w =
     \<lparr>dbstate = s, db_open = False, pinned = False, database = [], txStatus = TxIdle, stmts = [], portals = [],
      skipUntilSync = False, sent = [], wfail = w\<rparr>"

definition writeError_text :: gostr where
  "writeError_text = ''write: broken pipe''"

definition writeMessages :: "backend_msg list \<Rightarrow> ('s, 't, 'r) conn \<Rightarrow> ('s, 't, 'r) conn \<times> hres" where
  "writeMessages ms c =
     (if wfail c = Some 0 then (c, HErr (ErrMsg writeError_text))
      else (c\<lparr>sent := sent c @ [ms], wfail := map_option (\<lambda>n. n - 1) (wfail c)\<rparr>, HNil))"

definition errorResponse :: "go_error \<Rightarrow> backend_msg" where
  "errorResponse err = ErrorResponse ''ERROR'' (sqlState err) (error_text err)"

definition writeError :: "go_error \<Rightarrow> ('s, 't, 'r) conn \<Rightarrow> ('s, 't, 'r) conn \<times> hres" where
  "writeError err c = writeMessages [errorResponse err] c"

definition writeErrorReady :: "tx_status \<Rightarrow> go_error \<Rightarrow> ('s, 't, 'r) conn \<Rightarrow> ('s, 't, 'r) conn \<times> hres" where
  "writeErrorReady tx err c = writeMessages [errorResponse err, ReadyForQuery tx] c"

definition fail_tx :: "('s, 't, 'r) conn \<Rightarrow> ('s, 't, 'r) conn" where
  "fail_tx c = (if txStatus c = TxInProgress then c\<lparr>txStatus := TxFailed\<rparr> else c)"

definition failSimple :: "go_error \<Rightarrow> ('s, 't, 'r) conn \<Rightarrow> ('s, 't, 'r) conn \<times> hres" where
  "failSimple err c = (let c' = fail_tx c in writeErrorReady (txStatus c') err c')"

definition failExtended :: "go_error \<Rightarrow> ('s, 't, 'r) conn \<Rightarrow> ('s, 't, 'r) conn \<times> hres" where
  "failExtended err c = writeError err ((fail_tx c)\<lparr>skipUntilSync := True\<rparr>)"

definition noteCompleted :: "gostr \<Rightarrow> ('s, 't, 'r) conn \<Rightarrow> ('s, 't, 'r) conn" where
  "noteCompleted kw c =
     (if isTxBegin kw then c\<lparr>txStatus := TxInProgress\<rparr>
      else if isTxCommit kw \<or> isTxRollback kw then c\<lparr>txStatus := TxIdle\<rparr>
      else c)"

definition rollbackFailed :: "('s, 't, 'r) driver \<Rightarrow> ('s, 't, 'r) conn \<Rightarrow> ('s, 't, 'r) conn" where
  "rollbackFailed D c = c\<lparr>dbstate := snd (d_exec D (dbstate c) ''ROLLBACK''), txStatus := TxIdle\<rparr>"

section \<open>Rows\<close>

definition funcCallLabel :: re where
  "funcCallLabel =
     RSeqs [RBegin,
       RGroup 1 (RSeq (RCls False (Cls False [CRange (CHR ''A'') (CHR ''Z''), CRange (CHR ''a'') (CHR ''z''), CChar (CHR ''_'')]))
         (RStar True (RCls False (Cls False [CRange (CHR ''A'') (CHR ''Z''), CRange (CHR ''a'') (CHR ''z''), CRange (CHR ''0'') (CHR ''9''), CChar (CHR ''_'')])))),
       Sps, CLit ''('', RStar True (RCls False r_dot), CLit '')'', REnd]"

definition pgColumnName :: "gostr \<Rightarrow> gostr" where
  "pgColumnName label =
     (case find funcCallLabel label of Some m \<Rightarrow> ToLower (group label m 1) | None \<Rightarrow> label)"

definition toRowDescription :: "column_type list \<Rightarrow> oid32 list \<Rightarrow> backend_msg" where
  "toRowDescription cols oids =
     RowDescription (map (\<lambda>(col, oid). \<lparr>fd_name = pgColumnName (col_name col), fd_oid = oid, fd_size = typeSize oid\<rparr>)
       (zip cols oids))"

definition rowDescriptionOrNoData :: "column_type list \<Rightarrow> oid32 list \<Rightarrow> backend_msg" where
  "rowDescriptionOrNoData cols oids = (if cols = [] then NoData else toRowDescription cols oids)"

text \<open>\<^verbatim>\<open>scanRow\<close>, after the driver's \<^verbatim>\<open>Scan\<close>.\<close>

definition scanRow :: "oid32 list \<Rightarrow> go_error + go_value list \<Rightarrow> go_error + backend_msg" where
  "scanRow oids r =
     (case r of
        Inl e \<Rightarrow> Inl (ErrWrap ''scan: '' e [])
      | Inr vals \<Rightarrow> Inr (DataRow (map (\<lambda>(oid, v). encodeText oid v) (zip oids vals))))"

datatype stream_end = SDone | SRowErr go_error | SErr go_error

text \<open>The loop \<^verbatim>\<open>for rows.Next()\<close> with the buffer and the number of rows so far; it may not
  return.\<close>

partial_function (option) stream_rows ::
  "('s, 't, 'r) driver \<Rightarrow> 's \<Rightarrow> 'r \<Rightarrow> oid32 list \<Rightarrow> backend_msg list \<Rightarrow> int \<Rightarrow>
     (stream_end \<times> backend_msg list \<times> int \<times> 's) option" where
  "stream_rows D s r oids buf n =
     (case d_next D s r of
        (RowDone, s') \<Rightarrow> Some (SDone, buf, n, s')
      | (RowErr e, s') \<Rightarrow> Some (SErr e, buf, n, s')
      | (RowData v, s') \<Rightarrow>
          (case scanRow oids v of
             Inl e \<Rightarrow> Some (SRowErr e, buf, n, s')
           | Inr row \<Rightarrow> stream_rows D s' r oids (buf @ [row]) (n + 1)))"

section \<open>The simple query protocol\<close>

definition execSimpleQuery :: "('s, 't, 'r) driver \<Rightarrow> gostr \<Rightarrow> ('s, 't, 'r) conn \<Rightarrow> (('s, 't, 'r) conn \<times> hres) option" where
  "execSimpleQuery D query c =
     (if \<not> pinned c then Some (c, HPanic)
      else
        (case d_exec D (dbstate c) query of
           (Inl e, s) \<Rightarrow> Some (failSimple e (c\<lparr>dbstate := s\<rparr>))
         | (Inr affected, s) \<Rightarrow>
             (let c1 = noteCompleted (leadingKeyword query) (c\<lparr>dbstate := s\<rparr>)
              in Some (writeMessages [CommandComplete (commandTag query (sint affected) 0), ReadyForQuery (txStatus c1)] c1))))"

text \<open>The deferred \<^verbatim>\<open>rows.Close()\<close>.\<close>

definition closing :: "('s, 't, 'r) driver \<Rightarrow> 'r \<Rightarrow> ('s, 't, 'r) conn \<times> hres \<Rightarrow> ('s, 't, 'r) conn \<times> hres" where
  "closing D r = (\<lambda>(c, h). (c\<lparr>dbstate := d_rows_close D (dbstate c) r\<rparr>, h))"

definition streamSimpleQuery :: "('s, 't, 'r) driver \<Rightarrow> gostr \<Rightarrow> ('s, 't, 'r) conn \<Rightarrow> (('s, 't, 'r) conn \<times> hres) option" where
  "streamSimpleQuery D query c =
     (if \<not> pinned c then Some (c, HPanic)
      else
        (case d_query D (dbstate c) query of
           (Inl e, s) \<Rightarrow> Some (failSimple e (c\<lparr>dbstate := s\<rparr>))
         | (Inr r, s) \<Rightarrow>
             (case d_columns D s r of
                Inl e \<Rightarrow> Some (closing D r (failSimple e (c\<lparr>dbstate := s\<rparr>)))
              | Inr cols \<Rightarrow>
                  (let oids = columnOIDs cols; buf0 = (if cols = [] then [] else [toRowDescription cols oids]) in
                   case stream_rows D s r oids buf0 0 of
                     None \<Rightarrow> None
                   | Some (SRowErr e, buf, n, s') \<Rightarrow> Some (closing D r (failSimple e (c\<lparr>dbstate := s'\<rparr>)))
                   | Some (SErr e, buf, n, s') \<Rightarrow> Some (closing D r (failSimple e (c\<lparr>dbstate := s'\<rparr>)))
                   | Some (SDone, buf, n, s') \<Rightarrow>
                       Some (closing D r
                         (writeMessages (buf @ [CommandComplete (commandTag query 0 n), ReadyForQuery (txStatus c)])
                            (c\<lparr>dbstate := s'\<rparr>)))))))"

definition handleQueryMessage :: "('s, 't, 'r) driver \<Rightarrow> gostr \<Rightarrow> ('s, 't, 'r) conn \<Rightarrow> (('s, 't, 'r) conn \<times> hres) option" where
  "handleQueryMessage D msg c =
     (let query = conn_rewrite (database c) msg in
      if TrimSpace query = [] then Some (writeMessages [EmptyQueryResponse, ReadyForQuery (txStatus c)] c)
      else
        (let kw = leadingKeyword query in
         if txStatus c = TxFailed then
           (if isTxCommit kw \<or> isTxRollback kw then
              (if \<not> pinned c then Some (c, HPanic)
               else Some (writeMessages [CommandComplete ''ROLLBACK'', ReadyForQuery TxIdle] (rollbackFailed D c)))
            else Some (writeErrorReady TxFailed ErrInFailedTransaction c))
         else if \<not> isRowReturning query then execSimpleQuery D query c
         else streamSimpleQuery D query c))"

section \<open>The extended query protocol\<close>

definition handleParseMessage ::
  "('s, 't, 'r) driver \<Rightarrow> gostr \<Rightarrow> gostr \<Rightarrow> ('s, 't, 'r) conn \<Rightarrow> (('s, 't, 'r) conn \<times> hres) option" where
  "handleParseMessage D name msg c =
     (let query = conn_rewrite (database c) msg in
      if \<not> pinned c then Some (c, HPanic)
      else
        (case d_prepare D (dbstate c) query of
           (Inl e, s) \<Rightarrow> Some (failExtended (ErrWrap ''prepare: '' e []) (c\<lparr>dbstate := s\<rparr>))
         | (Inr t, s) \<Rightarrow>
             (let s1 = (case map_of (stmts c) name of None \<Rightarrow> s | Some old \<Rightarrow> d_stmt_close D s (ps_stmt old));
                  ps = \<lparr>ps_name = name, ps_query = query, ps_stmt = t, ps_nparams = countParams query\<rparr>
              in Some (writeMessages [ParseComplete]
                   (c\<lparr>dbstate := s1, stmts := AList.update name ps (stmts c)\<rparr>)))))"

text \<open>\<^verbatim>\<open>(*boundPortal).close\<close> on the driver state.\<close>

definition portal_close :: "('s, 't, 'r) driver \<Rightarrow> ('t, 'r) boundPortal \<Rightarrow> 's \<Rightarrow> 's" where
  "portal_close D p s = (case bp_rows p of None \<Rightarrow> s | Some r \<Rightarrow> d_rows_close D s r)"

definition no_statement :: "gostr \<Rightarrow> go_error" where
  "no_statement name = ErrMsg (''prepared statement '' @ GoQuote name @ '' does not exist'')"

definition no_portal :: "gostr \<Rightarrow> go_error" where
  "no_portal name = ErrMsg (''portal '' @ GoQuote name @ '' does not exist'')"

definition param_value :: "gostr option \<Rightarrow> go_value" where
  "param_value p = (case p of None \<Rightarrow> VNil | Some s \<Rightarrow> VString s)"

definition handleBindMessage ::
  "('s, 't, 'r) driver \<Rightarrow> gostr \<Rightarrow> gostr \<Rightarrow> gostr option list \<Rightarrow> ('s, 't, 'r) conn \<Rightarrow> (('s, 't, 'r) conn \<times> hres) option" where
  "handleBindMessage D portal stmt params c =
     (case map_of (stmts c) stmt of
        None \<Rightarrow> Some (failExtended (no_statement stmt) c)
      | Some ps \<Rightarrow>
          (let s = (case map_of (portals c) portal of None \<Rightarrow> dbstate c | Some old \<Rightarrow> portal_close D old (dbstate c));
               p = \<lparr>bp_name = portal, bp_ps = ps, bp_params = map param_value params, bp_executed = False,
                    bp_rows = None, bp_cols = [], bp_oids = [], bp_result = None, bp_execErr = None\<rparr>
           in Some (writeMessages [BindComplete]
                (c\<lparr>dbstate := s, portals := AList.update portal p (portals c)\<rparr>))))"

text \<open>\<^verbatim>\<open>(*boundPortal).execute\<close>: the error, the portal and the driver state.\<close>

definition portal_execute ::
  "('s, 't, 'r) driver \<Rightarrow> ('t, 'r) boundPortal \<Rightarrow> 's \<Rightarrow> go_error option \<times> ('t, 'r) boundPortal \<times> 's" where
  "portal_execute D p s =
     (if bp_executed p then (bp_execErr p, p, s)
      else
        (let p1 = p\<lparr>bp_executed := True\<rparr> in
         if \<not> isRowReturning (ps_query (bp_ps p)) then
           (case d_stmt_exec D s (ps_stmt (bp_ps p)) (bp_params p) of
              (Inl e, s1) \<Rightarrow> (Some e, p1\<lparr>bp_execErr := Some e\<rparr>, s1)
            | (Inr res, s1) \<Rightarrow> (None, p1\<lparr>bp_result := Some res\<rparr>, s1))
         else
           (case d_stmt_query D s (ps_stmt (bp_ps p)) (bp_params p) of
              (Inl e, s1) \<Rightarrow> (Some e, p1\<lparr>bp_execErr := Some e\<rparr>, s1)
            | (Inr r, s1) \<Rightarrow>
                (case d_columns D s1 r of
                   Inl e \<Rightarrow> (Some e, p1\<lparr>bp_execErr := Some e\<rparr>, d_rows_close D s1 r)
                 | Inr cols \<Rightarrow>
                     (None, p1\<lparr>bp_rows := Some r, bp_cols := cols, bp_oids := columnOIDs cols\<rparr>, s1)))))"

text \<open>The largest allocation of the Go runtime on amd64; \<^verbatim>\<open>make\<close> panics beyond it.\<close>

definition maxAlloc :: int where
  "maxAlloc = 2 ^ 48"

definition describeStatement ::
  "('s, 't, 'r) driver \<Rightarrow> 't preparedStatement \<Rightarrow> ('s, 't, 'r) conn \<Rightarrow> (('s, 't, 'r) conn \<times> hres) option" where
  "describeStatement D ps c =
     (if maxAlloc < 16 * int (ps_nparams ps) then Some (c, HPanic)
      else
        (case d_stmt_query D (dbstate c) (ps_stmt ps) (replicate (ps_nparams ps) VNil) of
           (Inl e, s) \<Rightarrow> Some (failExtended e (c\<lparr>dbstate := s\<rparr>))
         | (Inr r, s) \<Rightarrow>
             (let c1 = c\<lparr>dbstate := d_rows_close D s r\<rparr> in
              case d_columns D s r of
                Inl e \<Rightarrow> Some (failExtended e c1)
              | Inr cols \<Rightarrow>
                  Some (writeMessages
                    [ParameterDescription (replicate (ps_nparams ps) 0), rowDescriptionOrNoData cols (columnOIDs cols)] c1))))"

definition put_portal :: "gostr \<Rightarrow> ('t, 'r) boundPortal \<Rightarrow> 's \<Rightarrow> ('s, 't, 'r) conn \<Rightarrow> ('s, 't, 'r) conn" where
  "put_portal name p s c = c\<lparr>dbstate := s, portals := AList.update name p (portals c)\<rparr>"

definition handleDescribeMessage ::
  "('s, 't, 'r) driver \<Rightarrow> char \<Rightarrow> gostr \<Rightarrow> ('s, 't, 'r) conn \<Rightarrow> (('s, 't, 'r) conn \<times> hres) option" where
  "handleDescribeMessage D objectType name c =
     (if objectType = CHR ''S'' then
        (case map_of (stmts c) name of
           None \<Rightarrow> Some (failExtended (no_statement name) c)
         | Some ps \<Rightarrow> describeStatement D ps c)
      else if objectType = CHR ''P'' then
        (case map_of (portals c) name of
           None \<Rightarrow> Some (failExtended (no_portal name) c)
         | Some p \<Rightarrow>
             if txStatus c = TxFailed then
               (let kw = leadingKeyword (ps_query (bp_ps p)) in
                if isTxCommit kw \<or> isTxRollback kw then Some (writeMessages [NoData] c)
                else Some (failExtended ErrInFailedTransaction c))
             else
               (case portal_execute D p (dbstate c) of
                  (Some e, p1, s) \<Rightarrow> Some (failExtended e (put_portal name p1 s c))
                | (None, p1, s) \<Rightarrow>
                    Some (writeMessages [rowDescriptionOrNoData (bp_cols p1) (bp_oids p1)] (put_portal name p1 s c))))
      else Some (failExtended (ErrMsg (''invalid Describe object type '' @ GoQuoteByte objectType)) c))"

text \<open>The second half of \<open>handleExecuteMessage\<close>, behind the row loop.\<close>

definition completeExecute ::
  "gostr \<Rightarrow> ('t, 'r) boundPortal \<Rightarrow> backend_msg list \<Rightarrow> int \<Rightarrow> ('s, 't, 'r) conn \<Rightarrow> ('s, 't, 'r) conn \<times> hres" where
  "completeExecute kw p buf streamed c =
     (let affected = (case bp_result p of None \<Rightarrow> 0 | Some r \<Rightarrow> sint r)
      in writeMessages (buf @ [CommandComplete (commandTag (ps_query (bp_ps p)) affected streamed)]) (noteCompleted kw c))"

definition handleExecuteMessage ::
  "('s, 't, 'r) driver \<Rightarrow> gostr \<Rightarrow> ('s, 't, 'r) conn \<Rightarrow> (('s, 't, 'r) conn \<times> hres) option" where
  "handleExecuteMessage D name c =
     (case map_of (portals c) name of
        None \<Rightarrow> Some (failExtended (no_portal name) c)
      | Some p \<Rightarrow>
          (let kw = leadingKeyword (ps_query (bp_ps p)) in
           if txStatus c = TxFailed then
             (if isTxCommit kw \<or> isTxRollback kw then
                (if \<not> pinned c then Some (c, HPanic)
                 else Some (writeMessages [CommandComplete ''ROLLBACK''] (rollbackFailed D c)))
              else Some (failExtended ErrInFailedTransaction c))
           else
             (case portal_execute D p (dbstate c) of
                (Some e, p1, s) \<Rightarrow> Some (failExtended e (put_portal name p1 s c))
              | (None, p1, s) \<Rightarrow>
                  (case bp_rows p1 of
                     None \<Rightarrow> Some (completeExecute kw p1 [] 0 (put_portal name p1 s c))
                   | Some r \<Rightarrow>
                       (case stream_rows D s r (bp_oids p1) [] 0 of
                          None \<Rightarrow> None
                        | Some (outcome, buf, n, s1) \<Rightarrow>
                            (let s2 = portal_close D p1 s1; p2 = p1\<lparr>bp_rows := None\<rparr>; c2 = put_portal name p2 s2 c in
                             case outcome of
                               SDone \<Rightarrow> Some (completeExecute kw p2 buf n c2)
                             | SRowErr e \<Rightarrow> Some (failExtended e c2)
                             | SErr e \<Rightarrow> Some (failExtended e c2)))))))"

definition handleCloseMessage ::
  "('s, 't, 'r) driver \<Rightarrow> char \<Rightarrow> gostr \<Rightarrow> ('s, 't, 'r) conn \<Rightarrow> (('s, 't, 'r) conn \<times> hres) option" where
  "handleCloseMessage D objectType name c =
     (let c1 =
        (if objectType = CHR ''S'' then
           (case map_of (stmts c) name of
              None \<Rightarrow> c
            | Some ps \<Rightarrow> c\<lparr>dbstate := d_stmt_close D (dbstate c) (ps_stmt ps), stmts := AList.delete name (stmts c)\<rparr>)
         else if objectType = CHR ''P'' then
           (case map_of (portals c) name of
              None \<Rightarrow> c
            | Some p \<Rightarrow> c\<lparr>dbstate := portal_close D p (dbstate c), portals := AList.delete name (portals c)\<rparr>)
         else c)
      in Some (writeMessages [CloseComplete] c1))"

section \<open>The message loop\<close>

datatype serve_end = Closed go_error | Exited | Panicked

definition wrap_hres :: "gostr \<Rightarrow> hres \<Rightarrow> hres" where
  "wrap_hres pre h = (case h of HErr e \<Rightarrow> HErr (ErrWrap pre e []) | _ \<Rightarrow> h)"

definition labelled :: "gostr \<Rightarrow> (('s, 't, 'r) conn \<times> hres) option \<Rightarrow> (('s, 't, 'r) conn \<times> hres) option" where
  "labelled pre = map_option (\<lambda>(c, h). (c, wrap_hres pre h))"

text \<open>One message that is not discarded and not Terminate.\<close>

definition handle :: "('s, 't, 'r) driver \<Rightarrow> frontend_msg \<Rightarrow> ('s, 't, 'r) conn \<Rightarrow> (('s, 't, 'r) conn \<times> hres) option" where
  "handle D m c =
     (case m of
        Query q \<Rightarrow> labelled ''query message: '' (handleQueryMessage D q c)
      | Parse name q \<Rightarrow> labelled ''parse message: '' (handleParseMessage D name q c)
      | Bind portal stmt params \<Rightarrow> labelled ''bind message: '' (handleBindMessage D portal stmt params c)
      | Describe ty name \<Rightarrow> labelled ''describe message: '' (handleDescribeMessage D ty name c)
      | Execute portal \<Rightarrow> labelled ''execute message: '' (handleExecuteMessage D portal c)
      | CloseMsg ty name \<Rightarrow> labelled ''close message: '' (handleCloseMessage D ty name c)
      | Sync \<Rightarrow>
          labelled ''sync ready: ''
            (let c1 = c\<lparr>skipUntilSync := False\<rparr> in Some (writeMessages [ReadyForQuery (txStatus c1)] c1))
      | Flush \<Rightarrow> Some (c, HNil)
      | PasswordMessage _ \<Rightarrow> Some (c, HErr (ErrMsg ''unexpected message type''))
      | OtherMsg _ \<Rightarrow> Some (c, HErr (ErrMsg ''unexpected message type''))
      | Terminate \<Rightarrow> Some (c, HNil))"

definition discarded :: "frontend_msg \<Rightarrow> ('s, 't, 'r) conn \<Rightarrow> bool" where
  "discarded m c \<longleftrightarrow> skipUntilSync c \<and> m \<noteq> Sync"

text \<open>The loop of \<^verbatim>\<open>serveConn\<close> on the messages the client sends; the end of the list is a
  closed socket, on which \<^verbatim>\<open>Receive\<close> fails.\<close>

fun serve_loop ::
  "('s, 't, 'r) driver \<Rightarrow> frontend_msg list \<Rightarrow> ('s, 't, 'r) conn \<Rightarrow> (('s, 't, 'r) conn \<times> serve_end) option" where
  "serve_loop D [] c = Some (c, Closed (ErrMsg ''receive message: unexpected EOF''))"
| "serve_loop D (m # ms) c =
     (if discarded m c then serve_loop D ms c
      else if m = Terminate then Some (c, Exited)
      else
        (case handle D m c of
           None \<Rightarrow> None
         | Some (c1, HNil) \<Rightarrow> serve_loop D ms c1
         | Some (c1, HErr e) \<Rightarrow> Some (c1, Closed e)
         | Some (c1, HPanic) \<Rightarrow> Some (c1, Panicked)))"

section \<open>Closing a connection\<close>

text \<open>\<^verbatim>\<open>(*Conn).Close\<close>: every result set, every statement, the pinned connection, the
  handle, the socket (\<open>net\<close> is what closing it returns); the first error is returned.  Go
  iterates over the maps in an unspecified order, the model in the order of the lists.\<close>

definition first_error :: "go_error option list \<Rightarrow> go_error option" where
  "first_error es = (case filter (\<lambda>e. e \<noteq> None) es of [] \<Rightarrow> None | e # _ \<Rightarrow> e)"

definition close_portals :: "('s, 't, 'r) driver \<Rightarrow> (gostr \<times> ('t, 'r) boundPortal) list \<Rightarrow> 's \<Rightarrow> 's" where
  "close_portals D ps s = foldl (\<lambda>s (_, p). portal_close D p s) s ps"

definition close_stmts :: "('s, 't, 'r) driver \<Rightarrow> (gostr \<times> 't preparedStatement) list \<Rightarrow> 's \<Rightarrow> 's" where
  "close_stmts D ss s = foldl (\<lambda>s (_, ps). d_stmt_close D s (ps_stmt ps)) s ss"

definition conn_close ::
  "('s, 't, 'r) driver \<Rightarrow> go_error option \<Rightarrow> ('s, 't, 'r) conn \<Rightarrow> go_error option \<times> ('s, 't, 'r) conn" where
  "conn_close D net c =
     (let s1 = close_stmts D (stmts c) (close_portals D (portals c) (dbstate c));
          (e1, s2) = (if pinned c then d_unpin D s1 else (None, s1));
          (e2, s3) = (if db_open c then d_shut D s2 else (None, s2))
      in (first_error [e1, e2, net],
          c\<lparr>dbstate := s3, portals := map (\<lambda>(n, p). (n, p\<lparr>bp_rows := None\<rparr>)) (portals c)\<rparr>))"

end
