(* ===== verification/Session_Protocol.thy ===== *)
theory Session_Protocol
  imports Session
begin

text \<open>
  What the handlers of \<open>Session\<close> promise: the shape of the reply to each message, the
  transaction state machine, and what a failed transaction lets through.  The contracts are
  locales, interpreted for the handlers of the model with any driver and any message.
\<close>

section \<open>Reply shapes\<close>

fun is_ready :: "backend_msg \<Rightarrow> bool" where
  "is_ready (ReadyForQuery _) = True"
| "is_ready _ = False"

fun is_error :: "backend_msg \<Rightarrow> bool" where
  "is_error (ErrorResponse _ _ _) = True"
| "is_error _ = False"

definition ready_free :: "backend_msg list \<Rightarrow> bool" where
  "ready_free ms \<longleftrightarrow> \<not> list_ex is_ready ms"

definition has_error :: "backend_msg list \<Rightarrow> bool" where
  "has_error ms \<longleftrightarrow> list_ex is_error ms"

lemma ready_free_simps [simp]:
  "ready_free []" "ready_free (m # ms) \<longleftrightarrow> \<not> is_ready m \<and> ready_free ms"
  "ready_free (ms @ ns) \<longleftrightarrow> ready_free ms \<and> ready_free ns"
  by (auto simp: ready_free_def)

lemma has_error_simps [simp]:
  "\<not> has_error []" "has_error (m # ms) \<longleftrightarrow> is_error m \<or> has_error ms"
  "has_error (ms @ ns) \<longleftrightarrow> has_error ms \<or> has_error ns"
  by (auto simp: has_error_def)

text \<open>The transaction state machine, as the client sees it.\<close>

inductive tx_step :: "tx_status \<Rightarrow> tx_status \<Rightarrow> bool" where
  tx_stay: "tx_step t t"
| tx_begin: "tx_step TxIdle TxInProgress"
| tx_finish: "tx_step TxInProgress TxIdle"
| tx_abort: "tx_step TxInProgress TxFailed"
| tx_rollback: "tx_step TxFailed TxIdle"

inductive_cases tx_stepE: "tx_step a b"
inductive_simps tx_step_simps: "tx_step TxIdle b" "tx_step TxInProgress b" "tx_step TxFailed b"

lemma tx_step_iff: "tx_step a b \<longleftrightarrow> \<not> (a = TxIdle \<and> b = TxFailed) \<and> \<not> (a = TxFailed \<and> b = TxInProgress)"
  by (cases a; cases b) (auto intro: tx_step.intros elim: tx_stepE)

text \<open>A session whose statements cannot make a handler panic.\<close>

definition safe :: "('s, 't, 'r) conn \<Rightarrow> bool" where
  "safe c \<longleftrightarrow> pinned c \<and> (\<forall>(n, ps) \<in> set (stmts c). 16 * int (ps_nparams ps) \<le> maxAlloc)"

definition same_session :: "('s, 't, 'r) conn \<Rightarrow> ('s, 't, 'r) conn \<Rightarrow> bool" where
  "same_session c c' \<longleftrightarrow> pinned c' = pinned c \<and> database c' = database c \<and> tx_step (txStatus c) (txStatus c')"

lemma same_session_refl [simp]: "same_session c c"
  by (simp add: same_session_def tx_stay)

text \<open>Any handler: at most one write, and none when the connection is to be closed.\<close>

fun session_reply :: "('s, 't, 'r) conn \<Rightarrow> ('s, 't, 'r) conn \<times> hres \<Rightarrow> bool" where
  "session_reply c (c', h) \<longleftrightarrow> same_session c c' \<and> (wfail c = None \<longrightarrow> wfail c' = None) \<and>
     (case h of
        HNil \<Rightarrow> \<exists>ms. sent c' = sent c @ [ms]
      | HErr e \<Rightarrow> sent c' = sent c \<and> wfail c = Some 0
      | HPanic \<Rightarrow> c' = c \<and> \<not> safe c)"

text \<open>The simple protocol: one write that ends with the only ReadyForQuery, which shows the
  new status; prepared statements and portals are not touched.\<close>

fun simple_reply :: "('s, 't, 'r) conn \<Rightarrow> ('s, 't, 'r) conn \<times> hres \<Rightarrow> bool" where
  "simple_reply c (c', h) \<longleftrightarrow> session_reply c (c', h) \<and> skipUntilSync c' = skipUntilSync c \<and>
     stmts c' = stmts c \<and> portals c' = portals c \<and>
     (h = HNil \<longrightarrow> (\<exists>ms. sent c' = sent c @ [ms @ [ReadyForQuery (txStatus c')]] \<and> ready_free ms))"

text \<open>The extended protocol: one write without ReadyForQuery; the session starts to discard
  messages exactly when it reported an error.\<close>

fun extended_reply :: "('s, 't, 'r) conn \<Rightarrow> ('s, 't, 'r) conn \<times> hres \<Rightarrow> bool" where
  "extended_reply c (c', h) \<longleftrightarrow> session_reply c (c', h) \<and>
     (h = HNil \<longrightarrow> (\<exists>ms. sent c' = sent c @ [ms] \<and> ready_free ms
        \<and> skipUntilSync c' = (skipUntilSync c \<or> has_error ms)))"

section \<open>Contracts\<close>

locale session_handler =
  fixes h :: "('s, 't, 'r) conn \<Rightarrow> (('s, 't, 'r) conn \<times> hres) option"
  assumes replies: "h c = Some r \<Longrightarrow> session_reply c r"
begin

lemma tx_legal: "h c = Some (c', res) \<Longrightarrow> tx_step (txStatus c) (txStatus c')"
  using replies by (fastforce simp: same_session_def)

lemma no_panic: "h c = Some (c', res) \<Longrightarrow> safe c \<Longrightarrow> res \<noteq> HPanic"
  using replies by fastforce

lemma open_until_socket_fails: "h c = Some (c', HErr e) \<Longrightarrow> wfail c = Some 0"
  using replies by fastforce

lemma labelled_replies: "labelled pre (h c) = Some r \<Longrightarrow> session_reply c r"
proof -
  assume "labelled pre (h c) = Some r"
  then obtain c' res where r: "h c = Some (c', res)" "r = (c', wrap_hres pre res)"
    by (auto simp: labelled_def)
  from replies [OF r(1)] show ?thesis by (cases res) (simp_all add: r(2) wrap_hres_def)
qed

end

locale simple_handler =
  fixes h :: "('s, 't, 'r) conn \<Rightarrow> (('s, 't, 'r) conn \<times> hres) option"
  assumes simple: "h c = Some r \<Longrightarrow> simple_reply c r"

sublocale simple_handler \<subseteq> session_handler
proof
  show "session_reply c r" if "h c = Some r" for c r
    using simple [OF that] by (cases r) auto
qed

locale extended_handler =
  fixes h :: "('s, 't, 'r) conn \<Rightarrow> (('s, 't, 'r) conn \<times> hres) option"
  assumes extended: "h c = Some r \<Longrightarrow> extended_reply c r"

sublocale extended_handler \<subseteq> session_handler
proof
  show "session_reply c r" if "h c = Some r" for c r
    using extended [OF that] by (cases r) auto
qed

section \<open>The helpers\<close>

lemma writeMessages_reply:
  assumes "same_session c c1" "sent c1 = sent c" "wfail c1 = wfail c"
  shows "session_reply c (writeMessages ms c1)"
  using assms by (auto simp: writeMessages_def same_session_def)

lemma writeMessages_simple:
  assumes "same_session c c1" "sent c1 = sent c" "wfail c1 = wfail c"
    "skipUntilSync c1 = skipUntilSync c" "stmts c1 = stmts c" "portals c1 = portals c"
    "ready_free ms" "t = txStatus c1"
  shows "simple_reply c (writeMessages (ms @ [ReadyForQuery t]) c1)"
  using assms by (auto simp: writeMessages_def same_session_def)

lemma writeMessages_extended:
  assumes "same_session c c1" "sent c1 = sent c" "wfail c1 = wfail c"
    "skipUntilSync c1 = (skipUntilSync c \<or> has_error ms)" "ready_free ms"
  shows "extended_reply c (writeMessages ms c1)"
  using assms by (auto simp: writeMessages_def same_session_def)

lemma fail_tx_sel [simp]:
  "sent (fail_tx c) = sent c" "wfail (fail_tx c) = wfail c" "skipUntilSync (fail_tx c) = skipUntilSync c"
  "stmts (fail_tx c) = stmts c" "portals (fail_tx c) = portals c" "pinned (fail_tx c) = pinned c"
  "database (fail_tx c) = database c" "dbstate (fail_tx c) = dbstate c"
  "txStatus (fail_tx c) = (if txStatus c = TxInProgress then TxFailed else txStatus c)"
  by (auto simp: fail_tx_def)

lemma noteCompleted_sel [simp]:
  "sent (noteCompleted kw c) = sent c" "wfail (noteCompleted kw c) = wfail c"
  "skipUntilSync (noteCompleted kw c) = skipUntilSync c" "stmts (noteCompleted kw c) = stmts c"
  "portals (noteCompleted kw c) = portals c" "pinned (noteCompleted kw c) = pinned c"
  "database (noteCompleted kw c) = database c" "dbstate (noteCompleted kw c) = dbstate c"
  "txStatus (noteCompleted kw c) = (if isTxBegin kw then TxInProgress
     else if isTxCommit kw \<or> isTxRollback kw then TxIdle else txStatus c)"
  by (auto simp: noteCompleted_def)

lemma rollbackFailed_sel [simp]:
  "sent (rollbackFailed D c) = sent c" "wfail (rollbackFailed D c) = wfail c"
  "skipUntilSync (rollbackFailed D c) = skipUntilSync c" "stmts (rollbackFailed D c) = stmts c"
  "portals (rollbackFailed D c) = portals c" "pinned (rollbackFailed D c) = pinned c"
  "database (rollbackFailed D c) = database c" "txStatus (rollbackFailed D c) = TxIdle"
  by (auto simp: rollbackFailed_def)

lemma put_portal_sel [simp]:
  "sent (put_portal n p s c) = sent c" "wfail (put_portal n p s c) = wfail c"
  "skipUntilSync (put_portal n p s c) = skipUntilSync c" "stmts (put_portal n p s c) = stmts c"
  "pinned (put_portal n p s c) = pinned c" "database (put_portal n p s c) = database c"
  "txStatus (put_portal n p s c) = txStatus c" "dbstate (put_portal n p s c) = s"
  by (auto simp: put_portal_def)

lemma failSimple_reply:
  assumes "same_session c c1" "txStatus c1 = txStatus c" "sent c1 = sent c" "wfail c1 = wfail c"
    "skipUntilSync c1 = skipUntilSync c" "stmts c1 = stmts c" "portals c1 = portals c"
  shows "simple_reply c (failSimple e c1)"
  unfolding failSimple_def writeErrorReady_def Let_def
  using writeMessages_simple [of c "fail_tx c1" "[errorResponse e]"] assms
  by (simp add: same_session_def tx_step_iff errorResponse_def)

lemma failExtended_reply:
  assumes "same_session c c1" "txStatus c1 = txStatus c" "sent c1 = sent c" "wfail c1 = wfail c"
  shows "extended_reply c (failExtended e c1)"
  unfolding failExtended_def writeError_def
  using assms by (intro writeMessages_extended) (auto simp: same_session_def tx_step_iff errorResponse_def)

lemma closing_reply: "simple_reply c r \<Longrightarrow> snd r \<noteq> HPanic \<Longrightarrow> simple_reply c (closing D rs r)"
  by (cases r; cases "snd r") (auto simp: closing_def same_session_def)

lemma failSimple_no_panic: "snd (failSimple e c) \<noteq> HPanic" "snd (writeMessages ms c) \<noteq> HPanic"
  by (simp_all add: failSimple_def writeErrorReady_def writeMessages_def Let_def)

text \<open>The row loop only appends data rows, and counts them.\<close>

fun appended_rows :: "backend_msg list \<Rightarrow> int \<Rightarrow> stream_end \<times> backend_msg list \<times> int \<times> 's \<Rightarrow> bool" where
  "appended_rows buf n (e, buf', n', s') \<longleftrightarrow>
     (\<exists>rows. buf' = buf @ rows \<and> n' = n + int (length rows) \<and> list_all (\<lambda>m. \<exists>vs. m = DataRow vs) rows)"

lemma appended_rows_step:
  "appended_rows (buf @ [DataRow vs]) (n + 1) y \<Longrightarrow> appended_rows buf n y"
  by (cases y) (auto intro: exI [of _ "DataRow vs # _"])

lemma stream_rows_data:
  assumes "stream_rows D s r oids buf n = Some y"
  shows "appended_rows buf n y"
proof (rule stream_rows.raw_induct [where P = "\<lambda>D s r oids buf n y. appended_rows buf n y", OF _ assms], goal_cases)
  case (1 f D s r oids buf n y)
  from 1(2) consider "\<exists>e s'. y = (e, buf, n, s')"
    | vs s' where "f D s' r oids (buf @ [DataRow vs]) (n + 1) = Some y"
    by (auto simp: scanRow_def split: prod.splits row_step.splits sum.splits)
  then show ?case
  proof cases
    case 1
    then show ?thesis by auto
  next
    case 2
    from 1(1) [OF this] show ?thesis by (rule appended_rows_step)
  qed
qed

lemma data_rows_plain: "list_all (\<lambda>m. \<exists>vs. m = DataRow vs) rows \<Longrightarrow> ready_free rows \<and> \<not> has_error rows"
  by (induction rows) auto

section \<open>The handlers keep their contracts\<close>

lemma execSimple_simple: "txStatus c \<noteq> TxFailed \<Longrightarrow> execSimpleQuery D q c = Some r \<Longrightarrow> simple_reply c r"
  unfolding execSimpleQuery_def Let_def
  by (auto split: if_splits prod.splits sum.splits simp: safe_def
      intro!: failSimple_reply writeMessages_simple [of _ _ "[_]", simplified])
     (auto simp: same_session_def tx_step_iff)

lemma streamSimple_simple:
  assumes "streamSimpleQuery D q c = Some r"
  shows "simple_reply c r"
proof (cases "pinned c")
  case False
  with assms show ?thesis by (auto simp: streamSimpleQuery_def safe_def)
next
  case pinned: True
  obtain qr s where q: "d_query D (dbstate c) q = (qr, s)" by (cases "d_query D (dbstate c) q")
  have fail: "simple_reply c (failSimple e (c\<lparr>dbstate := s'\<rparr>))" for e s'
    by (rule failSimple_reply) (simp_all add: same_session_def tx_step_iff)
  note cl = closing_reply [OF _ failSimple_no_panic(1)] closing_reply [OF _ failSimple_no_panic(2)]
  show ?thesis
  proof (cases qr)
    case (Inl e)
    with assms pinned q fail [of e s] show ?thesis
      by (auto simp: streamSimpleQuery_def simp del: simple_reply.simps)
  next
    case (Inr rs)
    show ?thesis
    proof (cases "d_columns D s rs")
      case (Inl e)
      with assms pinned q Inr cl(1) [OF fail [of e s]] show ?thesis
        by (auto simp: streamSimpleQuery_def simp del: simple_reply.simps)
    next
      case cols: (Inr cols)
      let ?oids = "columnOIDs cols"
      let ?buf0 = "if cols = [] then [] else [toRowDescription cols ?oids]"
      from assms pinned q Inr cols obtain e buf n s' where
        st: "stream_rows D s rs ?oids ?buf0 0 = Some (e, buf, n, s')"
        by (auto simp: streamSimpleQuery_def Let_def split: option.splits)
      show ?thesis
      proof (cases e)
        case SDone
        from stream_rows_data [OF st] obtain rows where "buf = ?buf0 @ rows"
          "list_all (\<lambda>m. \<exists>vs. m = DataRow vs) rows" by auto
        then have "ready_free buf" using data_rows_plain by (auto simp: toRowDescription_def)
        then have "simple_reply c (writeMessages ((buf @ [CommandComplete (commandTag q 0 n)]) @ [ReadyForQuery (txStatus c)])
            (c\<lparr>dbstate := s'\<rparr>))"
          by (intro writeMessages_simple) (simp_all add: same_session_def tx_step_iff)
        with assms pinned q Inr cols st SDone cl(2) show ?thesis
          by (auto simp: streamSimpleQuery_def Let_def simp del: simple_reply.simps)
      next
        case (SRowErr e')
        with assms pinned q Inr cols st cl(1) [OF fail] show ?thesis
          by (auto simp: streamSimpleQuery_def Let_def simp del: simple_reply.simps)
      next
        case (SErr e')
        with assms pinned q Inr cols st cl(1) [OF fail] show ?thesis
          by (auto simp: streamSimpleQuery_def Let_def simp del: simple_reply.simps)
      qed
    qed
  qed
qed

interpretation query_handler: simple_handler "handleQueryMessage D msg"
  for D :: "('s, 't, 'r) driver" and msg
proof
  fix c :: "('s, 't, 'r) conn" and r
  assume h: "handleQueryMessage D msg c = Some r"
  let ?q = "conn_rewrite (database c) msg"
  consider "TrimSpace ?q = []" | "TrimSpace ?q \<noteq> []" "txStatus c = TxFailed"
    | "TrimSpace ?q \<noteq> []" "txStatus c \<noteq> TxFailed" by blast
  then show "simple_reply c r"
  proof cases
    case 1
    with h writeMessages_simple [of c c "[EmptyQueryResponse]"] show ?thesis
      by (auto simp: handleQueryMessage_def Let_def simp del: simple_reply.simps)
  next
    case 2
    have "simple_reply c (writeMessages ([CommandComplete ''ROLLBACK''] @ [ReadyForQuery TxIdle]) (rollbackFailed D c))"
      using 2(2) by (intro writeMessages_simple) (simp_all add: same_session_def tx_step_iff)
    moreover have "simple_reply c (writeErrorReady TxFailed ErrInFailedTransaction c)"
      using 2(2) writeMessages_simple [of c c "[errorResponse ErrInFailedTransaction]"]
      by (simp add: writeErrorReady_def errorResponse_def del: simple_reply.simps)
    ultimately show ?thesis
      using h 2 by (auto simp: handleQueryMessage_def Let_def safe_def split: if_splits)
  next
    case 3
    with h show ?thesis
      by (auto simp: handleQueryMessage_def Let_def simp del: simple_reply.simps split: if_splits
          intro: execSimple_simple streamSimple_simple)
  qed
qed

lemma same_session_same:
  "pinned c' = pinned c \<Longrightarrow> database c' = database c \<Longrightarrow> txStatus c' = txStatus c \<Longrightarrow> same_session c c'"
  by (simp add: same_session_def tx_stay)

lemma same_session_noteCompleted:
  "txStatus c \<noteq> TxFailed \<Longrightarrow> same_session c c1 \<Longrightarrow> txStatus c1 = txStatus c \<Longrightarrow> same_session c (noteCompleted kw c1)"
  by (auto simp: same_session_def tx_step_iff)

lemma put_portal_session [simp]: "same_session c (put_portal n p s c)"
  by (rule same_session_same) simp_all

lemma fail_portal: "extended_reply c (failExtended e (put_portal n p s c))"
  by (rule failExtended_reply) simp_all

lemma fail_here: "extended_reply c (failExtended e c)"
  by (rule failExtended_reply) simp_all

lemma rowDescription_plain [simp]:
  "\<not> is_ready (rowDescriptionOrNoData cols oids)" "\<not> is_error (rowDescriptionOrNoData cols oids)"
  by (simp_all add: rowDescriptionOrNoData_def toRowDescription_def)

lemma unpinned_panic: "\<not> pinned c \<Longrightarrow> extended_reply c (c, HPanic)"
  by (simp add: safe_def)

lemma write_plain:
  assumes "pinned c1 = pinned c" "database c1 = database c" "txStatus c1 = txStatus c" "sent c1 = sent c"
    "wfail c1 = wfail c" "skipUntilSync c1 = skipUntilSync c" "ready_free ms" "\<not> has_error ms"
  shows "extended_reply c (writeMessages ms c1)"
  using assms by (intro writeMessages_extended same_session_same) simp_all

interpretation parse_handler: extended_handler "handleParseMessage D name msg"
  for D :: "('s, 't, 'r) driver" and name msg
proof
  fix c :: "('s, 't, 'r) conn" and r
  assume h: "handleParseMessage D name msg c = Some r"
  have fail: "extended_reply c (failExtended e (c\<lparr>dbstate := s\<rparr>))" for e s
    by (rule failExtended_reply) (simp_all add: same_session_same)
  have ok: "extended_reply c (writeMessages [ParseComplete] (c\<lparr>dbstate := s, stmts := st\<rparr>))" for s st
    by (rule writeMessages_extended) (simp_all add: same_session_same)
  from h show "extended_reply c r"
    by (auto simp: handleParseMessage_def Let_def simp del: extended_reply.simps
        split: if_splits prod.splits sum.splits intro!: fail ok unpinned_panic)
qed

interpretation bind_handler: extended_handler "handleBindMessage D portal stmt params"
  for D :: "('s, 't, 'r) driver" and portal stmt params
proof
  fix c :: "('s, 't, 'r) conn" and r
  assume h: "handleBindMessage D portal stmt params c = Some r"
  from h show "extended_reply c r"
    by (auto simp: handleBindMessage_def Let_def simp del: extended_reply.simps split: option.splits
        intro!: fail_here write_plain)
qed

interpretation describe_handler: extended_handler "handleDescribeMessage D ty name"
  for D :: "('s, 't, 'r) driver" and ty name
proof
  fix c :: "('s, 't, 'r) conn" and r
  assume h: "handleDescribeMessage D ty name c = Some r"
  have fail: "extended_reply c (failExtended e (c\<lparr>dbstate := s\<rparr>))" for e s
    by (rule failExtended_reply) (simp_all add: same_session_same)
  have st: "extended_reply c (writeMessages [ParameterDescription os, rowDescriptionOrNoData cols oids] (c\<lparr>dbstate := s\<rparr>))"
    for os cols oids s
    by (rule writeMessages_extended) (simp_all add: same_session_same)
  have po: "extended_reply c (writeMessages [rowDescriptionOrNoData cols oids] (put_portal name p s c))" for cols oids p s
    by (rule writeMessages_extended) simp_all
  have nd: "extended_reply c (writeMessages [NoData] c)"
    by (rule writeMessages_extended) simp_all
  have pan: "extended_reply c (c, HPanic)" if "map_of (stmts c) name = Some ps" "maxAlloc < 16 * int (ps_nparams ps)" for ps
  proof -
    have "\<not> safe c"
      using bspec [of "set (stmts c)" "\<lambda>(n, ps). 16 * int (ps_nparams ps) \<le> maxAlloc", OF _ map_of_SomeD [OF that(1)]] that(2)
      by (auto simp: safe_def)
    then show ?thesis by simp
  qed
  from h show "extended_reply c r"
    by (auto simp: handleDescribeMessage_def describeStatement_def Let_def simp del: extended_reply.simps
        split: if_splits option.splits prod.splits sum.splits intro!: fail st po nd pan fail_here fail_portal)
qed

lemma completeExecute_extended:
  assumes "same_session c c2" "txStatus c2 = txStatus c" "txStatus c \<noteq> TxFailed" "sent c2 = sent c" "wfail c2 = wfail c"
    "skipUntilSync c2 = skipUntilSync c" "ready_free buf" "\<not> has_error buf"
  shows "extended_reply c (completeExecute kw p buf n c2)"
  unfolding completeExecute_def Let_def
  using assms by (intro writeMessages_extended same_session_noteCompleted) simp_all

interpretation execute_handler: extended_handler "handleExecuteMessage D name"
  for D :: "('s, 't, 'r) driver" and name
proof
  fix c :: "('s, 't, 'r) conn" and r
  assume h: "handleExecuteMessage D name c = Some r"
  show "extended_reply c r"
  proof (cases "map_of (portals c) name")
    case None
    with h fail_here [of c] show ?thesis
      by (auto simp: handleExecuteMessage_def simp del: extended_reply.simps)
  next
    case (Some p)
    let ?kw = "leadingKeyword (ps_query (bp_ps p))"
    show ?thesis
    proof (cases "txStatus c = TxFailed")
      case True
      have "extended_reply c (writeMessages [CommandComplete ''ROLLBACK''] (rollbackFailed D c))"
        using True by (intro writeMessages_extended) (simp_all add: same_session_def tx_step_iff)
      with h Some True fail_here [of c] show ?thesis
        by (auto simp: handleExecuteMessage_def Let_def simp del: extended_reply.simps split: if_splits
            intro!: unpinned_panic)
    next
      case False
      obtain e p1 s where pe: "portal_execute D p (dbstate c) = (e, p1, s)" by (metis prod_cases3)
      show ?thesis
      proof (cases "e = None \<and> bp_rows p1 \<noteq> None")
        case no_rows: False
        have "extended_reply c (completeExecute ?kw p1 [] 0 (put_portal name p1 s c))"
          using False by (intro completeExecute_extended) simp_all
        with h Some False pe no_rows fail_portal [of c] show ?thesis
          by (auto simp: handleExecuteMessage_def Let_def simp del: extended_reply.simps split: option.splits)
      next
        case True
        then obtain rs where rs: "e = None" "bp_rows p1 = Some rs" by auto
        from h Some False pe rs obtain out buf n s1 where st: "stream_rows D s rs (bp_oids p1) [] 0 = Some (out, buf, n, s1)"
          by (auto simp: handleExecuteMessage_def Let_def split: option.splits)
        from stream_rows_data [OF st] have "ready_free buf" "\<not> has_error buf" using data_rows_plain by auto
        with False have "extended_reply c (completeExecute ?kw p' buf n (put_portal name p' s' c))" for p' s'
          by (intro completeExecute_extended) simp_all
        with h Some False pe rs st fail_portal [of c] show ?thesis
          by (auto simp: handleExecuteMessage_def Let_def simp del: extended_reply.simps split: stream_end.splits)
      qed
    qed
  qed
qed

interpretation close_handler: extended_handler "handleCloseMessage D ty name"
  for D :: "('s, 't, 'r) driver" and ty name
proof
  fix c :: "('s, 't, 'r) conn" and r
  assume h: "handleCloseMessage D ty name c = Some r"
  from h show "extended_reply c r"
    by (cases "ty = CHR ''S''"; cases "ty = CHR ''P''")
       (auto simp: handleCloseMessage_def Let_def simp del: extended_reply.simps split: option.splits intro!: write_plain)
qed

section \<open>One message\<close>

definition readies :: "('s, 't, 'r) conn \<Rightarrow> nat" where
  "readies c = length (filter is_ready (concat (sent c)))"

fun wants_ready :: "frontend_msg \<Rightarrow> bool" where
  "wants_ready (Query _) = True"
| "wants_ready Sync = True"
| "wants_ready _ = False"

text \<open>A message of the protocol, which the loop does not answer by closing the connection.\<close>

fun known_msg :: "frontend_msg \<Rightarrow> bool" where
  "known_msg (PasswordMessage _) = False"
| "known_msg (OtherMsg _) = False"
| "known_msg Terminate = False"
| "known_msg _ = True"

lemma ready_free_filter: "ready_free ms \<Longrightarrow> filter is_ready ms = []"
  by (induction ms) auto

lemma simple_readies:
  "simple_reply c (c', HNil) \<Longrightarrow> readies c' = Suc (readies c) \<and> last (last (sent c')) = ReadyForQuery (txStatus c')"
  by (auto simp: readies_def ready_free_filter)

lemma extended_readies: "extended_reply c (c', HNil) \<Longrightarrow> readies c' = readies c"
  by (auto simp: readies_def ready_free_filter)

lemma labelled_HNil: "labelled pre x = Some (c', HNil) \<longleftrightarrow> x = Some (c', HNil)"
  by (cases x) (auto simp: labelled_def wrap_hres_def split: hres.splits)

lemma labelled_Some: "labelled pre x = Some (c', res) \<Longrightarrow> \<exists>res0. x = Some (c', res0) \<and> res = wrap_hres pre res0"
  by (auto simp: labelled_def)

lemmas handler_contracts =
  query_handler.simple parse_handler.extended bind_handler.extended describe_handler.extended
  execute_handler.extended close_handler.extended

lemma sync_reply:
  "session_reply c (let c1 = c\<lparr>skipUntilSync := False\<rparr> in writeMessages [ReadyForQuery (txStatus c1)] c1)"
  unfolding Let_def by (rule writeMessages_reply) (simp_all add: same_session_same)

lemma handle_session:
  assumes "handle D m c = Some r" "known_msg m" "m \<noteq> Flush"
  shows "session_reply c r"
proof (cases m)
  case Sync
  have "session_reply c (c', wrap_hres pre h)" if "session_reply c (c', h)" for c' h pre
    using that by (cases h) (auto simp: wrap_hres_def)
  with sync_reply [of c] assms Sync show ?thesis
    by (auto simp: handle_def labelled_def Let_def simp del: session_reply.simps split: prod.splits)
qed (use assms in \<open>auto simp: handle_def simp del: session_reply.simps
      intro: query_handler.labelled_replies parse_handler.labelled_replies bind_handler.labelled_replies
        describe_handler.labelled_replies execute_handler.labelled_replies close_handler.labelled_replies\<close>)

lemma handle_readies:
  assumes "handle D m c = Some (c', HNil)"
  shows "readies c' = readies c + (if wants_ready m then 1 else 0) \<and>
    (wants_ready m \<longrightarrow> last (last (sent c')) = ReadyForQuery (txStatus c'))"
proof (cases m)
  case (Query q)
  with assms have "handleQueryMessage D q c = Some (c', HNil)" by (simp add: handle_def labelled_HNil)
  from simple_readies [OF query_handler.simple [OF this]] Query show ?thesis by simp
next
  case Sync
  with assms show ?thesis
    by (auto simp: handle_def labelled_HNil writeMessages_def readies_def Let_def split: if_splits)
qed (use assms extended_readies [OF parse_handler.extended] extended_readies [OF bind_handler.extended]
      extended_readies [OF describe_handler.extended] extended_readies [OF execute_handler.extended]
      extended_readies [OF close_handler.extended]
     in \<open>auto simp: handle_def labelled_HNil\<close>)

text \<open>C7: When a message is handled (it was not discarded after an error in the extended protocol), and
  its handler neither panics nor finds the socket broken, then a Query or a Sync has been
  answered by exactly one ReadyForQuery, which is the last message of its reply and shows the
  transaction status the session now has, and any other message has been answered by none.
  This holds for any database, driver, session state and client text.\<close>

theorem ready_for_query:
  assumes "handle D m c = Some (c', HNil)"
  shows "readies c' = readies c + (if wants_ready m then 1 else 0) \<and>
    (wants_ready m \<longrightarrow> last (last (sent c')) = ReadyForQuery (txStatus c'))"
  using assms by (rule handle_readies)

lemma handle_keeps:
  assumes "handle D m c = Some (c', res)" "known_msg m"
  shows "tx_step (txStatus c) (txStatus c')" "pinned c' = pinned c" "database c' = database c"
    "\<And>e. res = HErr e \<Longrightarrow> wfail c = Some 0" "safe c \<Longrightarrow> res \<noteq> HPanic" "wfail c = None \<Longrightarrow> wfail c' = None"
proof -
  have "session_reply c (c', res) \<or> (c' = c \<and> res = HNil)"
    using handle_session [OF assms] assms(1) by (cases "m = Flush") (auto simp: handle_def)
  then show "tx_step (txStatus c) (txStatus c')" "pinned c' = pinned c" "database c' = database c"
    "\<And>e. res = HErr e \<Longrightarrow> wfail c = Some 0" "safe c \<Longrightarrow> res \<noteq> HPanic" "wfail c = None \<Longrightarrow> wfail c' = None"
    by (cases res; auto simp: same_session_def tx_stay)+
qed

text \<open>No message can break the session: whatever the client sends, the transaction status
  only makes the moves of the state machine (an idle session never becomes failed, a failed
  one is never in progress again without ending), the connection is closed only when the
  socket itself has failed, never because of a statement, and no handler panics on a session
  that startup completed.\<close>

theorem handle_keeps_session:
  assumes "handle D m c = Some (c', res)" "known_msg m"
  shows "tx_step (txStatus c) (txStatus c') \<and> pinned c' = pinned c \<and> database c' = database c \<and>
    (\<forall>e. res = HErr e \<longrightarrow> wfail c = Some 0) \<and> (safe c \<longrightarrow> res \<noteq> HPanic)"
  using handle_keeps [OF assms] by blast

section \<open>A failed transaction\<close>

text \<open>An observation of the database that preparing a statement, opening a result set without
  reading it, and closing handles leave alone; it is what SQLite documents of these calls.\<close>

definition quiet :: "('s, 't, 'r) driver \<Rightarrow> ('s \<Rightarrow> 'd) \<Rightarrow> bool" where
  "quiet D data \<longleftrightarrow>
     (\<forall>s q. data (snd (d_prepare D s q)) = data s) \<and>
     (\<forall>s t a. data (snd (d_stmt_query D s t a)) = data s) \<and>
     (\<forall>s t. data (d_stmt_close D s t) = data s) \<and> (\<forall>s r. data (d_rows_close D s r) = data s)"

lemma quietD:
  assumes "quiet D data"
  shows "d_prepare D s q = (x, s1) \<Longrightarrow> data s1 = data s" "d_stmt_query D s t a = (y, s1) \<Longrightarrow> data s1 = data s"
    "data (d_stmt_close D s t) = data s" "data (d_rows_close D s r) = data s" "data (portal_close D p s) = data s"
  using assms by (auto simp: quiet_def portal_close_def split: option.splits) (metis snd_conv)+

lemma writeMessages_sel:
  "writeMessages ms c = (c', res) \<Longrightarrow> dbstate c' = dbstate c \<and> txStatus c' = txStatus c \<and> stmts c' = stmts c
     \<and> portals c' = portals c \<and> skipUntilSync c' = skipUntilSync c"
  by (auto simp: writeMessages_def split: if_splits)

lemma failExtended_sel:
  "failExtended e c = (c', res) \<Longrightarrow> dbstate c' = dbstate c \<and> stmts c' = stmts c \<and> portals c' = portals c
     \<and> txStatus c' = (if txStatus c = TxInProgress then TxFailed else txStatus c) \<and> skipUntilSync c'"
  unfolding failExtended_def writeError_def by (drule writeMessages_sel) simp

text \<open>The two outcomes: nothing happened, or the block was rolled back.\<close>

fun contained :: "('s, 't, 'r) driver \<Rightarrow> ('s \<Rightarrow> 'd) \<Rightarrow> ('s, 't, 'r) conn \<Rightarrow> ('s, 't, 'r) conn \<times> hres \<Rightarrow> bool" where
  "contained D data c (c', res) \<longleftrightarrow>
     (txStatus c' = TxFailed \<and> data (dbstate c') = data (dbstate c)) \<or>
     (txStatus c' = TxIdle \<and> dbstate c' = snd (d_exec D (dbstate c) ''ROLLBACK''))"

lemma contained_write:
  assumes "txStatus c1 = TxFailed" "data (dbstate c1) = data (dbstate c)"
  shows "contained D data c (writeMessages ms c1)"
proof -
  obtain c' res where w: "writeMessages ms c1 = (c', res)" by (cases "writeMessages ms c1")
  from writeMessages_sel [OF w] assms show ?thesis by (simp add: w)
qed

lemma contained_rollback: "contained D data c (writeMessages ms (rollbackFailed D c))"
proof -
  obtain c' res where w: "writeMessages ms (rollbackFailed D c) = (c', res)"
    by (cases "writeMessages ms (rollbackFailed D c)")
  from writeMessages_sel [OF w] show ?thesis unfolding w by (simp add: rollbackFailed_def)
qed

lemma contained_fail:
  assumes "txStatus c1 = TxFailed" "data (dbstate c1) = data (dbstate c)"
  shows "contained D data c (failExtended e c1)"
proof -
  obtain c' res where w: "failExtended e c1 = (c', res)" by (cases "failExtended e c1")
  from failExtended_sel [OF w] assms show ?thesis by (simp add: w)
qed

lemmas contained_intros = contained_write contained_rollback contained_fail

lemma contained_labelled:
  "(\<And>r. x = Some r \<Longrightarrow> contained D data c r) \<Longrightarrow> labelled pre x = Some (c', res) \<Longrightarrow> contained D data c (c', res)"
  by (fastforce simp: labelled_def)

lemma failed_handlers:
  assumes q: "quiet D data" and f: "txStatus c = TxFailed"
  shows "handleQueryMessage D msg c = Some r \<Longrightarrow> contained D data c r"
    "handleParseMessage D name msg c = Some r \<Longrightarrow> contained D data c r"
    "handleBindMessage D name stmt ps c = Some r \<Longrightarrow> contained D data c r"
    "handleDescribeMessage D ty name c = Some r \<Longrightarrow> contained D data c r"
    "handleExecuteMessage D name c = Some r \<Longrightarrow> contained D data c r"
    "handleCloseMessage D ty name c = Some r \<Longrightarrow> contained D data c r"
proof -
  note qd = quietD [OF q]
  have panic: "contained D data c (c, HPanic)" using f by simp
  show "handleQueryMessage D msg c = Some r \<Longrightarrow> contained D data c r"
    using f panic by (auto simp: handleQueryMessage_def writeErrorReady_def Let_def simp del: contained.simps
        split: if_splits intro!: contained_intros)
  show "handleParseMessage D name msg c = Some r \<Longrightarrow> contained D data c r"
    using f panic by (auto simp: handleParseMessage_def Let_def qd(3) simp del: contained.simps
        split: if_splits prod.splits sum.splits option.splits intro!: contained_intros dest: qd(1))
  show "handleBindMessage D name stmt ps c = Some r \<Longrightarrow> contained D data c r"
    using f by (auto simp: handleBindMessage_def Let_def qd(5) simp del: contained.simps
        split: option.splits intro!: contained_intros)
  show "handleDescribeMessage D ty name c = Some r \<Longrightarrow> contained D data c r"
    using f panic by (auto simp: handleDescribeMessage_def describeStatement_def Let_def qd(4) simp del: contained.simps
        split: if_splits option.splits prod.splits sum.splits intro!: contained_intros dest: qd(2))
  show "handleExecuteMessage D name c = Some r \<Longrightarrow> contained D data c r"
    using f panic by (auto simp: handleExecuteMessage_def Let_def simp del: contained.simps
        split: if_splits option.splits intro!: contained_intros)
  show "handleCloseMessage D ty name c = Some r \<Longrightarrow> contained D data c r"
    using f by (cases "ty = CHR ''S''"; cases "ty = CHR ''P''")
      (auto simp: handleCloseMessage_def Let_def qd(3,5) simp del: contained.simps
        split: option.splits intro!: contained_intros)
qed

text \<open>C3: while a transaction is failed no statement of the client runs: whatever message
  arrives, either the data is unchanged and the transaction stays failed, or exactly one
  ROLLBACK was executed and the session is idle.\<close>

theorem failed_transaction_contained:
  assumes "quiet D data" "txStatus c = TxFailed" "handle D m c = Some (c', res)"
  shows "(txStatus c' = TxFailed \<and> data (dbstate c') = data (dbstate c)) \<or>
    (txStatus c' = TxIdle \<and> dbstate c' = snd (d_exec D (dbstate c) ''ROLLBACK''))"
proof -
  note fh = failed_handlers [OF assms(1,2)]
  have "contained D data c (c', res)"
  proof (cases m)
    case (Query q)
    with assms(3) show ?thesis
      by (intro contained_labelled [OF fh(1)]) (assumption | simp add: handle_def)+
  next
    case (Parse n q)
    with assms(3) show ?thesis
      by (intro contained_labelled [OF fh(2)]) (assumption | simp add: handle_def)+
  next
    case (Bind n q ps)
    with assms(3) show ?thesis
      by (intro contained_labelled [OF fh(3)]) (assumption | simp add: handle_def)+
  next
    case (Describe t n)
    with assms(3) show ?thesis
      by (intro contained_labelled [OF fh(4)]) (assumption | simp add: handle_def)+
  next
    case (Execute n)
    with assms(3) show ?thesis
      by (intro contained_labelled [OF fh(5)]) (assumption | simp add: handle_def)+
  next
    case (CloseMsg t n)
    with assms(3) show ?thesis
      by (intro contained_labelled [OF fh(6)]) (assumption | simp add: handle_def)+
  next
    case Sync
    have "contained D data c (writeMessages [ReadyForQuery (txStatus c)] (c\<lparr>skipUntilSync := False\<rparr>))"
      using assms(2) by (intro contained_write) simp_all
    with assms(3) Sync show ?thesis
      by (auto simp: handle_def labelled_def Let_def split: prod.splits)
  qed (use assms(2,3) in \<open>auto simp: handle_def\<close>)
  then show ?thesis by simp
qed

section \<open>A small driver, for examples\<close>

text \<open>Its state is the log of the executed statements and the position in the only result
  set, which has two rows.  A statement that starts with an exclamation mark fails.\<close>

definition demo_exec :: "gostr list \<times> nat \<Rightarrow> gostr \<Rightarrow> (go_error + i64) \<times> (gostr list \<times> nat)" where
  "demo_exec s q =
     (if HasPrefix q ''!'' then (Inl (ErrSqlite 1 1 ''syntax error''), s) else (Inr 1, (fst s @ [q], snd s)))"

definition demo :: "(gostr list \<times> nat, gostr, unit) driver" where
  "demo =
     \<lparr>d_exec = demo_exec,
      d_query = (\<lambda>s q. (Inr (), (fst s, 0))),
      d_prepare = (\<lambda>s q. (Inr q, s)),
      d_stmt_exec = (\<lambda>s t a. demo_exec s t),
      d_stmt_query = (\<lambda>s t a. (Inr (), (fst s, 0))),
      d_stmt_close = (\<lambda>s t. s),
      d_columns = (\<lambda>s r. Inr [\<lparr>col_name = ''n'', col_decl = ''INTEGER''\<rparr>]),
      d_next = (\<lambda>s r. if snd s < 2 then (RowData (Inr [VInt (of_nat (snd s))]), (fst s, Suc (snd s))) else (RowDone, s)),
      d_rows_close = (\<lambda>s r. s),
      d_exec_args = (\<lambda>s q a. demo_exec s q),
      d_open = (\<lambda>s p. (None, s)), d_pin = (\<lambda>s. (None, s)),
      d_unpin = (\<lambda>s. (None, s)), d_shut = (\<lambda>s. (None, s))\<rparr>"

definition demo_conn :: "tx_status \<Rightarrow> (gostr list \<times> nat, gostr, unit) conn" where
  "demo_conn t = (newConn ([], 0) None)\<lparr>pinned := True, database := ''d'', txStatus := t\<rparr>"

lemma quiet_demo: "quiet demo fst"
  by (simp add: quiet_def demo_def)

lemma rewrite_commit: "conn_rewrite ''d'' ''COMMIT'' = ''COMMIT''"
  by code_simp

lemma demo_commit:
  "handle demo (Query ''COMMIT'') (demo_conn TxInProgress) =
     Some ((demo_conn TxIdle)\<lparr>dbstate := ([''COMMIT''], 0),
       sent := [[CommandComplete ''COMMIT'', ReadyForQuery TxIdle]]\<rparr>, HNil)"
proof -
  have "TrimSpace ''COMMIT'' \<noteq> []" "leadingKeyword ''COMMIT'' = ''COMMIT''" "\<not> isRowReturning ''COMMIT''"
    "commandTag ''COMMIT'' 1 0 = ''COMMIT''"
    by code_simp+
  then show ?thesis
    by (simp add: handle_def labelled_def wrap_hres_def handleQueryMessage_def demo_conn_def newConn_def rewrite_commit
        execSimpleQuery_def demo_def demo_exec_def noteCompleted_def isTxBegin_def isTxCommit_def writeMessages_def Let_def)
qed

theorem ready_for_query_witness:
  "readies ((demo_conn TxIdle)\<lparr>dbstate := ([''COMMIT''], 0), sent := [[CommandComplete ''COMMIT'', ReadyForQuery TxIdle]]\<rparr>)
     = readies (demo_conn TxInProgress) + 1"
  using ready_for_query [OF demo_commit] by simp

theorem handle_keeps_session_witness:
  "tx_step (txStatus (demo_conn TxInProgress)) TxIdle"
  using handle_keeps_session [OF demo_commit] by (simp add: demo_conn_def)

lemma demo_failed_commit:
  "handle demo (Query ''COMMIT'') (demo_conn TxFailed) =
     Some ((demo_conn TxIdle)\<lparr>dbstate := ([''ROLLBACK''], 0),
       sent := [[CommandComplete ''ROLLBACK'', ReadyForQuery TxIdle]]\<rparr>, HNil)"
proof -
  have "TrimSpace ''COMMIT'' \<noteq> []" "leadingKeyword ''COMMIT'' = ''COMMIT''" by code_simp+
  then show ?thesis
    by (simp add: handle_def labelled_def wrap_hres_def handleQueryMessage_def demo_conn_def newConn_def rewrite_commit
        rollbackFailed_def demo_def demo_exec_def isTxCommit_def writeMessages_def Let_def)
qed

theorem failed_transaction_contained_witness:
  "fst (snd (d_exec demo (dbstate (demo_conn TxFailed)) ''ROLLBACK'')) = [''ROLLBACK'']"
proof -
  have "txStatus (demo_conn TxFailed) = TxFailed" by (simp add: demo_conn_def)
  from failed_transaction_contained [OF quiet_demo this demo_failed_commit]
  have "([''ROLLBACK''], 0) = snd (d_exec demo (dbstate (demo_conn TxFailed)) ''ROLLBACK'')"
    by (auto simp: demo_conn_def newConn_def)
  from arg_cong [OF this, of fst] show ?thesis by simp
qed

text \<open>The keyword that ends a failed transaction is not recognised when a semicolon follows
  it directly, the form in which clients send it: the transaction stays failed.\<close>

lemma rollback_semicolon_stuck:
  "handle demo (Query ''ROLLBACK;'') (demo_conn TxFailed) =
     Some ((demo_conn TxFailed)\<lparr>sent := [[errorResponse ErrInFailedTransaction, ReadyForQuery TxFailed]]\<rparr>, HNil)"
proof -
  have "conn_rewrite ''d'' ''ROLLBACK;'' = ''ROLLBACK;''" "TrimSpace ''ROLLBACK;'' \<noteq> []"
    "leadingKeyword ''ROLLBACK;'' = ''ROLLBACK;''"
    by code_simp+
  then show ?thesis
    by (simp add: handle_def labelled_def wrap_hres_def handleQueryMessage_def demo_conn_def newConn_def
        writeErrorReady_def isTxCommit_def isTxRollback_def writeMessages_def Let_def)
qed

end
