(* ===== verification/Session_Query.thy ===== *)
theory Session_Query
  imports Session_Protocol
begin

text \<open>
  What a session computes: the reply to a query is the encoding of the rows the driver
  yields, the extended protocol gives the same answer as the simple one, a portal runs its
  statement at most once, and the message loop answers every message until the socket ends.
\<close>

section \<open>Result sets\<close>

text \<open>\<open>yields D s r rows s'\<close>: the result set \<open>r\<close> delivers the rows one by one and ends.\<close>

inductive yields :: "('s, 't, 'r) driver \<Rightarrow> 's \<Rightarrow> 'r \<Rightarrow> go_value list list \<Rightarrow> 's \<Rightarrow> bool" where
  yields_end: "d_next D s r = (RowDone, s') \<Longrightarrow> yields D s r [] s'"
| yields_row: "d_next D s r = (RowData (Inr vs), s1) \<Longrightarrow> yields D s1 r rows s' \<Longrightarrow> yields D s r (vs # rows) s'"

inductive_cases yieldsE: "yields D s r rows s'"

definition data_row :: "oid32 list \<Rightarrow> go_value list \<Rightarrow> backend_msg" where
  "data_row oids vs = DataRow (map (\<lambda>(oid, v). encodeText oid v) (zip oids vs))"

lemma stream_rows_yields:
  "yields D s r rows s' \<Longrightarrow>
     stream_rows D s r oids buf n = Some (SDone, buf @ map (data_row oids) rows, n + int (length rows), s')"
proof (induction arbitrary: buf n rule: yields.induct)
  case (yields_end D s r s')
  then show ?case by (simp add: stream_rows.simps)
next
  case (yields_row D s r vs s1 rows s')
  have "stream_rows D s r oids buf n = stream_rows D s1 r oids (buf @ [data_row oids vs]) (n + 1)"
    by (subst stream_rows.simps) (simp add: yields_row.hyps scanRow_def data_row_def)
  with yields_row.IH show ?case by simp
qed

definition written :: "backend_msg list \<Rightarrow> ('s, 't, 'r) conn \<Rightarrow> ('s, 't, 'r) conn" where
  "written ms c = c\<lparr>sent := sent c @ [ms], wfail := map_option (\<lambda>n. n - 1) (wfail c)\<rparr>"

lemma writeMessages_ok: "wfail c \<noteq> Some 0 \<Longrightarrow> writeMessages ms c = (written ms c, HNil)"
  by (simp add: writeMessages_def written_def)

definition select_reply :: "gostr \<Rightarrow> column_type list \<Rightarrow> go_value list list \<Rightarrow> tx_status \<Rightarrow> backend_msg list" where
  "select_reply q cols rows t =
     toRowDescription cols (columnOIDs cols) # map (data_row (columnOIDs cols)) rows
     @ [CommandComplete (commandTag q 0 (int (length rows))), ReadyForQuery t]"

lemma handleQuery_rows:
  assumes "conn_rewrite (database c) msg = q" "TrimSpace q \<noteq> []" "isRowReturning q"
    "txStatus c \<noteq> TxFailed" "pinned c" "wfail c \<noteq> Some 0"
    "d_query D (dbstate c) q = (Inr r, s)" "d_columns D s r = Inr cols" "cols \<noteq> []" "yields D s r rows s'"
  shows "handleQueryMessage D msg c =
     Some (written (select_reply q cols rows (txStatus c)) (c\<lparr>dbstate := d_rows_close D s' r\<rparr>), HNil)"
  using assms stream_rows_yields [OF assms(10)]
  by (simp add: handleQueryMessage_def streamSimpleQuery_def select_reply_def writeMessages_ok closing_def
      written_def Let_def)

text \<open>C9: the simple protocol returns the query's rows: for a statement that returns rows the
  client receives one write with the description of the columns, every row the database
  yields, in order and encoded by column type, the row count, and ReadyForQuery; and the
  result set is closed.\<close>

theorem simple_query_rows:
  assumes "conn_rewrite (database c) msg = q" "TrimSpace q \<noteq> []" "isRowReturning q"
    "txStatus c \<noteq> TxFailed" "pinned c" "wfail c \<noteq> Some 0"
    "d_query D (dbstate c) q = (Inr r, s)" "d_columns D s r = Inr cols" "cols \<noteq> []" "yields D s r rows s'"
  shows "\<exists>c'. handleQueryMessage D msg c = Some (c', HNil) \<and> dbstate c' = d_rows_close D s' r \<and>
    txStatus c' = txStatus c \<and>
    sent c' = sent c @ [toRowDescription cols (columnOIDs cols) # map (data_row (columnOIDs cols)) rows
      @ [CommandComplete (commandTag q 0 (int (length rows))), ReadyForQuery (txStatus c)]]"
  using handleQuery_rows [OF assms] by (simp add: written_def select_reply_def)

section \<open>The extended protocol computes the same\<close>

abbreviation eof :: serve_end where
  "eof \<equiv> Closed (ErrMsg ''receive message: unexpected EOF'')"

definition fresh_portal :: "gostr \<Rightarrow> 't preparedStatement \<Rightarrow> go_value list \<Rightarrow> ('t, 'r) boundPortal" where
  "fresh_portal name ps params =
     \<lparr>bp_name = name, bp_ps = ps, bp_params = params, bp_executed = False,
      bp_rows = None, bp_cols = [], bp_oids = [], bp_result = None, bp_execErr = None\<rparr>"

lemma written_sel [simp]:
  "dbstate (written ms c) = dbstate c" "stmts (written ms c) = stmts c" "portals (written ms c) = portals c"
  "txStatus (written ms c) = txStatus c" "pinned (written ms c) = pinned c" "database (written ms c) = database c"
  "skipUntilSync (written ms c) = skipUntilSync c" "sent (written ms c) = sent c @ [ms]"
  "wfail c = None \<Longrightarrow> wfail (written ms c) = None"
  by (simp_all add: written_def)










text \<open>The session after Parse and Bind of a statement without parameters.\<close>

definition bound_conn :: "gostr \<Rightarrow> gostr \<Rightarrow> gostr \<Rightarrow> 't \<Rightarrow> 's \<Rightarrow> ('s, 't, 'r) conn \<Rightarrow> ('s, 't, 'r) conn" where
  "bound_conn n p q t s c =
     (let ps = \<lparr>ps_name = n, ps_query = q, ps_stmt = t, ps_nparams = countParams q\<rparr>;
          a = written [ParseComplete] (c\<lparr>dbstate := s, stmts := AList.update n ps (stmts c)\<rparr>)
      in written [BindComplete] (a\<lparr>portals := AList.update p (fresh_portal p ps []) (portals a)\<rparr>))"

lemma bound_conn_sel [simp]:
  "dbstate (bound_conn n p q t s c) = s" "txStatus (bound_conn n p q t s c) = txStatus c"
  "wfail c = None \<Longrightarrow> wfail (bound_conn n p q t s c) = None"
  "skipUntilSync (bound_conn n p q t s c) = skipUntilSync c"
  "sent (bound_conn n p q t s c) = sent c @ [[ParseComplete], [BindComplete]]"
  "map_of (portals (bound_conn n p q t s c)) p =
     Some (fresh_portal p \<lparr>ps_name = n, ps_query = q, ps_stmt = t, ps_nparams = countParams q\<rparr> [])"
  by (simp_all add: bound_conn_def Let_def update_conv)












lemma demo_table:
  "conn_rewrite ''d'' ''TABLE t'' = ''TABLE t''" "TrimSpace ''TABLE t'' \<noteq> []" "isRowReturning ''TABLE t''"
  "leadingKeyword ''TABLE t'' = ''TABLE''"
  by code_simp+

lemma demo_yields: "yields demo ([], 0) () [[VInt 0], [VInt 1]] ([], 2)"
  by (rule yields_row [where ?s1.0 = "([], 1)"] yields_row [where ?s1.0 = "([], 2)"] yields_end | simp add: demo_def)+

theorem simple_query_rows_witness:
  "\<exists>c'. handleQueryMessage demo ''TABLE t'' (demo_conn TxIdle) = Some (c', HNil) \<and>
    sent c' = [[toRowDescription [\<lparr>col_name = ''n'', col_decl = ''INTEGER''\<rparr>] [Int8OID],
      DataRow [Some ''0''], DataRow [Some ''1''], CommandComplete ''SELECT 2'', ReadyForQuery TxIdle]]"
proof -
  have o: "columnOIDs [\<lparr>col_name = ''n'', col_decl = ''INTEGER''\<rparr>] = [Int8OID]" by code_simp
  have d: "data_row [Int8OID] [VInt 0] = DataRow [Some ''0'']" "data_row [Int8OID] [VInt 1] = DataRow [Some ''1'']"
    by code_simp+
  have t: "commandTag ''TABLE t'' 0 2 = ''SELECT 2''" by code_simp
  show ?thesis
    using simple_query_rows [of "demo_conn TxIdle" "''TABLE t''" "''TABLE t''" demo "()" "([], 0)"
        "[\<lparr>col_name = ''n'', col_decl = ''INTEGER''\<rparr>]" "[[VInt 0], [VInt 1]]" "([], 2)"]
      demo_table demo_yields
    by (simp add: demo_conn_def newConn_def o d t) (auto simp: demo_def)
qed


section \<open>A portal runs its statement once\<close>

definition portal_done :: "gostr \<Rightarrow> ('s, 't, 'r) conn \<Rightarrow> bool" where
  "portal_done name c \<longleftrightarrow>
     (case map_of (portals c) name of
        None \<Rightarrow> True
      | Some p \<Rightarrow> bp_executed p \<and> (bp_execErr p = None \<longrightarrow> bp_rows p = None))"

lemma portal_execute_executed:
  "portal_execute D p s = (e, p1, s1) \<Longrightarrow> bp_executed p1 \<and> (\<forall>x. e = Some x \<longrightarrow> bp_execErr p1 = Some x)"
  by (auto simp: portal_execute_def Let_def split: if_splits prod.splits sum.splits)

lemma completeExecute_sel:
  "completeExecute kw p buf n c = (c', res) \<Longrightarrow> dbstate c' = dbstate c \<and> portals c' = portals c"
  unfolding completeExecute_def Let_def by (drule writeMessages_sel) simp

lemma portal_done_put:
  "bp_executed p \<Longrightarrow> bp_execErr p = None \<longrightarrow> bp_rows p = None \<Longrightarrow> portals c' = portals (put_portal name p s c) \<Longrightarrow>
     portal_done name c'"
  by (simp add: portal_done_def put_portal_def update_conv)

lemma execute_makes_done:
  assumes "handleExecuteMessage D name c = Some (c1, res)" "txStatus c \<noteq> TxFailed"
  shows "portal_done name c1"
proof (cases "map_of (portals c) name")
  case None
  with assms(1) show ?thesis
    by (auto simp: handleExecuteMessage_def portal_done_def dest!: failExtended_sel)
next
  case (Some p)
  obtain e p1 s where pe: "portal_execute D p (dbstate c) = (e, p1, s)" by (metis prod_cases3)
  note ex = portal_execute_executed [OF pe]
  show ?thesis
  proof (cases e)
    case err: (Some x)
    with assms Some pe have "failExtended x (put_portal name p1 s c) = (c1, res)"
      by (simp add: handleExecuteMessage_def Let_def)
    from failExtended_sel [OF this] ex err show ?thesis by (intro portal_done_put) auto
  next
    case None
    show ?thesis
    proof (cases "bp_rows p1")
      case no_rows: None
      with assms Some pe None have "completeExecute (leadingKeyword (ps_query (bp_ps p))) p1 [] 0 (put_portal name p1 s c) = (c1, res)"
        by (simp add: handleExecuteMessage_def Let_def)
      from completeExecute_sel [OF this] ex no_rows show ?thesis by (intro portal_done_put) auto
    next
      case rows: (Some rs)
      let ?p2 = "p1\<lparr>bp_rows := None\<rparr>"
      from assms Some pe None rows obtain out buf n s1 where
        "stream_rows D s rs (bp_oids p1) [] 0 = Some (out, buf, n, s1)"
        by (auto simp: handleExecuteMessage_def Let_def split: option.splits)
      with assms Some pe None rows
      consider "completeExecute (leadingKeyword (ps_query (bp_ps p))) ?p2 buf n (put_portal name ?p2 (portal_close D p1 s1) c) = (c1, res)"
        | x where "failExtended x (put_portal name ?p2 (portal_close D p1 s1) c) = (c1, res)"
        by (auto simp: handleExecuteMessage_def Let_def split: stream_end.splits)
      then have "portals c1 = portals (put_portal name ?p2 (portal_close D p1 s1) c)"
        by cases (auto dest: completeExecute_sel failExtended_sel)
      with ex show ?thesis by (intro portal_done_put) auto
    qed
  qed
qed

lemma done_execute_idle:
  assumes "portal_done name c" "txStatus c \<noteq> TxFailed" "handleExecuteMessage D name c = Some (c2, res)"
  shows "dbstate c2 = dbstate c"
proof (cases "map_of (portals c) name")
  case None
  with assms(3) show ?thesis by (auto simp: handleExecuteMessage_def dest!: failExtended_sel)
next
  case (Some p)
  with assms(1) have p: "bp_executed p" "bp_execErr p = None \<longrightarrow> bp_rows p = None" by (auto simp: portal_done_def)
  then have pe: "portal_execute D p (dbstate c) = (bp_execErr p, p, dbstate c)" by (simp add: portal_execute_def)
  show ?thesis
  proof (cases "bp_execErr p")
    case None
    with p assms Some pe have "completeExecute (leadingKeyword (ps_query (bp_ps p))) p [] 0 (put_portal name p (dbstate c) c) = (c2, res)"
      by (simp add: handleExecuteMessage_def Let_def)
    from completeExecute_sel [OF this] show ?thesis by simp
  next
    case err: (Some x)
    with assms Some pe have "failExtended x (put_portal name p (dbstate c) c) = (c2, res)"
      by (simp add: handleExecuteMessage_def Let_def)
    from failExtended_sel [OF this] show ?thesis by simp
  qed
qed

text \<open>A portal that has run stays so until its name is bound again.\<close>

fun binds :: "gostr \<Rightarrow> frontend_msg \<Rightarrow> bool" where
  "binds name (Bind portal _ _) \<longleftrightarrow> portal = name"
| "binds name _ \<longleftrightarrow> False"

lemma portal_done_cong: "map_of (portals c') name = map_of (portals c) name \<Longrightarrow> portal_done name c' = portal_done name c"
  by (simp add: portal_done_def)

lemma portals_query: "handleQueryMessage D q c = Some (c', res) \<Longrightarrow> portals c' = portals c"
  by (auto simp: handleQueryMessage_def execSimpleQuery_def streamSimpleQuery_def failSimple_def writeErrorReady_def closing_def Let_def
      split: if_splits prod.splits sum.splits option.splits stream_end.splits dest!: writeMessages_sel)

lemma portals_parse: "handleParseMessage D n q c = Some (c', res) \<Longrightarrow> portals c' = portals c"
  by (auto simp: handleParseMessage_def Let_def split: if_splits prod.splits sum.splits dest!: writeMessages_sel failExtended_sel)

lemma portals_bind: "handleBindMessage D p n ps c = Some (c', res) \<Longrightarrow> p \<noteq> name \<Longrightarrow> map_of (portals c') name = map_of (portals c) name"
  by (auto simp: handleBindMessage_def Let_def update_conv split: option.splits dest!: writeMessages_sel failExtended_sel)

lemma portals_close: "handleCloseMessage D ty n c = Some (c', res) \<Longrightarrow> portal_done name c \<Longrightarrow> portal_done name c'"
  by (cases "ty = CHR ''S''"; cases "ty = CHR ''P''"; cases "n = name")
    (auto simp: handleCloseMessage_def portal_done_def Let_def delete_conv' split: option.splits dest!: writeMessages_sel)

lemma portals_failed:
  "handleDescribeMessage D ty n c = Some (c', res) \<Longrightarrow> txStatus c = TxFailed \<or> ty \<noteq> CHR ''P'' \<Longrightarrow> portals c' = portals c"
  "handleExecuteMessage D n c = Some (c'', res) \<Longrightarrow> txStatus c = TxFailed \<Longrightarrow> portals c'' = portals c"
proof -
  have st: "describeStatement D ps c = Some (c', res) \<Longrightarrow> portals c' = portals c" for ps
    by (auto simp: describeStatement_def Let_def split: if_splits prod.splits sum.splits dest!: writeMessages_sel failExtended_sel)
  show "handleDescribeMessage D ty n c = Some (c', res) \<Longrightarrow> txStatus c = TxFailed \<or> ty \<noteq> CHR ''P'' \<Longrightarrow> portals c' = portals c"
    by (auto simp: handleDescribeMessage_def Let_def split: if_splits option.splits dest!: st writeMessages_sel failExtended_sel)
  show "handleExecuteMessage D n c = Some (c'', res) \<Longrightarrow> txStatus c = TxFailed \<Longrightarrow> portals c'' = portals c"
    by (auto simp: handleExecuteMessage_def Let_def split: if_splits option.splits dest!: writeMessages_sel failExtended_sel)
qed

text \<open>Outside a failed transaction Describe and Execute put back the portal they name.\<close>

lemma portals_describe_put:
  assumes "handleDescribeMessage D (CHR ''P'') n c = Some (c', res)" "txStatus c \<noteq> TxFailed" "map_of (portals c) n = Some p"
    "portal_execute D p (dbstate c) = (e, p1, s)"
  shows "portals c' = portals (put_portal n p1 s c)"
proof (cases e)
  case (Some x)
  with assms have "failExtended x (put_portal n p1 s c) = (c', res)" by (simp add: handleDescribeMessage_def)
  from failExtended_sel [OF this] show ?thesis by simp
next
  case None
  with assms have "writeMessages [rowDescriptionOrNoData (bp_cols p1) (bp_oids p1)] (put_portal n p1 s c) = (c', res)"
    by (simp add: handleDescribeMessage_def)
  from writeMessages_sel [OF this] show ?thesis by simp
qed

lemma portals_execute_put:
  assumes "handleExecuteMessage D n c = Some (c', res)" "txStatus c \<noteq> TxFailed" "map_of (portals c) n = Some p"
  shows "\<exists>p' s'. portals c' = portals (put_portal n p' s' c)"
proof -
  obtain e p1 s where pe: "portal_execute D p (dbstate c) = (e, p1, s)" by (metis prod_cases3)
  show ?thesis
  proof (cases e)
    case (Some x)
    with assms pe have "failExtended x (put_portal n p1 s c) = (c', res)" by (simp add: handleExecuteMessage_def Let_def)
    from failExtended_sel [OF this] show ?thesis by blast
  next
    case None
    show ?thesis
    proof (cases "bp_rows p1")
      case no_rows: None
      with assms pe None have "completeExecute (leadingKeyword (ps_query (bp_ps p))) p1 [] 0 (put_portal n p1 s c) = (c', res)"
        by (simp add: handleExecuteMessage_def Let_def)
      from completeExecute_sel [OF this] show ?thesis by blast
    next
      case rows: (Some rs)
      let ?p2 = "p1\<lparr>bp_rows := None\<rparr>"
      from assms pe None rows obtain out buf k s1 where
        "stream_rows D s rs (bp_oids p1) [] 0 = Some (out, buf, k, s1)"
        by (auto simp: handleExecuteMessage_def Let_def split: option.splits)
      with assms pe None rows
      consider "completeExecute (leadingKeyword (ps_query (bp_ps p))) ?p2 buf k (put_portal n ?p2 (portal_close D p1 s1) c) = (c', res)"
        | x where "failExtended x (put_portal n ?p2 (portal_close D p1 s1) c) = (c', res)"
        by (auto simp: handleExecuteMessage_def Let_def split: stream_end.splits)
      then have "portals c' = portals (put_portal n ?p2 (portal_close D p1 s1) c)"
        by cases (auto dest: completeExecute_sel failExtended_sel)
      then show ?thesis by blast
    qed
  qed
qed

lemma put_other: "portals c' = portals (put_portal n p s c) \<Longrightarrow> n \<noteq> name \<Longrightarrow> portal_done name c' = portal_done name c"
  by (simp add: portal_done_def put_portal_def update_conv)

lemma portals_describe:
  assumes "handleDescribeMessage D ty n c = Some (c', res)" "portal_done name c"
  shows "portal_done name c'"
proof (cases "txStatus c = TxFailed \<or> ty \<noteq> CHR ''P'' \<or> map_of (portals c) n = None")
  case True
  then have "portals c' = portals c"
    using portals_failed(1) [OF assms(1)] assms(1)
    by (cases "ty = CHR ''P''") (auto simp: handleDescribeMessage_def dest!: failExtended_sel)
  with assms(2) show ?thesis by (simp add: portal_done_def)
next
  case False
  then obtain p where p: "map_of (portals c) n = Some p" and ty: "ty = CHR ''P''" "txStatus c \<noteq> TxFailed" by auto
  obtain e p1 s where pe: "portal_execute D p (dbstate c) = (e, p1, s)" by (metis prod_cases3)
  note put = portals_describe_put [OF assms(1) [unfolded ty] ty(2) p pe]
  show ?thesis
  proof (cases "n = name")
    case True
    with p assms(2) have "bp_executed p" "bp_execErr p = None \<longrightarrow> bp_rows p = None" by (auto simp: portal_done_def)
    moreover from this(1) pe have "p1 = p" by (simp add: portal_execute_def)
    ultimately show ?thesis using put True by (intro portal_done_put) auto
  qed (use put_other [OF put] assms(2) in simp)
qed

lemma portals_execute:
  assumes "handleExecuteMessage D n c = Some (c', res)" "portal_done name c"
  shows "portal_done name c'"
proof -
  consider "txStatus c = TxFailed" | "txStatus c \<noteq> TxFailed" "n = name" | "txStatus c \<noteq> TxFailed" "n \<noteq> name" by blast
  then show ?thesis
  proof cases
    case 1
    from portals_failed(2) [OF assms(1) this] assms(2) show ?thesis by (simp add: portal_done_def)
  next
    case 2
    with assms(1) show ?thesis by (auto intro: execute_makes_done)
  next
    case 3
    show ?thesis
    proof (cases "map_of (portals c) n")
      case None
      with assms show ?thesis by (auto simp: handleExecuteMessage_def portal_done_def dest!: failExtended_sel)
    next
      case (Some p)
      from portals_execute_put [OF assms(1) 3(1) this] obtain p' s' where "portals c' = portals (put_portal n p' s' c)" by blast
      from put_other [OF this 3(2)] assms(2) show ?thesis by simp
    qed
  qed
qed

lemma handle_portal_done:
  assumes "handle D m c = Some (c', res)" "portal_done name c" "\<not> binds name m"
  shows "portal_done name c'"
proof -
  have l: "labelled pre x = Some (c', res) \<Longrightarrow> \<exists>r. x = Some (c', r)" for pre x
    by (auto simp: labelled_def)
  have same: "portal_done name c'" if "portals c' = portals c" using assms(2) that by (simp add: portal_done_def)
  show ?thesis
  proof (cases m)
    case (Query q)
    with assms(1) obtain r where "handleQueryMessage D q c = Some (c', r)" by (auto simp: handle_def dest!: l)
    then show ?thesis by (rule same [OF portals_query])
  next
    case (Parse n q)
    with assms(1) obtain r where "handleParseMessage D n q c = Some (c', r)" by (auto simp: handle_def dest!: l)
    then show ?thesis by (rule same [OF portals_parse])
  next
    case (Bind p n ps)
    with assms(1) obtain r where "handleBindMessage D p n ps c = Some (c', r)" by (auto simp: handle_def dest!: l)
    from portals_bind [OF this, of name] portal_done_cong [of c' name c] Bind assms(2,3) show ?thesis by simp
  next
    case (Describe ty n)
    with assms(1) obtain r where "handleDescribeMessage D ty n c = Some (c', r)" by (auto simp: handle_def dest!: l)
    then show ?thesis using assms(2) by (rule portals_describe)
  next
    case (Execute n)
    with assms(1) obtain r where "handleExecuteMessage D n c = Some (c', r)" by (auto simp: handle_def dest!: l)
    then show ?thesis using assms(2) by (rule portals_execute)
  next
    case (CloseMsg ty n)
    with assms(1) obtain r where "handleCloseMessage D ty n c = Some (c', r)" by (auto simp: handle_def dest!: l)
    then show ?thesis using assms(2) by (rule portals_close)
  next
    case Sync
    with assms(1) obtain r where "writeMessages [ReadyForQuery (txStatus c)] (c\<lparr>skipUntilSync := False\<rparr>) = (c', r)"
      by (auto simp: handle_def Let_def dest!: l)
    from writeMessages_sel [OF this] show ?thesis by (intro same) simp
  qed (use assms in \<open>simp_all add: handle_def\<close>)
qed

lemma loop_portal_done:
  "serve_loop D ms c = Some (c', e) \<Longrightarrow> portal_done name c \<Longrightarrow> \<forall>m \<in> set ms. \<not> binds name m \<Longrightarrow> portal_done name c'"
proof (induction ms arbitrary: c)
  case (Cons m ms)
  show ?case
  proof (cases "discarded m c \<or> m = Terminate")
    case True
    with Cons show ?thesis by (auto split: if_splits)
  next
    case False
    with Cons.prems(1) obtain c1 res where h: "handle D m c = Some (c1, res)" by (auto split: option.splits)
    from handle_portal_done [OF this Cons.prems(2)] Cons.prems(3) have d: "portal_done name c1" by simp
    from Cons.prems(1) False h have "serve_loop D ms c1 = Some (c', e) \<or> c' = c1" by (cases res) auto
    with Cons.IH [OF _ d] Cons.prems(3) d show ?thesis by auto
  qed
qed simp

text \<open>C10: A portal's statement runs at most once: after an Execute outside a failed transaction,
  whether it succeeded or failed, and after any further messages (Query, Describe, Close, other
  portals, failed and rolled back transactions, Execute of the same portal) of which none binds
  the portal's name again, another Execute of the portal outside a failed transaction does not
  touch the database: a statement with side effects is not repeated.  (In a failed transaction
  Execute never runs the portal's statement; for a ROLLBACK or COMMIT it rolls back.)\<close>

theorem portal_runs_once:
  assumes "handleExecuteMessage D name c = Some (c1, res1)" "txStatus c \<noteq> TxFailed"
    and "serve_loop D ms c1 = Some (c2, e)" "\<forall>m \<in> set ms. \<not> binds name m"
    and "handleExecuteMessage D name c2 = Some (c3, res3)" "txStatus c2 \<noteq> TxFailed"
  shows "dbstate c3 = dbstate c2"
  by (rule done_execute_idle [OF loop_portal_done [OF assms(3) execute_makes_done [OF assms(1,2)] assms(4)] assms(6,5)])

text \<open>describing a portal of a statement without rows already runs it, and the Execute
  that follows only reports the result: together they run the statement exactly once.\<close>

theorem describe_then_execute_once:
  fixes D :: "('s, 't, 'r) driver"
  assumes "map_of (portals c) name = Some (fresh_portal name ps params)" "txStatus c \<noteq> TxFailed"
    and "\<not> isRowReturning (ps_query ps)" "d_stmt_exec D (dbstate c) (ps_stmt ps) params = (Inr affected, s)"
    and "handleDescribeMessage D (CHR ''P'') name c = Some (c1, HNil)"
    and "handleExecuteMessage D name c1 = Some (c2, HNil)"
  shows "dbstate c2 = s \<and> last (last (sent c2)) = CommandComplete (commandTag (ps_query ps) (sint affected) 0)"
proof -
  let ?p = "(fresh_portal name ps params :: ('t, 'r) boundPortal)\<lparr>bp_executed := True, bp_result := Some affected\<rparr>"
  have pe: "portal_execute D (fresh_portal name ps params) (dbstate c) = (None, ?p, s)"
    using assms(3,4) by (simp add: portal_execute_def fresh_portal_def)
  with assms(1,2,5) have w1: "writeMessages [rowDescriptionOrNoData (bp_cols ?p) (bp_oids ?p)] (put_portal name ?p s c) = (c1, HNil)"
    by (simp add: handleDescribeMessage_def)
  note c1 = writeMessages_sel [OF w1]
  have l: "map_of (portals c1) name = Some ?p" using c1 by (simp add: put_portal_def update_conv)
  have "portal_execute D ?p (dbstate c1) = (None, ?p, s)"
    using c1 by (simp add: portal_execute_def fresh_portal_def)
  with assms(2,6) l c1 have w2: "completeExecute (leadingKeyword (ps_query ps)) ?p [] 0 (put_portal name ?p s c1) = (c2, HNil)"
    by (simp add: handleExecuteMessage_def Let_def fresh_portal_def)
  from completeExecute_sel [OF this] have "dbstate c2 = s" by simp
  moreover from w2 have "last (last (sent c2)) = CommandComplete (commandTag (ps_query ps) (sint affected) 0)"
    by (auto simp: completeExecute_def writeMessages_def fresh_portal_def split: if_splits)
  ultimately show ?thesis by blast
qed

definition demo_stmt :: "gostr preparedStatement" where
  "demo_stmt = \<lparr>ps_name = [], ps_query = ''DELETE'', ps_stmt = ''DELETE'', ps_nparams = 0\<rparr>"

definition demo_bound :: "(gostr list \<times> nat, gostr, unit) conn" where
  "demo_bound = (demo_conn TxIdle)\<lparr>portals := [(''p'', fresh_portal ''p'' demo_stmt [])]\<rparr>"

definition ran_portal :: "(gostr, unit) boundPortal" where
  "ran_portal = (fresh_portal ''p'' demo_stmt [])\<lparr>bp_executed := True, bp_result := Some 1\<rparr>"

lemma demo_delete:
  "\<not> isRowReturning ''DELETE''" "leadingKeyword ''DELETE'' = ''DELETE''" "commandTag ''DELETE'' 1 0 = ''DELETE 1''"
  "\<not> isTxBegin ''DELETE''" "\<not> isTxCommit ''DELETE''" "\<not> isTxRollback ''DELETE''" "\<not> HasPrefix ''DELETE'' ''!''"
  by code_simp+

lemmas demo_handlers =
  demo_bound_def ran_portal_def demo_stmt_def fresh_portal_def portal_execute_def completeExecute_def noteCompleted_def
  put_portal_def writeMessages_def rowDescriptionOrNoData_def demo_conn_def newConn_def Let_def

lemma demo_execute:
  "handleExecuteMessage demo ''p'' demo_bound = Some (demo_bound\<lparr>dbstate := ([''DELETE''], 0),
     portals := [(''p'', ran_portal)], sent := [[CommandComplete ''DELETE 1'']]\<rparr>, HNil)"
  by (simp add: handleExecuteMessage_def demo_handlers demo_delete) (simp add: demo_def demo_exec_def demo_handlers demo_delete)

lemma demo_describe:
  "handleDescribeMessage demo (CHR ''P'') ''p'' demo_bound = Some (demo_bound\<lparr>dbstate := ([''DELETE''], 0),
     portals := [(''p'', ran_portal)], sent := [[NoData]]\<rparr>, HNil)"
  by (simp add: handleDescribeMessage_def demo_handlers demo_delete) (simp add: demo_def demo_exec_def demo_handlers demo_delete)

lemma demo_execute_again:
  "handleExecuteMessage demo ''p'' (demo_bound\<lparr>dbstate := ([''DELETE''], 0), portals := [(''p'', ran_portal)], sent := [ms]\<rparr>) =
     Some (demo_bound\<lparr>dbstate := ([''DELETE''], 0), portals := [(''p'', ran_portal)],
       sent := [ms, [CommandComplete ''DELETE 1'']]\<rparr>, HNil)"
  by (simp add: handleExecuteMessage_def demo_handlers demo_delete)

theorem portal_runs_once_witness:
  "dbstate (demo_bound\<lparr>dbstate := ([''DELETE''], 0), portals := [(''p'', ran_portal)],
     sent := [[CommandComplete ''DELETE 1''], [CommandComplete ''DELETE 1'']]\<rparr>) =
   dbstate (demo_bound\<lparr>dbstate := ([''DELETE''], 0), portals := [(''p'', ran_portal)], sent := [[CommandComplete ''DELETE 1'']]\<rparr>)"
proof (rule portal_runs_once [OF demo_execute _ _ _ demo_execute_again])
  show "serve_loop demo [Flush] (demo_bound\<lparr>dbstate := ([''DELETE''], 0), portals := [(''p'', ran_portal)], sent := [[CommandComplete ''DELETE 1'']]\<rparr>) =
     Some (demo_bound\<lparr>dbstate := ([''DELETE''], 0), portals := [(''p'', ran_portal)], sent := [[CommandComplete ''DELETE 1'']]\<rparr>, eof)"
    by (simp add: handle_def discarded_def demo_bound_def demo_conn_def newConn_def)
qed (simp_all add: demo_bound_def demo_conn_def)

theorem describe_then_execute_once_witness:
  "dbstate (demo_bound\<lparr>dbstate := ([''DELETE''], 0), portals := [(''p'', ran_portal)],
     sent := [[NoData], [CommandComplete ''DELETE 1'']]\<rparr>) = ([''DELETE''], 0)"
proof (rule describe_then_execute_once [OF _ _ _ _ demo_describe demo_execute_again, THEN conjunct1])
  show "map_of (portals demo_bound) ''p'' = Some (fresh_portal ''p'' demo_stmt [])" by (simp add: demo_bound_def)
  show "\<not> isRowReturning (ps_query demo_stmt)" using demo_delete(1) by (simp add: demo_stmt_def)
  show "d_stmt_exec demo (dbstate demo_bound) (ps_stmt demo_stmt) [] = (Inr 1, ([''DELETE''], 0))"
    using demo_delete(7) by (simp add: demo_def demo_exec_def demo_bound_def demo_conn_def newConn_def demo_stmt_def)
qed (simp add: demo_bound_def demo_conn_def)

section \<open>The message loop\<close>

text \<open>A message whose statement does not have more parameters than Describe can allocate.\<close>

fun sized_msg :: "gostr \<Rightarrow> frontend_msg \<Rightarrow> bool" where
  "sized_msg db (Parse n q) \<longleftrightarrow> 16 * int (countParams (conn_rewrite db q)) \<le> maxAlloc"
| "sized_msg db _ \<longleftrightarrow> True"

definition sized :: "gostr \<times> 't preparedStatement \<Rightarrow> bool" where
  "sized x \<longleftrightarrow> 16 * int (ps_nparams (snd x)) \<le> maxAlloc"

lemma safe_iff: "safe c \<longleftrightarrow> pinned c \<and> (\<forall>x \<in> set (stmts c). sized x)"
  by (auto simp: safe_def sized_def)

lemma set_update_sub: "set (AList.update k v al) \<subseteq> insert (k, v) (set al)"
  by (induction al) auto

lemma set_delete_sub: "set (AList.delete k al) \<subseteq> set al"
  by (auto simp: AList.delete_eq)

text \<open>Only Parse adds a statement.\<close>

lemma stmts_parse:
  "handleParseMessage D n q c = Some (c', res) \<Longrightarrow>
     set (stmts c') \<subseteq> set (stmts c) \<union> {x. ps_nparams (snd x) = countParams (conn_rewrite (database c) q)}"
  using set_update_sub [of n _ "stmts c"]
  by (auto simp: handleParseMessage_def Let_def split: if_splits prod.splits sum.splits
      dest!: writeMessages_sel failExtended_sel) fastforce+

lemma stmts_other:
  "handleBindMessage D p n ps c = Some (c', res) \<Longrightarrow> stmts c' = stmts c"
  "handleDescribeMessage D ty n c = Some (c', res) \<Longrightarrow> stmts c' = stmts c"
  "handleCloseMessage D ty n c = Some (c', res) \<Longrightarrow> set (stmts c') \<subseteq> set (stmts c)"
proof -
  show "handleBindMessage D p n ps c = Some (c', res) \<Longrightarrow> stmts c' = stmts c"
    by (auto simp: handleBindMessage_def Let_def split: option.splits dest!: writeMessages_sel failExtended_sel)
  show "handleDescribeMessage D ty n c = Some (c', res) \<Longrightarrow> stmts c' = stmts c"
    by (auto simp: handleDescribeMessage_def describeStatement_def Let_def
        split: if_splits option.splits prod.splits sum.splits dest!: writeMessages_sel failExtended_sel)
  show "handleCloseMessage D ty n c = Some (c', res) \<Longrightarrow> set (stmts c') \<subseteq> set (stmts c)"
    using set_delete_sub [of n "stmts c"]
    by (cases "ty = CHR ''S''"; cases "ty = CHR ''P''")
       (auto simp: handleCloseMessage_def Let_def split: option.splits dest!: writeMessages_sel)
qed

lemma stmts_execute: "handleExecuteMessage D n c = Some (c', res) \<Longrightarrow> stmts c' = stmts c"
proof -
  have ce: "stmts c1 = stmts c0" if "completeExecute kw p b k c0 = (c1, r)"
    for c0 c1 :: "('s, 't, 'r) conn" and kw p b k r
    using that unfolding completeExecute_def Let_def by (auto dest!: writeMessages_sel)
  assume "handleExecuteMessage D n c = Some (c', res)"
  then show ?thesis
    by (auto simp: handleExecuteMessage_def Let_def split: if_splits option.splits prod.splits stream_end.splits
        dest!: writeMessages_sel failExtended_sel ce)
qed

lemma handle_safe:
  assumes "handle D m c = Some (c', HNil)" "safe c" "sized_msg (database c) m" "known_msg m"
  shows "safe c'"
proof -
  have "pinned c'" using handle_keeps [OF assms(1,4)] assms(2) by (simp add: safe_def)
  moreover have "\<forall>x \<in> set (stmts c'). sized x"
  proof (cases m)
    case (Query q)
    with assms(1) have "handleQueryMessage D q c = Some (c', HNil)" by (simp add: handle_def labelled_HNil)
    from query_handler.simple [OF this] assms(2) show ?thesis by (simp add: safe_iff)
  next
    case (Parse n q)
    with assms(1) have "handleParseMessage D n q c = Some (c', HNil)" by (simp add: handle_def labelled_HNil)
    from stmts_parse [OF this] assms(2,3) Parse show ?thesis by (auto simp: safe_iff sized_def)
  next
    case Sync
    with assms(1,2) show ?thesis
      by (auto simp: handle_def labelled_HNil Let_def safe_iff dest!: writeMessages_sel)
  qed (use assms stmts_other stmts_execute in \<open>fastforce simp: handle_def labelled_HNil safe_iff\<close>)+
  ultimately show ?thesis by (simp add: safe_iff)
qed

lemma safe_loop_step:
  assumes "handle D m c = Some (c1, res)" "safe c" "wfail c = None" "known_msg m" "sized_msg (database c) m"
  shows "res = HNil \<and> safe c1 \<and> wfail c1 = None \<and> database c1 = database c \<and>
    readies c1 = readies c + (if wants_ready m then 1 else 0)"
proof -
  note k = handle_keeps [OF assms(1,4)]
  have res: "res = HNil" using k(4) k(5) [OF assms(2)] assms(3) by (cases res) auto
  show ?thesis
    using k(3) k(6) [OF assms(3)] res handle_readies [of D m c c1] handle_safe [of D m c c1] assms by simp
qed

definition count_sync :: "frontend_msg list \<Rightarrow> nat" where
  "count_sync ms = length (filter (\<lambda>m. m = Sync) ms)"

definition count_wants :: "frontend_msg list \<Rightarrow> nat" where
  "count_wants ms = length (filter wants_ready ms)"

lemma loop_stays_up:
  assumes "serve_loop D ms c = Some (c', e)" "safe c" "wfail c = None"
    and "\<forall>m \<in> set ms. known_msg m \<and> sized_msg (database c) m"
  shows "e = eof \<and> safe c' \<and> database c' = database c \<and>
    readies c + count_sync ms \<le> readies c' \<and> readies c' \<le> readies c + count_wants ms"
  using assms
proof (induction ms arbitrary: c)
  case Nil
  then show ?case by (simp add: count_sync_def count_wants_def)
next
  case (Cons m ms)
  show ?case
  proof (cases "discarded m c")
    case True
    with Cons.prems(1) have "serve_loop D ms c = Some (c', e)" by simp
    with Cons.IH [of c] Cons.prems(2-4) True show ?thesis
      by (auto simp: count_sync_def count_wants_def discarded_def)
  next
    case False
    have m: "known_msg m" "sized_msg (database c) m" "m \<noteq> Terminate" using Cons.prems(4) by auto
    from Cons.prems(1) False m(3) obtain c1 res where h: "handle D m c = Some (c1, res)"
      by (cases "handle D m c") auto
    note st = safe_loop_step [OF h Cons.prems(2,3) m(1,2)]
    from Cons.prems(1) False m(3) h st have "serve_loop D ms c1 = Some (c', e)" by simp
    with Cons.IH [of c1] Cons.prems(4) st show ?thesis
      by (cases m) (auto simp: count_sync_def count_wants_def)
  qed
qed

text \<open>A result set that ends: after finitely many rows \<^verbatim>\<open>Next\<close> is false or \<^verbatim>\<open>Scan\<close> fails.\<close>

inductive ends :: "('s, 't, 'r) driver \<Rightarrow> 's \<Rightarrow> 'r \<Rightarrow> bool" where
  ends_done: "d_next D s r = (RowDone, s') \<Longrightarrow> ends D s r"
| ends_err: "d_next D s r = (RowErr e, s') \<Longrightarrow> ends D s r"
| ends_scan: "d_next D s r = (RowData (Inl e), s') \<Longrightarrow> ends D s r"
| ends_row: "d_next D s r = (RowData (Inr vs), s1) \<Longrightarrow> ends D s1 r \<Longrightarrow> ends D s r"

definition finite_results :: "('s, 't, 'r) driver \<Rightarrow> bool" where
  "finite_results D \<longleftrightarrow> (\<forall>s r. ends D s r)"

lemma stream_rows_ends: "ends D s r \<Longrightarrow> \<exists>y. stream_rows D s r oids buf n = Some y"
proof (induction arbitrary: buf n rule: ends.induct)
  case (ends_row D s r vs s1)
  then show ?case by (subst stream_rows.simps) (simp add: scanRow_def)
qed (simp_all add: stream_rows.simps scanRow_def)

lemma stream_rows_finite: "finite_results D \<Longrightarrow> stream_rows D s r oids buf n = None \<longleftrightarrow> False"
  using stream_rows_ends [of D s r oids buf n] by (auto simp: finite_results_def)

lemma handle_returns:
  assumes "finite_results D"
  shows "handle D m c \<noteq> None"
proof (cases m)
  case (Query q)
  have "streamSimpleQuery D query c \<noteq> None" for query
    by (auto simp: streamSimpleQuery_def stream_rows_finite [OF assms] Let_def split: prod.splits sum.splits option.splits stream_end.splits)
  then show ?thesis using Query
    by (auto simp: handle_def labelled_def handleQueryMessage_def execSimpleQuery_def Let_def
        split: prod.splits sum.splits)
next
  case (Execute n)
  have "handleExecuteMessage D n c \<noteq> None"
    by (auto simp: handleExecuteMessage_def stream_rows_finite [OF assms] Let_def split: prod.splits option.splits stream_end.splits)
  then show ?thesis using Execute by (simp add: handle_def labelled_def)
qed (auto simp: handle_def labelled_def handleParseMessage_def handleBindMessage_def handleDescribeMessage_def
      describeStatement_def handleCloseMessage_def Let_def split: prod.splits sum.splits option.splits)

lemma loop_returns:
  assumes "finite_results D"
  shows "\<exists>c' e. serve_loop D ms c = Some (c', e)"
proof (induction ms arbitrary: c)
  case (Cons m ms)
  obtain c1 res where "handle D m c = Some (c1, res)"
    using handle_returns [OF assms, of m c] by auto
  with Cons.IH show ?case by (cases res) auto
qed simp

text \<open>C8: A session stays up: take a session that has its pinned database connection and whose
  prepared statements all have few enough parameters for Describe (\<open>safe\<close>), a database whose
  result sets all end, and a socket that works.  When the client then sends messages of the
  protocol (of any text, names and order, with statements that again have no more placeholders
  than Describe can allocate), the message loop gets through all of them and ends only because
  the client hangs up, never by an error or a panic; every Sync gets its ReadyForQuery, and no
  more are sent than Query and Sync messages came in.\<close>

theorem session_stays_up:
  assumes "finite_results D" "safe c" "wfail c = None"
    and "\<forall>m \<in> set ms. known_msg m \<and> sized_msg (database c) m"
  shows "\<exists>c'. serve_loop D ms c = Some (c', Closed (ErrMsg ''receive message: unexpected EOF'')) \<and>
    pinned c' \<and> database c' = database c \<and>
    readies c + count_sync ms \<le> readies c' \<and> readies c' \<le> readies c + count_wants ms"
proof -
  obtain c' e where l: "serve_loop D ms c = Some (c', e)" using loop_returns [OF assms(1)] by blast
  from loop_stays_up [OF this assms(2-4)] l show ?thesis by (auto simp: safe_def)
qed

lemma finite_demo: "finite_results demo"
proof -
  have big: "ends demo (xs, n) r" if "2 \<le> n" for xs n r
    using that by (intro ends_done) (simp add: demo_def)
  have step: "ends demo (xs, n) r" if "n < 2" "ends demo (xs, Suc n) r" for xs n r
  proof (rule ends_row [OF _ that(2)])
    show "d_next demo (xs, n) r = (RowData (Inr [VInt (of_nat n)]), xs, Suc n)"
      using that(1) by (simp add: demo_def)
  qed
  have "ends demo (xs, n) r" for xs n r
  proof -
    consider "2 \<le> n" | "n = 1" | "n = 0" by linarith
    then show ?thesis
    proof cases
      case 1
      then show ?thesis by (rule big)
    next
      case 2
      show ?thesis unfolding 2 by (rule step [OF _ big]) simp_all
    next
      case 3
      show ?thesis unfolding 3 by (rule step [OF _ step [OF _ big]]) simp_all
    qed
  qed
  then show ?thesis by (auto simp: finite_results_def)
qed

theorem session_stays_up_witness:
  "\<exists>c'. serve_loop demo [Execute ''q'', Flush, Sync] (demo_conn TxIdle) = Some (c', eof) \<and> pinned c' \<and>
     database c' = ''d'' \<and> 1 \<le> readies c' \<and> readies c' \<le> 1"
proof -
  have "safe (demo_conn TxIdle)" "wfail (demo_conn TxIdle) = None" "database (demo_conn TxIdle) = ''d''"
    "readies (demo_conn TxIdle) = 0"
    by (simp_all add: demo_conn_def newConn_def safe_def readies_def)
  then show ?thesis
    using session_stays_up [OF finite_demo, of "demo_conn TxIdle" "[Execute ''q'', Flush, Sync]"]
    by (simp add: count_sync_def count_wants_def del: serve_loop.simps)
qed

end
