(* ===== verification/Catalog_Sql.thy ===== *)
theory Catalog_Sql
  imports Sql_Scan
begin

text \<open>
  The statements of \<^verbatim>\<open>catalog.go\<close> and \<^verbatim>\<open>catalog_information_schema.go\<close> that create the
  catalog views, as the text the source holds, cut at the two tokens \<^verbatim>\<open>$$CATALOG$$\<close> and
  \<^verbatim>\<open>$$NOTVT$$\<close>; and how \<^verbatim>\<open>createCatalogViews\<close> fills the tokens in.  What the views compute is
  in \<open>Catalog_Views\<close>.
\<close>

section \<open>Statement templates\<close>

datatype sql_piece = Sql gostr | Catalog | NotVirtual

definition catalogNameToken :: gostr where
  "catalogNameToken = ''$$CATALOG$$''"

definition notVirtualToken :: gostr where
  "notVirtualToken = ''$$NOTVT$$''"

definition notVirtualPredicate :: gostr where
  \<open>notVirtualPredicate = ''AND m.name NOT IN (SELECT name FROM pragma_table_list WHERE schema = 'main' AND type IN ('virtual','shadow'))
		AND NOT EXISTS (SELECT 1 FROM pragma_table_list v WHERE v.schema = 'main' AND v.type = 'virtual' AND m.name LIKE v.name || '' @ [quote] @ [CHR 0x5C] @ ''_%' ESCAPE '' @ [quote] @ [CHR 0x5C] @ [quote] @ '')''\<close>

definition sql_pg_class :: "sql_piece list" where
  \<open>sql_pg_class = [
   Sql (''CREATE TEMP VIEW pg_class AS
		SELECT
			m.rowid AS oid,
			m.name AS relname,
			2200 AS relnamespace,
			0 AS reltype,
			0 AS reloftype,
			10 AS relowner,
			0 AS relam,
			m.rowid AS relfilenode,
			0 AS reltablespace,
			0 AS relpages,
			-1 AS reltuples,
			0 AS relallvisible,
			0 AS reltoastrelid,
			(SELECT CASE WHEN count(*) > 0 THEN 1 ELSE 0 END FROM pragma_index_list(m.name)) AS relhasindex,
			0 AS relisshared,
			'p' AS relpersistence,
			CASE m.type WHEN 'table' THEN 'r' WHEN 'view' THEN 'v' WHEN 'index' THEN 'i' ELSE 'r' END AS relkind,
			(SELECT count(*) FROM pragma_table_info(m.name)) AS relnatts,
			0 AS relchecks,
			0 AS relhasrules,
			0 AS relhastriggers,
			0 AS relhassubclass,
			0 AS relrowsecurity,
			0 AS relforcerowsecurity,
			1 AS relispopulated,
			'd' AS relreplident,
			0 AS relispartition,
			0 AS relfrozenxid,
			0 AS relminmxid,
			'' @ [quote, quote] @ '' AS relacl,
			'' @ [quote, quote] @ '' AS reloptions
		FROM main.sqlite_master m
		WHERE m.type IN ('table','view','index') AND m.name NOT LIKE 'sqlite_%' ''),
   NotVirtual]\<close>

definition sql_pg_attribute :: "sql_piece list" where
  \<open>sql_pg_attribute = [
   Sql (''CREATE TEMP VIEW pg_attribute AS
		SELECT
			m.rowid AS attrelid,
			m.name AS attrelname,
			p.name AS attname,
			COALESCE(ec.typoid, __pg_type_oid(p.type)) AS atttypid,
			0 AS attstattarget,
			-1 AS attlen,
			p.cid + 1 AS attnum,
			0 AS attndims,
			-1 AS attcacheoff,
			-1 AS atttypmod,
			CASE WHEN p."notnull" = 1 OR p.pk > 0 THEN 1 ELSE 0 END AS attnotnull,
			CASE WHEN p.dflt_value IS NOT NULL THEN 1 ELSE 0 END AS atthasdef,
			'' @ [quote, quote] @ '' AS attidentity,
			'' @ [quote, quote] @ '' AS attgenerated,
			0 AS attisdropped,
			1 AS attislocal,
			0 AS attinhcount,
			0 AS attcollation,
			'' @ [quote, quote] @ '' AS attacl,
			'' @ [quote, quote] @ '' AS attoptions
		FROM main.sqlite_master m
		JOIN pragma_table_info(m.name) p
		LEFT JOIN __pg_enum_col ec ON ec.table_name = m.name AND ec.column_name = p.name COLLATE NOCASE
		WHERE m.type IN ('table','view') AND m.name NOT LIKE 'sqlite_%' ''),
   NotVirtual]\<close>

definition sql_pg_index :: "sql_piece list" where
  \<open>sql_pg_index = [
   Sql (''CREATE TEMP VIEW pg_index AS
		SELECT
			m.rowid * 100000 + il.seq AS indexrelid,
			m.rowid AS indrelid,
			il.name AS indexrelname,
			(SELECT count(*) FROM pragma_index_info(il.name)) AS indnatts,
			CASE WHEN il."unique" = 1 THEN 1 ELSE 0 END AS indisunique,
			CASE WHEN il.origin = 'pk' THEN 1 ELSE 0 END AS indisprimary,
			0 AS indisexclusion,
			CASE WHEN il."unique" = 1 THEN 1 ELSE 0 END AS indimmediate,
			0 AS indisclustered,
			1 AS indisvalid,
			1 AS indisready,
			1 AS indislive
		FROM main.sqlite_master m
		JOIN pragma_index_list(m.name) il
		WHERE m.type = 'table' ''),
   NotVirtual]\<close>

definition sql_pg_constraint :: "sql_piece list" where
  \<open>sql_pg_constraint = [
   Sql (''CREATE TEMP VIEW pg_constraint AS
		SELECT
			m.rowid * 1000000 + 1 AS oid,
			m.name || '_pkey' AS conname,
			2200 AS connamespace,
			'p' AS contype,
			0 AS condeferrable,
			0 AS condeferred,
			1 AS convalidated,
			m.rowid AS conrelid,
			0 AS contypid,
			m.name AS conrelname,
			NULL AS confrelname,
			0 AS confrelid,
			'' @ [quote, quote] @ '' AS confupdtype,
			'' @ [quote, quote] @ '' AS confdeltype,
			'' @ [quote, quote] @ '' AS confmatchtype,
			(SELECT json_group_array(attnum) FROM (SELECT ti.cid + 1 AS attnum FROM pragma_table_info(m.name) ti WHERE ti.pk > 0 ORDER BY ti.pk)) AS conkey,
			NULL AS confkey
		FROM main.sqlite_master m
		JOIN pragma_table_info(m.name) p ON p.pk > 0
		WHERE m.type = 'table' ''),
   NotVirtual,
   Sql (''
		GROUP BY m.rowid, m.name
		UNION ALL
		SELECT
			m.rowid * 1000000 + 1000 + fk.id AS oid,
			m.name || '_' || fk.id || '_fkey' AS conname,
			2200, 'f', 0, 0, 1,
			m.rowid AS conrelid,
			0,
			m.name AS conrelname,
			fk."table" AS confrelname,
			(SELECT rm.rowid FROM main.sqlite_master rm WHERE rm.name = fk."table") AS confrelid,
			CASE fk.on_update WHEN 'CASCADE' THEN 'c' WHEN 'SET NULL' THEN 'n' WHEN 'SET DEFAULT' THEN 'd' WHEN 'RESTRICT' THEN 'r' ELSE 'a' END,
			CASE fk.on_delete WHEN 'CASCADE' THEN 'c' WHEN 'SET NULL' THEN 'n' WHEN 'SET DEFAULT' THEN 'd' WHEN 'RESTRICT' THEN 'r' ELSE 'a' END,
			'f',
			(SELECT json_group_array(attnum) FROM (SELECT (SELECT t2.cid + 1 FROM pragma_table_info(m.name) t2 WHERE t2.name = fk2."from") AS attnum FROM pragma_foreign_key_list(m.name) fk2 WHERE fk2.id = fk.id ORDER BY fk2.seq)),
			(SELECT json_group_array(attnum) FROM (SELECT (SELECT t3.cid + 1 FROM pragma_table_info(fk."table") t3 WHERE t3.name = fk2."to") AS attnum FROM pragma_foreign_key_list(m.name) fk2 WHERE fk2.id = fk.id ORDER BY fk2.seq))
		FROM main.sqlite_master m
		JOIN pragma_foreign_key_list(m.name) fk
		WHERE m.type = 'table' ''),
   NotVirtual,
   Sql ('' AND fk.seq = 0
		UNION ALL
		SELECT
			m.rowid * 1000000 + 2000 + il.seq AS oid,
			il.name AS conname,
			2200, 'u', 0, 0, 1,
			m.rowid AS conrelid,
			0,
			m.name AS conrelname,
			NULL, 0, '' @ [quote, quote] @ '', '' @ [quote, quote] @ '', '' @ [quote, quote] @ '',
			(SELECT json_group_array(attnum) FROM (SELECT (SELECT ti.cid + 1 FROM pragma_table_info(m.name) ti WHERE ti.name = ii.name) AS attnum FROM pragma_index_info(il.name) ii ORDER BY ii.seqno)),
			NULL
		FROM main.sqlite_master m
		JOIN pragma_index_list(m.name) il
		WHERE m.type = 'table' ''),
   NotVirtual,
   Sql ('' AND il."unique" = 1 AND il.origin = 'u'' @ [quote])]\<close>

definition sql_pg_proc :: "sql_piece list" where
  \<open>sql_pg_proc = [
   Sql (''CREATE TEMP VIEW pg_proc AS
		SELECT 0 AS oid, '' @ [quote, quote] @ '' AS proname, 11 AS pronamespace, 10 AS proowner,
		       0 AS prolang, 0 AS prorettype, '' @ [quote, quote] @ '' AS proargtypes, 0 AS pronargs
		WHERE 0'')]\<close>

definition sql_pg_database :: "sql_piece list" where
  \<open>sql_pg_database = [
   Sql (''CREATE TEMP VIEW pg_database AS
		SELECT
			1 AS oid,
			''),
   Catalog,
   Sql ('' AS datname,
			10 AS datdba,
			6 AS encoding,
			'C' AS datcollate,
			'C' AS datctype,
			0 AS datistemplate,
			1 AS datallowconn,
			-1 AS datconnlimit,
			0 AS datlastsysoid,
			0 AS datfrozenxid,
			0 AS datminmxid,
			0 AS dattablespace,
			NULL AS datacl'')]\<close>

definition sql_pg_type :: "sql_piece list" where
  \<open>sql_pg_type = [
   Sql (''CREATE TEMP VIEW pg_type AS
		SELECT * FROM pg_catalog.pg_type
		UNION ALL
		SELECT
			et.oid, et.typname, et.typnamespace, 10, -1, 0, 'e', 'E', 0, 1, ',',
			0, 0, 0, 0, 0, 0, 0, 0, 0, 0, 'i', 'p', 0, 0, -1, 0, 0, NULL, NULL, NULL
		FROM __pg_enum_type et'')]\<close>

definition sql_pg_enum :: "sql_piece list" where
  \<open>sql_pg_enum = [
   Sql (''CREATE TEMP VIEW pg_enum AS
		SELECT (l.enumtypid * 10000 + l.enumsortorder) AS oid,
		       l.enumtypid AS enumtypid, l.enumsortorder AS enumsortorder, l.enumlabel AS enumlabel
		FROM __pg_enum_label l'')]\<close>

definition sql_pg_get_keywords :: "sql_piece list" where
  \<open>sql_pg_get_keywords = [
   Sql (''CREATE TEMP VIEW pg_get_keywords AS
		SELECT word, 'U' AS catcode, 'unreserved' AS catdesc FROM (
			SELECT 'abort' AS word UNION ALL SELECT 'add' UNION ALL SELECT 'all' UNION ALL
			SELECT 'alter' UNION ALL SELECT 'analyze' UNION ALL SELECT 'and' UNION ALL
			SELECT 'as' UNION ALL SELECT 'asc' UNION ALL SELECT 'begin' UNION ALL
			SELECT 'between' UNION ALL SELECT 'by' UNION ALL SELECT 'case' UNION ALL
			SELECT 'cast' UNION ALL SELECT 'check' UNION ALL SELECT 'collate' UNION ALL
			SELECT 'column' UNION ALL SELECT 'commit' UNION ALL SELECT 'constraint' UNION ALL
			SELECT 'create' UNION ALL SELECT 'cross' UNION ALL SELECT 'default' UNION ALL
			SELECT 'delete' UNION ALL SELECT 'desc' UNION ALL SELECT 'distinct' UNION ALL
			SELECT 'drop' UNION ALL SELECT 'else' UNION ALL SELECT 'end' UNION ALL
			SELECT 'except' UNION ALL SELECT 'exists' UNION ALL SELECT 'foreign' UNION ALL
			SELECT 'from' UNION ALL SELECT 'full' UNION ALL SELECT 'group' UNION ALL
			SELECT 'having' UNION ALL SELECT 'in' UNION ALL SELECT 'index' UNION ALL
			SELECT 'inner' UNION ALL SELECT 'insert' UNION ALL SELECT 'intersect' UNION ALL
			SELECT 'into' UNION ALL SELECT 'is' UNION ALL SELECT 'join' UNION ALL
			SELECT 'left' UNION ALL SELECT 'like' UNION ALL SELECT 'limit' UNION ALL
			SELECT 'not' UNION ALL SELECT 'null' UNION ALL SELECT 'on' UNION ALL
			SELECT 'or' UNION ALL SELECT 'order' UNION ALL SELECT 'outer' UNION ALL
			SELECT 'primary' UNION ALL SELECT 'references' UNION ALL SELECT 'right' UNION ALL
			SELECT 'rollback' UNION ALL SELECT 'select' UNION ALL SELECT 'set' UNION ALL
			SELECT 'table' UNION ALL SELECT 'then' UNION ALL SELECT 'union' UNION ALL
			SELECT 'unique' UNION ALL SELECT 'update' UNION ALL SELECT 'using' UNION ALL
			SELECT 'values' UNION ALL SELECT 'when' UNION ALL SELECT 'where' UNION ALL
			SELECT 'with'
		)'')]\<close>

definition sql_information_schema_tables :: "sql_piece list" where
  \<open>sql_information_schema_tables = [
   Sql (''CREATE TEMP VIEW information_schema_tables AS
		SELECT
			''),
   Catalog,
   Sql ('' AS table_catalog,
			'public' AS table_schema,
			m.name AS table_name,
			CASE m.type WHEN 'view' THEN 'VIEW' ELSE 'BASE TABLE' END AS table_type,
			NULL AS self_referencing_column_name,
			NULL AS reference_generation,
			NULL AS user_defined_type_catalog,
			NULL AS user_defined_type_schema,
			NULL AS user_defined_type_name,
			'YES' AS is_insertable_into,
			'NO' AS is_typed,
			NULL AS commit_action
		FROM main.sqlite_master m
		WHERE m.type IN ('table','view') AND m.name NOT LIKE 'sqlite_%' ''),
   NotVirtual]\<close>

definition sql_information_schema_columns :: "sql_piece list" where
  \<open>sql_information_schema_columns = [
   Sql (''CREATE TEMP VIEW information_schema_columns AS
		SELECT
			''),
   Catalog,
   Sql ('' AS table_catalog,
			'public' AS table_schema,
			m.name AS table_name,
			p.name AS column_name,
			p.cid + 1 AS ordinal_position,
			p.dflt_value AS column_default,
			CASE WHEN p."notnull" = 1 OR p.pk > 0 THEN 'NO' ELSE 'YES' END AS is_nullable,
			CASE WHEN ec.typname IS NOT NULL THEN 'USER-DEFINED' ELSE __pg_type_name(p.type) END AS data_type,
			NULL AS character_maximum_length,
			NULL AS character_octet_length,
			NULL AS numeric_precision,
			NULL AS numeric_precision_radix,
			NULL AS numeric_scale,
			NULL AS datetime_precision,
			NULL AS character_set_catalog,
			NULL AS character_set_schema,
			NULL AS character_set_name,
			NULL AS collation_catalog,
			NULL AS collation_schema,
			NULL AS collation_name,
			''),
   Catalog,
   Sql ('' AS udt_catalog,
			CASE WHEN ec.typname IS NOT NULL THEN 'public' ELSE 'pg_catalog' END AS udt_schema,
			COALESCE(ec.typname, __pg_udt_name(p.type)) AS udt_name,
			'NO' AS is_identity,
			NULL AS identity_generation,
			'NEVER' AS is_generated,
			NULL AS generation_expression,
			'YES' AS is_updatable
		FROM main.sqlite_master m
		JOIN pragma_table_info(m.name) p
		LEFT JOIN __pg_enum_col ec ON ec.table_name = m.name AND ec.column_name = p.name COLLATE NOCASE
		WHERE m.type IN ('table','view') AND m.name NOT LIKE 'sqlite_%' ''),
   NotVirtual]\<close>

definition sql_information_schema_key_column_usage :: "sql_piece list" where
  \<open>sql_information_schema_key_column_usage = [
   Sql (''CREATE TEMP VIEW information_schema_key_column_usage AS
		SELECT
			''),
   Catalog,
   Sql ('' AS constraint_catalog,
			'public' AS constraint_schema,
			m.name || '_pkey' AS constraint_name,
			''),
   Catalog,
   Sql ('' AS table_catalog,
			'public' AS table_schema,
			m.name AS table_name,
			p.name AS column_name,
			p.pk AS ordinal_position,
			NULL AS position_in_unique_constraint
		FROM main.sqlite_master m
		JOIN pragma_table_info(m.name) p
		WHERE m.type = 'table' ''),
   NotVirtual,
   Sql ('' AND p.pk > 0
		UNION ALL
		SELECT
			''),
   Catalog,
   Sql ('',
			'public',
			m.name || '_' || fk.id || '_fkey',
			''),
   Catalog,
   Sql ('',
			'public',
			m.name,
			fk."from",
			fk.seq + 1,
			fk.seq + 1
		FROM main.sqlite_master m
		JOIN pragma_foreign_key_list(m.name) fk
		WHERE m.type = 'table' ''),
   NotVirtual]\<close>

definition sql_information_schema_table_constraints :: "sql_piece list" where
  \<open>sql_information_schema_table_constraints = [
   Sql (''CREATE TEMP VIEW information_schema_table_constraints AS
		SELECT
			''),
   Catalog,
   Sql ('' AS constraint_catalog,
			'public' AS constraint_schema,
			m.name || '_pkey' AS constraint_name,
			''),
   Catalog,
   Sql ('' AS table_catalog,
			'public' AS table_schema,
			m.name AS table_name,
			'PRIMARY KEY' AS constraint_type,
			'NO' AS is_deferrable,
			'NO' AS initially_deferred
		FROM main.sqlite_master m
		JOIN pragma_table_info(m.name) p ON p.pk > 0
		WHERE m.type = 'table' ''),
   NotVirtual,
   Sql (''
		GROUP BY m.name
		UNION ALL
		SELECT
			''),
   Catalog,
   Sql ('', 'public', m.name || '_' || fk.id || '_fkey',
			''),
   Catalog,
   Sql ('', 'public', m.name, 'FOREIGN KEY', 'NO', 'NO'
		FROM main.sqlite_master m
		JOIN pragma_foreign_key_list(m.name) fk
		WHERE m.type = 'table' ''),
   NotVirtual,
   Sql ('' AND fk.seq = 0
		UNION ALL
		SELECT
			''),
   Catalog,
   Sql ('', 'public', il.name,
			''),
   Catalog,
   Sql ('', 'public', m.name, 'UNIQUE', 'NO', 'NO'
		FROM main.sqlite_master m
		JOIN pragma_index_list(m.name) il
		WHERE m.type = 'table' ''),
   NotVirtual,
   Sql ('' AND il."unique" = 1 AND il.origin = 'u'' @ [quote])]\<close>

definition sql_information_schema_referential_constraints :: "sql_piece list" where
  \<open>sql_information_schema_referential_constraints = [
   Sql (''CREATE TEMP VIEW information_schema_referential_constraints AS
		SELECT
			''),
   Catalog,
   Sql ('' AS constraint_catalog,
			'public' AS constraint_schema,
			m.name || '_' || fk.id || '_fkey' AS constraint_name,
			''),
   Catalog,
   Sql ('' AS unique_constraint_catalog,
			'public' AS unique_constraint_schema,
			fk."table" || '_pkey' AS unique_constraint_name,
			'NONE' AS match_option,
			COALESCE(fk.on_update, 'NO ACTION') AS update_rule,
			COALESCE(fk.on_delete, 'NO ACTION') AS delete_rule
		FROM main.sqlite_master m
		JOIN pragma_foreign_key_list(m.name) fk
		WHERE m.type = 'table' ''),
   NotVirtual,
   Sql ('' AND fk.seq = 0'')]\<close>

definition sql_information_schema_constraint_column_usage :: "sql_piece list" where
  \<open>sql_information_schema_constraint_column_usage = [
   Sql (''CREATE TEMP VIEW information_schema_constraint_column_usage AS
		SELECT
			''),
   Catalog,
   Sql ('' AS table_catalog,
			'public' AS table_schema,
			fk."table" AS table_name,
			COALESCE(fk."to", (SELECT ti.name FROM pragma_table_info(fk."table") ti WHERE ti.pk = 1)) AS column_name,
			''),
   Catalog,
   Sql ('' AS constraint_catalog,
			'public' AS constraint_schema,
			m.name || '_' || fk.id || '_fkey' AS constraint_name
		FROM main.sqlite_master m
		JOIN pragma_foreign_key_list(m.name) fk
		WHERE m.type = 'table' ''),
   NotVirtual,
   Sql (''
		UNION ALL
		SELECT
			''),
   Catalog,
   Sql ('', 'public', m.name, p.name,
			''),
   Catalog,
   Sql ('', 'public', m.name || '_pkey'
		FROM main.sqlite_master m
		JOIN pragma_table_info(m.name) p
		WHERE m.type = 'table' ''),
   NotVirtual,
   Sql ('' AND p.pk > 0'')]\<close>

definition sql_information_schema_views :: "sql_piece list" where
  \<open>sql_information_schema_views = [
   Sql (''CREATE TEMP VIEW information_schema_views AS
		SELECT
			''),
   Catalog,
   Sql ('' AS table_catalog,
			'public' AS table_schema,
			m.name AS table_name,
			m.sql AS view_definition,
			'NONE' AS check_option,
			'NO' AS is_updatable,
			'NO' AS is_insertable_into,
			'NO' AS is_trigger_updatable,
			'NO' AS is_trigger_deletable,
			'NO' AS is_trigger_insertable_into
		FROM main.sqlite_master m
		WHERE m.type = 'view'' @ [quote])]\<close>

definition sql_information_schema_schemata :: "sql_piece list" where
  \<open>sql_information_schema_schemata = [
   Sql (''CREATE TEMP VIEW information_schema_schemata AS
		SELECT ''),
   Catalog,
   Sql ('' AS catalog_name, 'public' AS schema_name, 'sqlite3' AS schema_owner,
		       NULL AS default_character_set_catalog, NULL AS default_character_set_schema,
		       NULL AS default_character_set_name, NULL AS sql_path
		UNION ALL SELECT ''),
   Catalog,
   Sql ('', 'pg_catalog', 'sqlite3', NULL, NULL, NULL, NULL
		UNION ALL SELECT ''),
   Catalog,
   Sql ('', 'information_schema', 'sqlite3', NULL, NULL, NULL, NULL'')]\<close>

definition sql_information_schema_sequences :: "sql_piece list" where
  \<open>sql_information_schema_sequences = [
   Sql (''CREATE TEMP VIEW information_schema_sequences AS
		SELECT ''),
   Catalog,
   Sql ('' AS sequence_catalog, 'public' AS sequence_schema, '' @ [quote, quote] @ '' AS sequence_name,
		       'bigint' AS data_type, 64 AS numeric_precision, 2 AS numeric_precision_radix, 0 AS numeric_scale,
		       '1' AS start_value, '1' AS minimum_value, '9223372036854775807' AS maximum_value,
		       '1' AS increment, 'NO' AS cycle_option
		WHERE 0'')]\<close>

definition sql_information_schema_triggers :: "sql_piece list" where
  \<open>sql_information_schema_triggers = [
   Sql (''CREATE TEMP VIEW information_schema_triggers AS
		SELECT
			''),
   Catalog,
   Sql ('' AS trigger_catalog,
			'public' AS trigger_schema,
			m.name AS trigger_name,
			'' @ [quote, quote] @ '' AS event_manipulation,
			''),
   Catalog,
   Sql ('' AS event_object_catalog,
			'public' AS event_object_schema,
			m.tbl_name AS event_object_table,
			1 AS action_order,
			NULL AS action_condition,
			m.sql AS action_statement,
			'ROW' AS action_orientation,
			'AFTER' AS action_timing
		FROM main.sqlite_master m
		WHERE m.type = 'trigger'' @ [quote])]\<close>

definition catalogViews :: "sql_piece list list" where
  "catalogViews =
     [sql_pg_class,
      sql_pg_attribute,
      sql_pg_index,
      sql_pg_constraint,
      sql_pg_proc,
      sql_pg_database,
      sql_pg_type,
      sql_pg_enum,
      sql_pg_get_keywords,
      sql_information_schema_tables,
      sql_information_schema_columns,
      sql_information_schema_key_column_usage,
      sql_information_schema_table_constraints,
      sql_information_schema_referential_constraints,
      sql_information_schema_constraint_column_usage,
      sql_information_schema_views,
      sql_information_schema_schemata,
      sql_information_schema_sequences,
      sql_information_schema_triggers]"

lemmas catalog_sql_defs =
  sql_pg_class_def
  sql_pg_attribute_def
  sql_pg_index_def
  sql_pg_constraint_def
  sql_pg_proc_def
  sql_pg_database_def
  sql_pg_type_def
  sql_pg_enum_def
  sql_pg_get_keywords_def
  sql_information_schema_tables_def
  sql_information_schema_columns_def
  sql_information_schema_key_column_usage_def
  sql_information_schema_table_constraints_def
  sql_information_schema_referential_constraints_def
  sql_information_schema_constraint_column_usage_def
  sql_information_schema_views_def
  sql_information_schema_schemata_def
  sql_information_schema_sequences_def
  sql_information_schema_triggers_def

section \<open>Filling in the tokens\<close>

primrec piece_text :: "sql_piece \<Rightarrow> gostr" where
  "piece_text (Sql s) = s"
| "piece_text Catalog = catalogNameToken"
| "piece_text NotVirtual = notVirtualToken"

definition statement_text :: "sql_piece list \<Rightarrow> gostr" where
  "statement_text ps = concat (map piece_text ps)"

text \<open>The two \<^verbatim>\<open>strings.ReplaceAll\<close> calls of \<^verbatim>\<open>createCatalogViews\<close>.\<close>

definition fill_statement :: "gostr \<Rightarrow> gostr \<Rightarrow> gostr" where
  "fill_statement dbName stmt =
     ReplaceAll (ReplaceAll stmt catalogNameToken (sqlStringLiteral dbName)) notVirtualToken notVirtualPredicate"

definition catalog_statements :: "gostr \<Rightarrow> gostr list" where
  "catalog_statements dbName = map (\<lambda>ps. fill_statement dbName (statement_text ps)) catalogViews"

text \<open>What the tokens stand for.\<close>

primrec piece_value :: "gostr \<Rightarrow> sql_piece \<Rightarrow> gostr" where
  "piece_value db (Sql s) = s"
| "piece_value db Catalog = sqlStringLiteral db"
| "piece_value db NotVirtual = notVirtualPredicate"

text \<open>Pieces whose tokens cannot be confused: no dollar sign in the text, and no text that
  could be the rest of a token behind \<open>NotVirtual\<close>.\<close>

fun clear_pieces :: "sql_piece list \<Rightarrow> bool" where
  "clear_pieces [] = True"
| "clear_pieces (Sql s # ps) = (list_all (\<lambda>c. c \<noteq> CHR ''$'') s \<and> clear_pieces ps)"
| "clear_pieces (Catalog # ps) = clear_pieces ps"
| "clear_pieces (NotVirtual # ps) =
     ((case ps of [] \<Rightarrow> True | Sql (c # s) # _ \<Rightarrow> c \<noteq> CHR ''C'' | _ \<Rightarrow> False) \<and> clear_pieces ps)"

lemma ReplaceAll_skip:
  assumes "\<forall>c \<in> set a. c \<noteq> CHR ''$''"
  shows "ReplaceAll (a @ s) (CHR ''$'' # t) r = a @ ReplaceAll s (CHR ''$'' # t) r"
  using assms by (induction a) auto

lemma ReplaceAll_catalog:
  "ReplaceAll (catalogNameToken @ s) catalogNameToken r = r @ ReplaceAll s catalogNameToken r"
  by (simp add: catalogNameToken_def)

lemma ReplaceAll_notvt:
  "ReplaceAll (notVirtualToken @ s) notVirtualToken r = r @ ReplaceAll s notVirtualToken r"
  by (simp add: notVirtualToken_def)

text \<open>The result of the first \<^verbatim>\<open>ReplaceAll\<close>.\<close>

primrec half_value :: "gostr \<Rightarrow> sql_piece \<Rightarrow> gostr" where
  "half_value db (Sql s) = s"
| "half_value db Catalog = sqlStringLiteral db"
| "half_value db NotVirtual = notVirtualToken"

lemma clear_tail:
  "(case ps of [] \<Rightarrow> True | Sql (c # s) # _ \<Rightarrow> c \<noteq> CHR ''C'' | _ \<Rightarrow> False) \<Longrightarrow> clear_pieces ps \<Longrightarrow>
     statement_text ps = [] \<or> hd (statement_text ps) \<notin> {CHR ''C'', CHR ''$''}"
proof (cases ps)
  case (Cons p ps')
  assume "case ps of [] \<Rightarrow> True | Sql (c # s) # _ \<Rightarrow> c \<noteq> CHR ''C'' | _ \<Rightarrow> False" "clear_pieces ps"
  with Cons obtain c s where "p = Sql (c # s)" "c \<noteq> CHR ''C''" "c \<noteq> CHR ''$''"
    by (auto split: sql_piece.splits list.splits)
  with Cons show ?thesis by (simp add: statement_text_def)
qed (simp add: statement_text_def)

lemma replace_catalog:
  "clear_pieces ps \<Longrightarrow>
     ReplaceAll (statement_text ps) catalogNameToken (sqlStringLiteral db) = concat (map (half_value db) ps)"
proof (induction ps rule: clear_pieces.induct)
  case (2 s ps)
  then have "\<forall>c \<in> set s. c \<noteq> CHR ''$''" by (simp add: list_all_iff)
  from ReplaceAll_skip [OF this, of "statement_text ps"] 2 show ?case
    by (simp add: statement_text_def catalogNameToken_def)
next
  case (3 ps)
  then show ?case by (simp add: statement_text_def ReplaceAll_catalog)
next
  case (4 ps)
  from 4 have "statement_text ps = [] \<or> hd (statement_text ps) \<notin> {CHR ''C'', CHR ''$''}"
    by (intro clear_tail) auto
  then have "ReplaceAll (notVirtualToken @ statement_text ps) catalogNameToken r =
      notVirtualToken @ ReplaceAll (statement_text ps) catalogNameToken r" for r
    by (cases "statement_text ps") (auto simp: notVirtualToken_def catalogNameToken_def)
  with 4 show ?case by (simp add: statement_text_def)
qed (simp add: statement_text_def)

lemma literal_no_dollar: "CHR ''$'' \<notin> set db \<Longrightarrow> \<forall>c \<in> set (sqlStringLiteral db). c \<noteq> CHR ''$''"
  unfolding sqlStringLiteral_def by (induction db) auto

lemma replace_notvt:
  assumes "CHR ''$'' \<notin> set db" "clear_pieces ps"
  shows "ReplaceAll (concat (map (half_value db) ps)) notVirtualToken r =
    concat (map (\<lambda>p. if p = NotVirtual then r else half_value db p) ps)"
  using assms(2)
proof (induction ps rule: clear_pieces.induct)
  case (2 s ps)
  then have "\<forall>c \<in> set s. c \<noteq> CHR ''$''" by (simp add: list_all_iff)
  from ReplaceAll_skip [OF this] 2 show ?case by (simp add: notVirtualToken_def)
next
  case (3 ps)
  from ReplaceAll_skip [OF literal_no_dollar [OF assms(1)]] 3 show ?case by (simp add: notVirtualToken_def)
next
  case (4 ps)
  then show ?case by (simp add: ReplaceAll_notvt)
qed simp

lemma catalogViews_clear: "list_all clear_pieces catalogViews"
  unfolding catalogViews_def catalog_sql_defs by simp

lemma fill_clear:
  assumes "CHR ''$'' \<notin> set db" "clear_pieces ps"
  shows "fill_statement db (statement_text ps) = concat (map (piece_value db) ps)"
proof -
  have "(\<lambda>p. if p = NotVirtual then notVirtualPredicate else half_value db p) = piece_value db"
  proof
    show "(if p = NotVirtual then notVirtualPredicate else half_value db p) = piece_value db p" for p
      by (cases p) auto
  qed
  with assms show ?thesis by (simp add: fill_statement_def replace_catalog replace_notvt)
qed

text \<open>The catalog statements are the templates with the tokens filled in: for a database
  name without a dollar sign every statement SQLite is given is its template with each
  \<^verbatim>\<open>$$CATALOG$$\<close> replaced by the name as one SQL string literal (which reads back as the name)
  and each \<^verbatim>\<open>$$NOTVT$$\<close> by the predicate on virtual tables, and nothing else changed.\<close>

theorem catalog_statements_filled:
  assumes "CHR ''$'' \<notin> set db"
  shows "catalog_statements db = map (\<lambda>ps. concat (map (piece_value db) ps)) catalogViews \<and>
    (\<forall>rest. rest = [] \<or> hd rest \<noteq> quote \<longrightarrow> read_literal (piece_value db Catalog @ rest) = Some (db, rest))"
  using catalogViews_clear fill_clear [OF assms] read_body_literal
  by (auto simp: catalog_statements_def list_all_iff sqlStringLiteral_def read_literal_def)

theorem catalog_statements_filled_witness:
  "read_literal (piece_value ''o'brien'' Catalog @ '' AS datname'') = Some (''o'brien'', '' AS datname'')"
  using catalog_statements_filled [of "''o'brien''"] by simp

text \<open>The name is filled in before the other token is replaced: a database called \<^verbatim>\<open>$$NOTVT$$\<close>
  has its own name replaced, and the literal that should hold it ends after \<^verbatim>\<open>schema = \<close>.\<close>

lemma catalog_name_token_confusion:
  "fill_statement notVirtualToken (statement_text [Sql ''SELECT '', Catalog]) =
     ''SELECT '' @ [quote] @ notVirtualPredicate @ [quote]"
  by (simp add: fill_statement_def statement_text_def sqlStringLiteral_def notVirtualToken_def catalogNameToken_def)

end
