(* ===== verification/Md5.thy ===== *)
theory Md5
  imports Prelude "HOL-Library.Word"
begin

text \<open>
  \<^verbatim>\<open>crypto/md5\<close> and \<^verbatim>\<open>encoding/hex\<close> of the Go standard library, as \<^verbatim>\<open>auth.go\<close> uses them:
  the MD5 digest (RFC 1321) of a byte string, over 32-bit words that wrap around, and the
  lowercase hexadecimal text of a byte string.
\<close>

unbundle bit_operations_syntax

section \<open>The digest\<close>

type_synonym md5_state = "32 word \<times> 32 word \<times> 32 word \<times> 32 word"

text \<open>The constants \<open>floor (2 ^ 32 * abs (sin (i + 1)))\<close> and the rotation counts.\<close>

definition md5_consts :: "32 word list" where
  "md5_consts =
     [
      0xD76AA478, 0xE8C7B756, 0x242070DB, 0xC1BDCEEE, 0xF57C0FAF, 0x4787C62A,
      0xA8304613, 0xFD469501, 0x698098D8, 0x8B44F7AF, 0xFFFF5BB1, 0x895CD7BE,
      0x6B901122, 0xFD987193, 0xA679438E, 0x49B40821, 0xF61E2562, 0xC040B340,
      0x265E5A51, 0xE9B6C7AA, 0xD62F105D, 0x02441453, 0xD8A1E681, 0xE7D3FBC8,
      0x21E1CDE6, 0xC33707D6, 0xF4D50D87, 0x455A14ED, 0xA9E3E905, 0xFCEFA3F8,
      0x676F02D9, 0x8D2A4C8A, 0xFFFA3942, 0x8771F681, 0x6D9D6122, 0xFDE5380C,
      0xA4BEEA44, 0x4BDECFA9, 0xF6BB4B60, 0xBEBFBC70, 0x289B7EC6, 0xEAA127FA,
      0xD4EF3085, 0x04881D05, 0xD9D4D039, 0xE6DB99E5, 0x1FA27CF8, 0xC4AC5665,
      0xF4292244, 0x432AFF97, 0xAB9423A7, 0xFC93A039, 0x655B59C3, 0x8F0CCC92,
      0xFFEFF47D, 0x85845DD1, 0x6FA87E4F, 0xFE2CE6E0, 0xA3014314, 0x4E0811A1,
      0xF7537E82, 0xBD3AF235, 0x2AD7D2BB, 0xEB86D391]"

definition md5_shifts :: "nat list" where
  "md5_shifts =
     concat (replicate 4 [7, 12, 17, 22]) @ concat (replicate 4 [5, 9, 14, 20])
     @ concat (replicate 4 [4, 11, 16, 23]) @ concat (replicate 4 [6, 10, 15, 21])"

text \<open>The mixing function of step \<open>i\<close> and the message word it takes.\<close>

definition md5_mix :: "nat \<Rightarrow> 32 word \<Rightarrow> 32 word \<Rightarrow> 32 word \<Rightarrow> 32 word" where
  "md5_mix i b c d =
     (if i < 16 then (b AND c) OR (NOT b AND d)
      else if i < 32 then (d AND b) OR (NOT d AND c)
      else if i < 48 then b XOR c XOR d
      else c XOR (b OR NOT d))"

definition md5_index :: "nat \<Rightarrow> nat" where
  "md5_index i =
     (if i < 16 then i else if i < 32 then (5 * i + 1) mod 16
      else if i < 48 then (3 * i + 5) mod 16 else (7 * i) mod 16)"

fun md5_step :: "32 word list \<Rightarrow> md5_state \<Rightarrow> nat \<Rightarrow> md5_state" where
  "md5_step m (a, b, c, d) i =
     (d, b + word_rotl (md5_shifts ! i) (a + md5_mix i b c d + md5_consts ! i + m ! md5_index i), b, c)"

fun md5_block :: "md5_state \<Rightarrow> 32 word list \<Rightarrow> md5_state" where
  "md5_block (a, b, c, d) m =
     (case foldl (md5_step m) (a, b, c, d) [0..<64] of
        (a', b', c', d') \<Rightarrow> (a + a', b + b', c + c', d + d'))"

definition md5_init :: md5_state where
  "md5_init = (0x67452301, 0xEFCDAB89, 0x98BADCFE, 0x10325476)"

text \<open>Little-endian words.\<close>

fun le_words :: "gostr \<Rightarrow> 32 word list" where
  "le_words (a # b # c # d # s) =
     word_of_nat (code a + 256 * code b + 65536 * code c + 16777216 * code d) # le_words s"
| "le_words _ = []"

fun le_bytes :: "nat \<Rightarrow> nat \<Rightarrow> gostr" where
  "le_bytes 0 n = []"
| "le_bytes (Suc k) n = char_of (n mod 256) # le_bytes k (n div 256)"

definition md5_pad :: "gostr \<Rightarrow> gostr" where
  "md5_pad s =
     s @ [CHR 0x80] @ replicate ((119 - length s mod 64) mod 64) (CHR 0x00) @ le_bytes 8 (8 * length s)"

fun chunks16 :: "nat \<Rightarrow> 'a list \<Rightarrow> 'a list list" where
  "chunks16 0 xs = []"
| "chunks16 (Suc n) xs = take 16 xs # chunks16 n (drop 16 xs)"

definition md5_sum :: "gostr \<Rightarrow> gostr" where
  "md5_sum s =
     (let ws = le_words (md5_pad s) in
      case foldl md5_block md5_init (chunks16 (length ws div 16) ws) of
        (a, b, c, d) \<Rightarrow> concat (map (\<lambda>w. le_bytes 4 (unat w)) [a, b, c, d]))"

text \<open>\<^verbatim>\<open>hex.EncodeToString\<close>.\<close>

definition hex_encode :: "gostr \<Rightarrow> gostr" where
  "hex_encode s = concat (map (\<lambda>c. hex2 (code c)) s)"

section \<open>Sizes\<close>

lemma length_le_bytes [simp]: "length (le_bytes k n) = k"
  by (induction k arbitrary: n) auto

text \<open>The padded message is a whole number of 64-byte blocks, so every block is complete.\<close>

lemma md5_pad_blocks: "length (md5_pad s) mod 64 = 0"
proof -
  define r where "r = length s mod 64"
  have r: "r < 64" by (simp add: r_def)
  have "(119 - r) mod 64 = (if r \<le> 55 then 55 - r else 119 - r)"
  proof (cases "r \<le> 55")
    case True
    then have "119 - r = (55 - r) + 64" by simp
    with True show ?thesis by (simp only: mod_add_self2) simp
  qed (use r in simp)
  with r have "(r + (9 + (119 - r) mod 64)) mod 64 = 0" by (auto split: if_splits)
  then have "(length s + (9 + (119 - r) mod 64)) mod 64 = 0"
    by (simp add: r_def mod_add_left_eq)
  then show ?thesis by (simp add: md5_pad_def r_def ac_simps)
qed

lemma length_md5_sum [simp]: "length (md5_sum s) = 16"
  by (simp add: md5_sum_def Let_def split: prod.splits)

lemma length_hex_encode: "length (hex_encode s) = 2 * length s"
  by (induction s) (auto simp: hex_encode_def hex2_def)

end
