(* ===== verification/Filepath.thy ===== *)
theory Filepath
  imports Prelude
begin

text \<open>
  \<^verbatim>\<open>path/filepath\<close> of the Go standard library on Unix, as \<^verbatim>\<open>handleStartupMessage\<close> uses it to
  find the database file: \<^verbatim>\<open>Clean\<close> and \<^verbatim>\<open>Join\<close>, and when a join stays below its directory.
\<close>

section \<open>Clean and Join\<close>

text \<open>\<^verbatim>\<open>filepath.Clean\<close> on Unix: the elements of the path are kept on a stack; empty ones and
  dots are dropped, a double dot removes the element before it.\<close>

definition clean_step :: "bool \<Rightarrow> gostr list \<Rightarrow> gostr \<Rightarrow> gostr list" where
  "clean_step rooted st el =
     (if el = [] \<or> el = ''.'' then st
      else if el = ''..'' then
        (if st \<noteq> [] \<and> last st \<noteq> ''..'' then butlast st else if rooted then st else st @ [el])
      else st @ [el])"

definition path_elems :: "gostr \<Rightarrow> gostr list" where
  "path_elems p = foldl (clean_step (HasPrefix p ''/'')) [] (SplitChar p (CHR ''/''))"

definition filepath_Clean :: "gostr \<Rightarrow> gostr" where
  "filepath_Clean p =
     (let out = (if HasPrefix p ''/'' then ''/'' else []) @ Join (path_elems p) ''/''
      in if out = [] then ''.'' else out)"

text \<open>\<^verbatim>\<open>filepath.Join(a, b)\<close>.\<close>

definition filepath_Join :: "gostr \<Rightarrow> gostr \<Rightarrow> gostr" where
  "filepath_Join a b =
     (if a \<noteq> [] then filepath_Clean (a @ ''/'' @ b)
      else if b \<noteq> [] then filepath_Clean b
      else [])"

section \<open>Cleaned paths\<close>

abbreviation slash :: char where
  "slash \<equiv> CHR ''/''"

text \<open>A stack of elements that \<open>clean_step\<close> does not change any more.\<close>

definition proper :: "gostr \<Rightarrow> bool" where
  "proper el \<longleftrightarrow> el \<noteq> [] \<and> el \<noteq> ''.'' \<and> slash \<notin> set el"

definition clean_stack :: "bool \<Rightarrow> gostr list \<Rightarrow> bool" where
  "clean_stack rooted st \<longleftrightarrow> (\<forall>el \<in> set st. proper el) \<and>
     (\<exists>k rest. st = replicate k ''..'' @ rest \<and> ''..'' \<notin> set rest \<and> (rooted \<longrightarrow> k = 0))"

lemma clean_stack_Nil [simp]: "clean_stack rooted []"
  by (auto simp: clean_stack_def)

lemma clean_stack_plain:
  "clean_stack rooted st \<Longrightarrow> proper el \<Longrightarrow> el \<noteq> ''..'' \<Longrightarrow> clean_stack rooted (st @ [el])"
  unfolding clean_stack_def by (force intro: exI [of _ "_ @ [el]"])

lemma clean_stack_up:
  assumes "clean_stack rooted st" "slash \<notin> set el" "el = ''..''"
  shows "clean_stack rooted (clean_step rooted st el)"
proof -
  from assms(1) obtain k rest where st: "st = replicate k ''..'' @ rest" "''..'' \<notin> set rest" "rooted \<longrightarrow> k = 0"
    and p: "\<forall>e \<in> set st. proper e" by (auto simp: clean_stack_def)
  show ?thesis
  proof (cases rest rule: rev_cases)
    case Nil
    then have last: "st \<noteq> [] \<Longrightarrow> last st = ''..''" using st by (cases k) auto
    show ?thesis
    proof (cases rooted)
      case True
      with st Nil assms(3) show ?thesis by (auto simp: clean_step_def)
    next
      case False
      have "clean_stack rooted (st @ [''..''])"
        unfolding clean_stack_def using st Nil p False
        by (auto simp: proper_def replicate_append_same intro!: exI [of _ "Suc k"] exI [of _ "[]"])
      with False last assms(3) show ?thesis by (auto simp: clean_step_def)
    qed
  next
    case (snoc rest' e)
    with st have "e \<noteq> ''..''" "st \<noteq> []" "last st = e" "butlast st = replicate k ''..'' @ rest'"
      by (auto simp: butlast_append)
    with st p snoc assms(3) show ?thesis
      by (auto simp: clean_step_def clean_stack_def dest: in_set_butlastD)
  qed
qed

lemma clean_stack_step:
  assumes "clean_stack rooted st" "slash \<notin> set el"
  shows "clean_stack rooted (clean_step rooted st el)"
proof (cases "el = ''..''")
  case True
  with assms show ?thesis by (rule clean_stack_up)
next
  case False
  then show ?thesis
    using assms clean_stack_plain [OF assms(1), of el] by (auto simp: clean_step_def proper_def)
qed

lemma clean_stack_fold:
  "clean_stack rooted st \<Longrightarrow> \<forall>el \<in> set els. slash \<notin> set el \<Longrightarrow> clean_stack rooted (foldl (clean_step rooted) st els)"
  by (induction els arbitrary: st) (auto intro: clean_stack_step)

lemma path_elems_clean: "clean_stack (HasPrefix p ''/'') (path_elems p)"
  unfolding path_elems_def by (intro clean_stack_fold) (auto dest: SplitChar_piece)

text \<open>Cleaning a clean stack again gives it back.\<close>

lemma fold_plain:
  "\<forall>el \<in> set els. proper el \<and> el \<noteq> ''..'' \<Longrightarrow> foldl (clean_step rooted) st els = st @ els"
  by (induction els arbitrary: st) (auto simp: clean_step_def proper_def)

lemma fold_dotdots: "foldl (clean_step False) (replicate j ''..'') (replicate k ''..'') = replicate (j + k) ''..''"
proof (induction k arbitrary: j)
  case (Suc k)
  have "clean_step False (replicate j ''..'') ''..'' = replicate (Suc j) ''..''"
    by (cases j) (auto simp: clean_step_def replicate_append_same)
  with Suc [of "Suc j"] show ?case by simp
qed simp

lemma clean_stack_fixed:
  assumes "clean_stack rooted st"
  shows "foldl (clean_step rooted) [] st = st"
proof -
  from assms obtain k rest where st: "st = replicate k ''..'' @ rest" "''..'' \<notin> set rest" "rooted \<longrightarrow> k = 0"
    and p: "\<forall>e \<in> set st. proper e" by (auto simp: clean_stack_def)
  then have rest: "\<forall>e \<in> set rest. proper e \<and> e \<noteq> ''..''" by auto
  show ?thesis
  proof (cases rooted)
    case True
    with st rest fold_plain [OF rest, of True "[]"] show ?thesis by simp
  next
    case False
    with st fold_plain [OF rest, of False "replicate k ''..''"] fold_dotdots [of 0 k] show ?thesis by simp
  qed
qed

lemma Join_slash:
  assumes "st \<noteq> []" "\<forall>e \<in> set st. proper e"
  shows "Join st ''/'' \<noteq> []" "\<not> HasPrefix (Join st ''/'') ''/''"
proof -
  obtain e es where st: "st = e # es" using assms(1) by (cases st) auto
  with assms(2) obtain c cs where e: "e = c # cs" "c \<noteq> slash" by (cases e) (auto simp: proper_def)
  then show "Join st ''/'' \<noteq> []" "\<not> HasPrefix (Join st ''/'') ''/''"
    unfolding st by (cases es; simp)+
qed

lemma path_elems_Clean:
  "path_elems (filepath_Clean p) = path_elems p" "HasPrefix (filepath_Clean p) ''/'' = HasPrefix p ''/''"
proof -
  define st where "st = path_elems p"
  define rooted where "rooted = HasPrefix p ''/''"
  have cl: "clean_stack rooted st" unfolding st_def rooted_def by (rule path_elems_clean)
  then have pr: "\<forall>e \<in> set st. proper e" by (simp add: clean_stack_def)
  have sp: "SplitChar (Join st ''/'') slash = (if st = [] then [[]] else st)"
    using pr SplitChar_Join [of st slash] by (auto simp: proper_def SplitChar_def)
  have fix1: "foldl (clean_step rooted) [] (SplitChar (Join st ''/'') slash) = st"
    unfolding sp using clean_stack_fixed [OF cl] by (auto simp: clean_step_def)
  have C: "filepath_Clean p = (let out = (if rooted then ''/'' else []) @ Join st ''/'' in if out = [] then ''.'' else out)"
    by (simp add: filepath_Clean_def st_def rooted_def)
  have lead: "SplitChar (slash # s) slash = [] # SplitChar s slash" for s by (simp add: SplitChar_def)
  have "path_elems (filepath_Clean p) = st \<and> HasPrefix (filepath_Clean p) ''/'' = rooted"
  proof (cases rooted)
    case True
    then show ?thesis using fix1 by (simp add: C path_elems_def lead clean_step_def)
  next
    case False
    show ?thesis
    proof (cases "st = []")
      case True
      with False show ?thesis
        by (simp add: C path_elems_def SplitChar_def clean_step_def)
    next
      case nonempty: False
      with False fix1 Join_slash [OF nonempty pr] show ?thesis by (simp add: C path_elems_def)
    qed
  qed
  then show "path_elems (filepath_Clean p) = path_elems p" "HasPrefix (filepath_Clean p) ''/'' = HasPrefix p ''/''"
    by (simp_all add: st_def rooted_def)
qed

text \<open>Joining a name without a double dot only adds elements below the directory.\<close>

lemma path_elems_Join:
  assumes "dir \<noteq> []" "\<not> Contains name ''..''"
  shows "path_elems (filepath_Join dir name) =
      path_elems dir @ filter (\<lambda>e. e \<noteq> [] \<and> e \<noteq> ''.'') (SplitChar name slash)"
    "HasPrefix (filepath_Join dir name) ''/'' = HasPrefix dir ''/''"
proof -
  have pre: "HasPrefix (dir @ ''/'' @ name) ''/'' = HasPrefix dir ''/''"
    using assms(1) by (cases dir) auto
  have up: "el \<noteq> ''..''" if "el \<in> set (SplitChar name slash)" for el
    using SplitChar_piece [OF that] assms(2) unfolding Contains_iff by blast
  have fold: "foldl (clean_step r) st els = st @ filter (\<lambda>e. e \<noteq> [] \<and> e \<noteq> ''.'') els"
    if "\<forall>el \<in> set els. el \<noteq> ''..''" for r st els
    using that by (induction els arbitrary: st) (auto simp: clean_step_def)
  have "SplitChar (dir @ ''/'' @ name) slash = SplitChar dir slash @ SplitChar name slash"
    using SplitChar_append [of dir slash name] by simp
  with pre fold up have "path_elems (dir @ ''/'' @ name) =
      path_elems dir @ filter (\<lambda>e. e \<noteq> [] \<and> e \<noteq> ''.'') (SplitChar name slash)"
    by (simp add: path_elems_def)
  with assms(1) pre show "path_elems (filepath_Join dir name) =
      path_elems dir @ filter (\<lambda>e. e \<noteq> [] \<and> e \<noteq> ''.'') (SplitChar name slash)"
    "HasPrefix (filepath_Join dir name) ''/'' = HasPrefix dir ''/''"
    by (simp_all add: filepath_Join_def path_elems_Clean)
qed

end
