(* ===== verification/Startup.thy ===== *)
theory Startup
  imports Session_Query Enums Catalog_Sql Md5 Filepath
begin

text \<open>
  \<^verbatim>\<open>auth.go\<close>, the startup half of \<^verbatim>\<open>server.go\<close>, \<^verbatim>\<open>setupEnumCatalog\<close> and
  \<^verbatim>\<open>createCatalogViews\<close>: how a fresh connection is authenticated, which file it opens, and the
  statements that set its catalog up.  A connection is given the startup messages and the
  messages the client sends; random bytes are parameters (\<open>entropy\<close>).
\<close>

section \<open>The server's configuration\<close>

record server =
  Addr :: gostr
  DataDir :: gostr
  DatabasePath :: gostr
  Username :: gostr
  Password :: gostr

text \<open>What \<^verbatim>\<open>crypto/rand\<close> returns for the salt and the two keys.\<close>

record entropy =
  rnd_salt :: "go_error + gostr"
  rnd_pid :: "go_error + gostr"
  rnd_key :: "go_error + gostr"

type_synonym params = "(gostr \<times> gostr) list"

definition getParameter :: "params \<Rightarrow> gostr \<Rightarrow> gostr" where
  "getParameter m k = (case map_of m k of None \<Rightarrow> [] | Some v \<Rightarrow> v)"

section \<open>Authentication\<close>

definition md5Password :: "gostr \<Rightarrow> gostr \<Rightarrow> gostr \<Rightarrow> gostr" where
  "md5Password username password salt =
     (let innerHex = hex_encode (md5_sum (password @ username))
      in ''md5'' @ hex_encode (md5_sum (innerHex @ salt)))"

definition auth_message :: "gostr \<Rightarrow> backend_msg" where
  "auth_message user =
     ErrorResponse ''FATAL'' ''28P01'' (''password authentication failed for user '' @ GoQuote user)"

text \<open>A write whose error is dropped, before the session ends with \<open>ErrAuthFailed\<close>.\<close>

definition refuse :: "backend_msg \<Rightarrow> ('s, 't, 'r) conn \<Rightarrow> ('s, 't, 'r) conn \<times> hres" where
  "refuse m c = (fst (writeMessages [m] c), HErr ErrAuthFailed)"

text \<open>\<^verbatim>\<open>authenticate\<close>; it returns the messages it has not read.\<close>

definition authenticate ::
  "server \<Rightarrow> entropy \<Rightarrow> params \<Rightarrow> frontend_msg list \<Rightarrow> ('s, 't, 'r) conn \<Rightarrow> (('s, 't, 'r) conn \<times> hres) \<times> frontend_msg list" where
  "authenticate srv rnd ps msgs c =
     (if Password srv = [] then ((c, HNil), msgs)
      else
        (let user = getParameter ps ''user'' in
         case rnd_salt rnd of
           Inl _ \<Rightarrow> (refuse (ErrorResponse ''FATAL'' ''XX000'' ''could not generate authentication salt'') c, msgs)
         | Inr salt \<Rightarrow>
             (case writeMessages [AuthenticationMD5Password salt] c of
                (c1, HNil) \<Rightarrow>
                  (case msgs of
                     [] \<Rightarrow> ((c1, HErr (ErrMsg ''receive password message: unexpected EOF'')), [])
                   | PasswordMessage pw # rest \<Rightarrow>
                       (let expected = md5Password user (Password srv) salt in
                        if user \<noteq> Username srv \<or> expected \<noteq> pw then (refuse (auth_message user) c1, rest)
                        else ((c1, HNil), rest))
                   | _ # rest \<Rightarrow>
                       (refuse (ErrorResponse ''FATAL'' ''08P01'' ''expected a password message'') c1, rest))
              | (c1, h) \<Rightarrow> ((c1, h), msgs))))"

section \<open>The database file\<close>

definition dbPath :: "server \<Rightarrow> gostr \<Rightarrow> gostr" where
  "dbPath srv name = (if DatabasePath srv \<noteq> [] then DatabasePath srv else filepath_Join (DataDir srv) name)"

section \<open>Setting up the catalog\<close>

text \<open>Statements run in order; the first error ends the run.\<close>

fun exec_stmts ::
  "('s, 't, 'r) driver \<Rightarrow> ((go_error \<Rightarrow> go_error) \<times> gostr) list \<Rightarrow> 's \<Rightarrow> go_error option \<times> 's" where
  "exec_stmts D [] s = (None, s)"
| "exec_stmts D ((wrap, stmt) # rest) s =
     (case d_exec D s stmt of
        (Inl e, s') \<Rightarrow> (Some (wrap e), s')
      | (Inr _, s') \<Rightarrow> exec_stmts D rest s')"

definition enumCatalogTables :: "gostr list" where
  "enumCatalogTables =
     [''CREATE TEMP TABLE __pg_enum_type (oid INTEGER, typname TEXT, typnamespace INTEGER)'',
      ''CREATE TEMP TABLE __pg_enum_label (enumtypid INTEGER, enumsortorder INTEGER, enumlabel TEXT, PRIMARY KEY (enumtypid, enumsortorder)) WITHOUT ROWID'',
      ''CREATE TEMP TABLE __pg_enum_col (table_name TEXT, column_name TEXT, typoid INTEGER, typname TEXT)'']"

definition schemaQuery :: gostr where
  "schemaQuery = ''SELECT name, sql FROM main.sqlite_master
		WHERE type = 'table' AND name NOT LIKE 'sqlite_%' AND sql IS NOT NULL''"

text \<open>\<^verbatim>\<open>rows.Scan\<close> into a string, as \<^verbatim>\<open>database/sql\<close> converts the driver's values.\<close>

definition rfc3339 :: "gotime \<Rightarrow> gostr" where
  "rfc3339 t =
     (let ds = trim_right (\<lambda>c. c = CHR ''0'') (pad_nat 9 (t_nsec t));
          mins = sgn (t_offset t) * (\<bar>t_offset t\<bar> div 60)
      in date_text t @ ''T'' @ pad_nat 2 (t_hour t) @ '':'' @ pad_nat 2 (t_min t) @ '':'' @ pad_nat 2 (t_sec t)
         @ (if ds = [] then [] else CHR ''.'' # ds)
         @ (if t_offset t = 0 then ''Z''
            else (if mins < 0 then ''-'' else ''+'') @ pad_nat 2 (nat (\<bar>mins\<bar> div 60)) @ '':'' @ pad_nat 2 (nat (\<bar>mins\<bar> mod 60))))"

fun scan_string :: "go_value \<Rightarrow> gostr option" where
  "scan_string VNil = None"
| "scan_string (VBool b) = Some (if b then ''true'' else ''false'')"
| "scan_string (VBytes b) = Some b"
| "scan_string (VTime t) = Some (rfc3339 t)"
| "scan_string (VInt n) = Some (FormatInt64 n)"
| "scan_string (VFloat f) = Some (FormatFloat_g (f_shortest f))"
| "scan_string (VString s) = Some s"
| "scan_string (VOther s) = Some s"

definition scan_table :: "go_error + go_value list \<Rightarrow> go_error + gostr \<times> gostr" where
  "scan_table r =
     (case r of
        Inl e \<Rightarrow> Inl e
      | Inr [a, b] \<Rightarrow>
          (case (scan_string a, scan_string b) of
             (Some n, Some q) \<Rightarrow> Inr (n, q)
           | _ \<Rightarrow> Inl (ErrMsg ''sql: Scan error: converting NULL to string is unsupported''))
      | Inr _ \<Rightarrow> Inl (ErrMsg ''sql: wrong number of destination arguments in Scan''))"

text \<open>The loop over the schema rows; the cursor is closed on every way out.\<close>

partial_function (option) read_tables ::
  "('s, 't, 'r) driver \<Rightarrow> 's \<Rightarrow> 'r \<Rightarrow> (gostr \<times> gostr) list \<Rightarrow> ((go_error + (gostr \<times> gostr) list) \<times> 's) option" where
  "read_tables D s r acc =
     (case d_next D s r of
        (RowDone, s') \<Rightarrow> Some (Inr acc, d_rows_close D s' r)
      | (RowErr e, s') \<Rightarrow> Some (Inl (ErrWrap ''read schema rows: '' e []), d_rows_close D s' r)
      | (RowData v, s') \<Rightarrow>
          (case scan_table v of
             Inl e \<Rightarrow> Some (Inl (ErrWrap ''scan schema row: '' e []), d_rows_close D s' r)
           | Inr t \<Rightarrow> read_tables D s' r (acc @ [t])))"

fun insert_stmt :: "enum_insert \<Rightarrow> gostr \<times> go_value list" where
  "insert_stmt (InsType tid tn) =
     (''INSERT INTO __pg_enum_type (oid, typname, typnamespace) VALUES (?, ?, 2200)'',
      [VInt (word_of_int tid), VString tn])"
| "insert_stmt (InsCol tbl col tid tn) =
     (''INSERT INTO __pg_enum_col (table_name, column_name, typoid, typname) VALUES (?, ?, ?, ?)'',
      [VString tbl, VString col, VInt (word_of_int tid), VString tn])"
| "insert_stmt (InsLabel tid i l) =
     (''INSERT INTO __pg_enum_label (enumtypid, enumsortorder, enumlabel) VALUES (?, ?, ?)'',
      [VInt (word_of_int tid), VInt (word_of_int i), VString l])"

fun insert_label :: "enum_insert \<Rightarrow> gostr" where
  "insert_label (InsType _ _) = ''insert enum type: ''"
| "insert_label (InsCol _ _ _ _) = ''insert enum col: ''"
| "insert_label (InsLabel _ _ _) = ''insert enum label: ''"

fun run_inserts :: "('s, 't, 'r) driver \<Rightarrow> enum_insert list \<Rightarrow> 's \<Rightarrow> go_error option \<times> 's" where
  "run_inserts D [] s = (None, s)"
| "run_inserts D (i # is) s =
     (case insert_stmt i of
        (stmt, args) \<Rightarrow>
          (case d_exec_args D s stmt args of
             (Inl e, s') \<Rightarrow> (Some (ErrWrap (insert_label i) e []), s')
           | (Inr _, s') \<Rightarrow> run_inserts D is s'))"

definition setupEnumCatalog :: "('s, 't, 'r) driver \<Rightarrow> 's \<Rightarrow> (go_error option \<times> 's) option" where
  "setupEnumCatalog D s =
     (case exec_stmts D (map (\<lambda>ddl. (\<lambda>e. ErrWrap ''enum temp table: '' e [], ddl)) enumCatalogTables) s of
        (Some e, s1) \<Rightarrow> Some (Some e, s1)
      | (None, s1) \<Rightarrow>
          (case d_query D s1 schemaQuery of
             (Inl e, s2) \<Rightarrow> Some (Some (ErrWrap ''read schema for enums: '' e []), s2)
           | (Inr r, s2) \<Rightarrow>
               (case read_tables D s2 r [] of
                  None \<Rightarrow> None
                | Some (Inl e, s3) \<Rightarrow> Some (Some e, s3)
                | Some (Inr tables, s3) \<Rightarrow> Some (run_inserts D (enum_catalog_inserts tables) s3))))"

definition createCatalogViews :: "('s, 't, 'r) driver \<Rightarrow> gostr \<Rightarrow> 's \<Rightarrow> (go_error option \<times> 's) option" where
  "createCatalogViews D dbName s =
     (case setupEnumCatalog D s of
        None \<Rightarrow> None
      | Some (Some e, s1) \<Rightarrow> Some (Some e, s1)
      | Some (None, s1) \<Rightarrow>
          Some (exec_stmts D
            (map (\<lambda>stmt. (\<lambda>e. ErrWrap ''catalog view: '' e (CHR 0x0A # stmt), stmt)) (catalog_statements dbName)) s1))"

section \<open>The startup message\<close>

text \<open>The statements run on the pinned connection, with the labels of their errors.\<close>

definition startup_stmts :: "(gostr \<times> gostr) list" where
  "startup_stmts =
     [(''attach pg_catalog: '', ''ATTACH ':memory:' AS pg_catalog''),
      (''create pg_namespace: '', ''CREATE VIRTUAL TABLE IF NOT EXISTS pg_catalog.pg_namespace USING pg_namespace_module (oid, nspname, nspowner, nspacl)''),
      (''create pg_description: '', ''CREATE VIRTUAL TABLE IF NOT EXISTS pg_catalog.pg_description USING pg_description_module (objoid, classoid, objsubid, description)''),
      (''create pg_settings: '', ''CREATE VIRTUAL TABLE IF NOT EXISTS pg_catalog.pg_settings USING pg_settings_module (name, setting, unit, category, short_desc, extra_desc, context, vartype, source, min_val, max_val, enumvals, boot_val, reset_val, sourcefile, sourceline, pending_restart)''),
      (''create pg_type: '', ''CREATE VIRTUAL TABLE IF NOT EXISTS pg_catalog.pg_type USING pg_type_module (oid, typname, typnamespace, typowner, typlen, typbyval, typtype, typcategory, typispreferred, typisdefined, typdelim, typrelid, typelem, typarray, typinput, typoutput, typreceive, typsend, typmodin, typmodout, typanalyze, typalign, typstorage, typnotnull, typbasetype, typtypmod, typndims, typcollation, typdefaultbin, typdefault, typacl)''),
      (''create pg_range: '', ''CREATE VIRTUAL TABLE IF NOT EXISTS pg_catalog.pg_range USING pg_range_module (rngtypid, rngsubtype, rngmultitypid, rngcollation, rngsubopc, rngcanonical, rngsubdiff)'')]"

text \<open>\<^verbatim>\<open>binary.BigEndian.Uint32\<close> of the random bytes, 1 without them.\<close>

definition randUint32 :: "go_error + gostr \<Rightarrow> 32 word" where
  "randUint32 r =
     (case r of
        Inl _ \<Rightarrow> 1
      | Inr b \<Rightarrow> word_of_nat (foldl (\<lambda>n c. 256 * n + code c) 0 b))"

definition greeting :: "entropy \<Rightarrow> params \<Rightarrow> backend_msg list" where
  "greeting rnd ps =
     [AuthenticationOk,
      ParameterStatus ''server_version'' ServerVersion,
      ParameterStatus ''server_encoding'' ''UTF8'',
      ParameterStatus ''client_encoding'' ''UTF8'',
      ParameterStatus ''DateStyle'' ''ISO, MDY'',
      ParameterStatus ''IntervalStyle'' ''postgres'',
      ParameterStatus ''TimeZone'' ''UTC'',
      ParameterStatus ''integer_datetimes'' ''on'',
      ParameterStatus ''standard_conforming_strings'' ''on'',
      ParameterStatus ''application_name'' (getParameter ps ''application_name''),
      BackendKeyData (randUint32 (rnd_pid rnd)) (randUint32 (rnd_key rnd)),
      ReadyForQuery TxIdle]"

text \<open>Opening the database and setting it up.\<close>

definition open_session ::
  "('s, 't, 'r) driver \<Rightarrow> server \<Rightarrow> entropy \<Rightarrow> params \<Rightarrow> gostr \<Rightarrow> ('s, 't, 'r) conn \<Rightarrow> (('s, 't, 'r) conn \<times> hres) option" where
  "open_session D srv rnd ps name c =
     (case d_open D (dbstate c) (dbPath srv name) of
        (Some e, s) \<Rightarrow> Some (c\<lparr>dbstate := s\<rparr>, HErr e)
      | (None, s) \<Rightarrow>
          (case d_pin D s of
             (Some e, s1) \<Rightarrow> Some (c\<lparr>dbstate := s1, db_open := True\<rparr>, HErr (ErrWrap ''pin connection: '' e []))
           | (None, s1) \<Rightarrow>
               (let c1 = c\<lparr>db_open := True, pinned := True\<rparr> in
                case exec_stmts D (map (\<lambda>(label, stmt). (\<lambda>e. ErrWrap label e [], stmt)) startup_stmts) s1 of
                  (Some e, s2) \<Rightarrow> Some (c1\<lparr>dbstate := s2\<rparr>, HErr e)
                | (None, s2) \<Rightarrow>
                    (case createCatalogViews D name s2 of
                       None \<Rightarrow> None
                     | Some (Some e, s3) \<Rightarrow>
                         Some (c1\<lparr>database := name, dbstate := s3\<rparr>, HErr (ErrWrap ''create catalog views: '' e []))
                     | Some (None, s3) \<Rightarrow>
                         Some (writeMessages (greeting rnd ps) (c1\<lparr>database := name, dbstate := s3\<rparr>))))))"

definition handleStartupMessage ::
  "('s, 't, 'r) driver \<Rightarrow> server \<Rightarrow> entropy \<Rightarrow> params \<Rightarrow> frontend_msg list \<Rightarrow> ('s, 't, 'r) conn \<Rightarrow>
     ((('s, 't, 'r) conn \<times> hres) \<times> frontend_msg list) option" where
  "handleStartupMessage D srv rnd ps msgs c =
     (case authenticate srv rnd ps msgs c of
        ((c1, HNil), rest) \<Rightarrow>
          (let name = getParameter ps ''database'' in
           if name = [] then Some (writeMessages [ErrorResponse [] [] ''database required''] c1, rest)
           else if Contains name ''..'' then Some (writeMessages [ErrorResponse [] [] ''invalid database name''] c1, rest)
           else map_option (\<lambda>r. (r, rest)) (open_session D srv rnd ps name c1))
      | r \<Rightarrow> Some r)"

section \<open>A whole connection\<close>

datatype startup_msg = StartupMessage params | SSLRequest | CancelRequest | OtherStartup

fun serveConnStartup ::
  "('s, 't, 'r) driver \<Rightarrow> server \<Rightarrow> entropy \<Rightarrow> startup_msg list \<Rightarrow> frontend_msg list \<Rightarrow> ('s, 't, 'r) conn \<Rightarrow>
     ((('s, 't, 'r) conn \<times> hres) \<times> frontend_msg list) option" where
  "serveConnStartup D srv rnd [] msgs c =
     Some ((c, HErr (ErrMsg ''receive startup message: unexpected EOF'')), msgs)"
| "serveConnStartup D srv rnd (StartupMessage ps # _) msgs c =
     map_option (\<lambda>((c', h), rest). ((c', wrap_hres ''startup message: '' h), rest))
       (handleStartupMessage D srv rnd ps msgs c)"
| "serveConnStartup D srv rnd (SSLRequest # sus) msgs c =
     map_option (\<lambda>((c', h), rest). ((c', wrap_hres ''ssl request message: '' h), rest))
       (case writeMessages [RawBytes ''N''] c of
          (c1, HNil) \<Rightarrow> serveConnStartup D srv rnd sus msgs c1
        | r \<Rightarrow> Some (r, msgs))"
| "serveConnStartup D srv rnd (CancelRequest # _) msgs c = Some ((c, HNil), msgs)"
| "serveConnStartup D srv rnd (OtherStartup # _) msgs c =
     Some ((c, HErr (ErrMsg ''unexpected startup message'')), msgs)"

definition serveConn ::
  "('s, 't, 'r) driver \<Rightarrow> server \<Rightarrow> entropy \<Rightarrow> startup_msg list \<Rightarrow> frontend_msg list \<Rightarrow> ('s, 't, 'r) conn \<Rightarrow>
     (('s, 't, 'r) conn \<times> serve_end) option" where
  "serveConn D srv rnd sus msgs c =
     (case serveConnStartup D srv rnd sus msgs c of
        None \<Rightarrow> None
      | Some ((c1, HNil), rest) \<Rightarrow> serve_loop D rest c1
      | Some ((c1, HErr e), rest) \<Rightarrow> Some (c1, Closed (ErrWrap ''startup: '' e []))
      | Some ((c1, HPanic), rest) \<Rightarrow> Some (c1, Panicked))"

end
