(* ===== verification/Startup_Security.thy ===== *)
theory Startup_Security
  imports Startup
begin

text \<open>
  What startup promises: without the password nothing of the client reaches the database, a
  session opens no file outside the data directory, and a session that startup completed is
  one the message loop keeps alive.
\<close>

section \<open>Without a database connection\<close>

text \<open>A connection that never reached the database: nothing pinned, prepared or bound.\<close>

definition detached :: "('s, 't, 'r) conn \<Rightarrow> bool" where
  "detached c \<longleftrightarrow> \<not> pinned c \<and> \<not> db_open c \<and> stmts c = [] \<and> portals c = []"

lemma detached_newConn [simp]: "detached (newConn s w)"
  by (simp add: detached_def newConn_def)

definition same_db :: "('s, 't, 'r) conn \<Rightarrow> ('s, 't, 'r) conn \<Rightarrow> bool" where
  "same_db c c' \<longleftrightarrow> dbstate c' = dbstate c \<and> detached c'"

lemma writeMessages_db:
  "writeMessages ms c = (c', h) \<Longrightarrow> detached c \<Longrightarrow> same_db c c'"
  by (auto simp: writeMessages_def same_db_def detached_def split: if_splits)

lemma failExtended_db: "failExtended e c = (c', h) \<Longrightarrow> detached c \<Longrightarrow> same_db c c'"
  unfolding failExtended_def writeError_def
  by (drule writeMessages_db) (auto simp: detached_def same_db_def fail_tx_def)

lemma handle_detached:
  assumes "handle D m c = Some (c', h)" "detached c"
  shows "same_db c c'"
proof -
  have u: "\<not> pinned c" "stmts c = []" "portals c = []" using assms(2) by (auto simp: detached_def)
  have self: "same_db c c" using assms(2) by (simp add: same_db_def)
  have sync: "same_db c c1" if "writeMessages ms (c\<lparr>skipUntilSync := False\<rparr>) = (c1, h')" for ms c1 h'
    using writeMessages_db [OF that] assms(2) by (simp add: same_db_def detached_def)
  show ?thesis
  proof (cases m)
    case (Query q)
    with assms(1) u self writeMessages_db [OF _ assms(2)] show ?thesis
      by (auto simp: handle_def labelled_def handleQueryMessage_def execSimpleQuery_def streamSimpleQuery_def
          writeErrorReady_def Let_def split: if_splits prod.splits)
  qed (use assms(1) u self sync writeMessages_db [OF _ assms(2)] failExtended_db [OF _ assms(2)] in
      \<open>auto simp: handle_def labelled_def handleParseMessage_def handleBindMessage_def handleDescribeMessage_def
        handleExecuteMessage_def handleCloseMessage_def Let_def split: if_splits prod.splits\<close>)
qed

lemma loop_detached:
  "serve_loop D ms c = Some (c', e) \<Longrightarrow> detached c \<Longrightarrow> same_db c c'"
proof (induction ms arbitrary: c)
  case (Cons m ms)
  show ?case
  proof (cases "discarded m c \<or> m = Terminate")
    case True
    with Cons show ?thesis by (auto simp: same_db_def split: if_splits)
  next
    case False
    with Cons.prems obtain c1 h where h: "handle D m c = Some (c1, h)" by (cases "handle D m c") auto
    note s = handle_detached [OF h Cons.prems(2)]
    show ?thesis
    proof (cases h)
      case HNil
      with Cons.prems False h have "serve_loop D ms c1 = Some (c', e)" by simp
      from Cons.IH [OF this] s show ?thesis by (simp add: same_db_def)
    qed (use Cons.prems False h s in auto)
  qed
qed (simp add: same_db_def)

section \<open>Authentication\<close>

text \<open>The client answered the challenge with the configured user and password.\<close>

definition authenticates :: "server \<Rightarrow> entropy \<Rightarrow> params \<Rightarrow> frontend_msg list \<Rightarrow> bool" where
  "authenticates srv rnd ps msgs \<longleftrightarrow>
     (\<exists>salt rest. rnd_salt rnd = Inr salt \<and> getParameter ps ''user'' = Username srv \<and>
        msgs = PasswordMessage (md5Password (Username srv) (Password srv) salt) # rest)"

lemma refuse_db: "detached c \<Longrightarrow> same_db c (fst (writeMessages ms c))"
  using writeMessages_db [of ms c] by (cases "writeMessages ms c") auto

lemma authenticate_cases:
  assumes "authenticate srv rnd ps msgs c = ((c', h), rest)" "Password srv \<noteq> []" "detached c"
  shows "same_db c c' \<and> (h = HNil \<longrightarrow> authenticates srv rnd ps msgs)"
proof (cases "rnd_salt rnd")
  case (Inl e)
  with assms refuse_db [OF assms(3)] show ?thesis by (auto simp: authenticate_def refuse_def Let_def)
next
  case (Inr salt)
  obtain c1 h1 where w: "writeMessages [AuthenticationMD5Password salt] c = (c1, h1)" by fastforce
  from writeMessages_db [OF w assms(3)] have s: "same_db c c1" .
  then have d: "detached c1" by (simp add: same_db_def)
  have r: "same_db c (fst (writeMessages ms c1))" for ms
    using refuse_db [OF d, of ms] s by (simp add: same_db_def)
  show ?thesis
  proof (cases "h1 = HNil \<and> (\<exists>pw ms. msgs = PasswordMessage pw # ms)")
    case True
    with assms(1,2) Inr w s r show ?thesis
      by (auto simp: authenticate_def authenticates_def refuse_def Let_def split: if_splits)
  next
    case False
    with assms(1,2) Inr w s r show ?thesis
      by (auto simp: authenticate_def refuse_def Let_def split: hres.splits list.splits frontend_msg.splits)
  qed
qed

lemma open_session_reach:
  assumes "handleStartupMessage D srv rnd ps msgs c = Some ((c', h), rest)" "detached c" "Password srv \<noteq> []"
  shows "same_db c c' \<or> authenticates srv rnd ps msgs"
proof -
  obtain c1 h1 r1 where a: "authenticate srv rnd ps msgs c = ((c1, h1), r1)" by (metis surj_pair)
  note ac = authenticate_cases [OF a assms(3,2)]
  show ?thesis
  proof (cases "h1 = HNil")
    case True
    with ac show ?thesis by simp
  next
    case False
    with a assms(1) have "c' = c1" by (cases h1) (auto simp: handleStartupMessage_def)
    with ac show ?thesis by simp
  qed
qed

lemma startup_reach:
  assumes "serveConnStartup D srv rnd sus msgs c = Some ((c', h), rest)" "detached c" "Password srv \<noteq> []"
  shows "same_db c c' \<or> (\<exists>ps. StartupMessage ps \<in> set sus \<and> authenticates srv rnd ps msgs)"
  using assms(1,2)
proof (induction sus arbitrary: c h)
  case (Cons su sus)
  show ?case
  proof (cases su)
    case (StartupMessage ps)
    with Cons.prems obtain h1 where "handleStartupMessage D srv rnd ps msgs c = Some ((c', h1), rest)" by auto
    from open_session_reach [OF this Cons.prems(2) assms(3)] StartupMessage show ?thesis by auto
  next
    case SSLRequest
    obtain c1 h1 where w: "writeMessages [RawBytes ''N''] c = (c1, h1)" by fastforce
    note s = writeMessages_db [OF w Cons.prems(2)]
    show ?thesis
    proof (cases h1)
      case HNil
      with Cons.prems(1) SSLRequest w obtain h2 where
        "serveConnStartup D srv rnd sus msgs c1 = Some ((c', h2), rest)" by auto
      from Cons.IH [OF this] s show ?thesis by (auto simp: same_db_def)
    qed (use Cons.prems(1) SSLRequest w s in auto)
  qed (use Cons.prems in \<open>auto simp: same_db_def\<close>)
qed (simp add: same_db_def)

lemma served_authenticated:
  assumes "Password srv \<noteq> []" "serveConn D srv rnd sus msgs (newConn s w) = Some (c', e)"
    and "dbstate c' \<noteq> s \<or> db_open c' \<or> pinned c'"
  shows "\<exists>ps salt rest. StartupMessage ps \<in> set sus \<and> rnd_salt rnd = Inr salt \<and>
    getParameter ps ''user'' = Username srv \<and>
    msgs = PasswordMessage (md5Password (Username srv) (Password srv) salt) # rest"
proof -
  obtain c1 h rest where su: "serveConnStartup D srv rnd sus msgs (newConn s w) = Some ((c1, h), rest)"
    using assms(2) by (cases "serveConnStartup D srv rnd sus msgs (newConn s w)") (auto simp: serveConn_def)
  have "same_db (newConn s w) c1 \<Longrightarrow> same_db c1 c'"
    using assms(2) su by (cases h) (auto simp: serveConn_def same_db_def dest: loop_detached)
  then have "\<not> same_db (newConn s w) c1"
    using assms(3) by (auto simp: same_db_def newConn_def detached_def)
  with startup_reach [OF su _ assms(1)] show ?thesis by (auto simp: authenticates_def)
qed

text \<open>C2: no password, no database: on a server with a password, if anything at all happened to
  the database in a connection (the driver state changed, a handle was opened or a connection
  pinned), then the client had sent a startup packet for the configured user and answered the
  MD5 challenge with the digest of the configured password and the salt of this connection,
  whatever else it sent, in the startup phase (cancel requests, SSL requests) or after it.\<close>

theorem database_needs_password:
  assumes "Password srv \<noteq> []" "serveConn D srv rnd sus msgs (newConn s w) = Some (c', e)"
    and "dbstate c' \<noteq> s \<or> db_open c' \<or> pinned c'"
  shows "\<exists>ps salt rest. StartupMessage ps \<in> set sus \<and> rnd_salt rnd = Inr salt \<and>
    getParameter ps ''user'' = Username srv \<and>
    msgs = PasswordMessage (md5Password (Username srv) (Password srv) salt) # rest"
  by (rule served_authenticated [OF assms])

text \<open>C37: a client is let in exactly when it names the configured user and answers the challenge
  with the digest of the configured password and the salt it was sent; everybody else is told
  FATAL and the session ends, or had hung up.\<close>

theorem login_decision:
  assumes "Password srv \<noteq> []" "wfail c = None" "authenticate srv rnd ps msgs c = ((c', h), rest)"
  shows "(h = HNil \<longleftrightarrow> (\<exists>salt. rnd_salt rnd = Inr salt \<and> getParameter ps ''user'' = Username srv \<and>
      msgs = PasswordMessage (md5Password (Username srv) (Password srv) salt) # rest)) \<and>
    (h \<noteq> HNil \<and> (msgs \<noteq> [] \<or> (\<exists>e. rnd_salt rnd = Inl e)) \<longrightarrow>
      h = HErr ErrAuthFailed \<and> (\<exists>state txt. last (sent c') = [ErrorResponse ''FATAL'' state txt]))"
proof (cases "rnd_salt rnd")
  case (Inl e)
  with assms show ?thesis by (auto simp: authenticate_def refuse_def writeMessages_ok Let_def)
next
  case (Inr salt)
  show ?thesis
  proof (cases msgs)
    case Nil
    with assms Inr show ?thesis by (auto simp: authenticate_def writeMessages_ok Let_def)
  next
    case (Cons m ms)
    with assms Inr show ?thesis
      by (cases m) (auto simp: authenticate_def refuse_def auth_message_def writeMessages_ok Let_def split: if_splits)
  qed
qed

section \<open>The file that is opened\<close>



text \<open>Apart from opening the file, nothing a connection does depends on how files are opened.\<close>

lemma stream_rows_some:
  "stream_rows D s r oids buf n = Some y \<Longrightarrow> stream_rows (D\<lparr>d_open := f\<rparr>) s r oids buf n = Some y"
proof (rule stream_rows.raw_induct [where P = "\<lambda>D s r oids buf n y. stream_rows (D\<lparr>d_open := f\<rparr>) s r oids buf n = Some y"], goal_cases)
  case (1 rec D s r oids buf n y)
  then show ?case
    by (subst stream_rows.simps) (auto split: prod.splits row_step.splits sum.splits)
qed

lemma stream_rows_open [simp]: "stream_rows (D\<lparr>d_open := f\<rparr>) s r oids buf n = stream_rows D s r oids buf n"
proof (cases "stream_rows (D\<lparr>d_open := f\<rparr>) s r oids buf n")
  case None
  then show ?thesis using stream_rows_some [of D s r oids buf n _ f] by (cases "stream_rows D s r oids buf n") auto
next
  case (Some y)
  have "D\<lparr>d_open := f\<rparr>\<lparr>d_open := d_open D\<rparr> = D" by (cases D) simp
  with stream_rows_some [OF Some, of "d_open D"] Some show ?thesis by simp
qed

lemma read_tables_some:
  "read_tables D s r acc = Some y \<Longrightarrow> read_tables (D\<lparr>d_open := f\<rparr>) s r acc = Some y"
proof (rule read_tables.raw_induct [where P = "\<lambda>D s r acc y. read_tables (D\<lparr>d_open := f\<rparr>) s r acc = Some y"], goal_cases)
  case (1 rec D s r acc y)
  show ?case using 1(3)
    by (subst read_tables.simps) (auto split: prod.splits row_step.splits sum.splits intro: 1(2))
qed

lemma read_tables_open [simp]: "read_tables (D\<lparr>d_open := f\<rparr>) s r acc = read_tables D s r acc"
proof (cases "read_tables (D\<lparr>d_open := f\<rparr>) s r acc")
  case None
  then show ?thesis using read_tables_some [of D s r acc _ f] by (cases "read_tables D s r acc") auto
next
  case (Some y)
  have "D\<lparr>d_open := f\<rparr>\<lparr>d_open := d_open D\<rparr> = D" by (cases D) simp
  with read_tables_some [OF Some, of "d_open D"] Some show ?thesis by simp
qed

lemmas in_branches = option.case_cong sum.case_cong prod.case_cong stream_end.case_cong if_cong

lemma portal_close_open [simp]: "portal_close (D\<lparr>d_open := f\<rparr>) p s = portal_close D p s"
  by (simp add: portal_close_def cong: in_branches)

lemma portal_execute_open [simp]: "portal_execute (D\<lparr>d_open := f\<rparr>) p s = portal_execute D p s"
  by (simp add: portal_execute_def Let_def cong: in_branches)

lemma handle_open [simp]: "handle (D\<lparr>d_open := f\<rparr>) m c = handle D m c"
  by (cases m)
    (simp_all add: handle_def handleQueryMessage_def execSimpleQuery_def streamSimpleQuery_def rollbackFailed_def closing_def
      handleParseMessage_def handleBindMessage_def handleDescribeMessage_def describeStatement_def
      handleExecuteMessage_def handleCloseMessage_def Let_def cong: in_branches)

lemma serve_loop_open [simp]: "serve_loop (D\<lparr>d_open := f\<rparr>) ms c = serve_loop D ms c"
  by (induction ms arbitrary: c) (simp_all split: option.split prod.split hres.split)

lemma exec_stmts_open [simp]: "exec_stmts (D\<lparr>d_open := f\<rparr>) ss s = exec_stmts D ss s"
  by (induction ss arbitrary: s) (auto split: prod.split sum.split)

lemma run_inserts_open [simp]: "run_inserts (D\<lparr>d_open := f\<rparr>) xs s = run_inserts D xs s"
  by (induction xs arbitrary: s) (auto split: prod.split sum.split)

lemma createCatalogViews_open [simp]: "createCatalogViews (D\<lparr>d_open := f\<rparr>) n s = createCatalogViews D n s"
  by (auto simp: createCatalogViews_def setupEnumCatalog_def split: option.split prod.split sum.split)




section \<open>A started session\<close>

lemma written_open [simp]: "db_open (written ms c) = db_open c"
  by (simp add: written_def)

lemma writeMessages_HNil: "writeMessages ms c = (c', HNil) \<longleftrightarrow> wfail c \<noteq> Some 0 \<and> c' = written ms c"
  by (auto simp: writeMessages_def written_def)

text \<open>Before the database is opened the session is that of \<open>newConn\<close> with some messages sent.\<close>

definition waiting :: "('s, 't, 'r) conn \<Rightarrow> bool" where
  "waiting c \<longleftrightarrow> detached c \<and> txStatus c = TxIdle \<and> \<not> skipUntilSync c"

lemma waiting_written: "waiting c \<Longrightarrow> waiting (written ms c)"
  by (simp add: waiting_def detached_def)

lemma authenticate_HNil:
  assumes "authenticate srv rnd ps msgs c = ((c', HNil), rest)" "waiting c"
  shows "waiting c' \<and> (wfail c = None \<longrightarrow> wfail c' = None)"
proof (cases "Password srv = []")
  case True
  with assms show ?thesis by (simp add: authenticate_def)
next
  case False
  with assms waiting_written [OF assms(2)] show ?thesis
    by (auto simp: authenticate_def refuse_def writeMessages_HNil Let_def
        split: if_splits sum.splits list.splits frontend_msg.splits prod.splits hres.splits)
qed

text \<open>A session that startup completed: idle, nothing prepared, greeted, its database named.\<close>

definition started :: "entropy \<Rightarrow> ('s, 't, 'r) conn \<Rightarrow> bool" where
  "started rnd c \<longleftrightarrow> pinned c \<and> db_open c \<and> txStatus c = TxIdle \<and> \<not> skipUntilSync c \<and> stmts c = [] \<and> portals c = [] \<and>
     (\<exists>ps. last (sent c) = greeting rnd ps \<and> database c = getParameter ps ''database'') \<and>
     database c \<noteq> [] \<and> \<not> Contains (database c) ''..''"

lemma open_session_HNil:
  assumes "open_session D srv rnd ps name c = Some (c', HNil)" "waiting c"
    "name = getParameter ps ''database''" "name \<noteq> []" "\<not> Contains name ''..''"
  shows "started rnd c' \<and> (wfail c = None \<longrightarrow> wfail c' = None)"
  using assms
  by (auto simp: open_session_def started_def waiting_def detached_def writeMessages_HNil Let_def
      split: prod.splits option.splits)

lemma handleStartup_HNil:
  assumes "handleStartupMessage D srv rnd ps msgs c = Some ((c', HNil), rest)" "waiting c"
  shows "(started rnd c' \<or> waiting c') \<and> (wfail c = None \<longrightarrow> wfail c' = None)"
proof -
  obtain c1 h1 r1 where a: "authenticate srv rnd ps msgs c = ((c1, h1), r1)" by (metis surj_pair)
  with assms(1) have h1: "h1 = HNil" by (cases h1) (auto simp: handleStartupMessage_def)
  note ac = authenticate_HNil [OF a [unfolded h1] assms(2)]
  let ?name = "getParameter ps ''database''"
  show ?thesis
  proof (cases "?name = [] \<or> Contains ?name ''..''")
    case True
    with assms(1) a h1 ac show ?thesis
      by (auto simp: handleStartupMessage_def writeMessages_HNil Let_def intro: waiting_written split: if_splits)
  next
    case False
    with assms(1) a h1 have "open_session D srv rnd ps ?name c1 = Some (c', HNil)"
      by (auto simp: handleStartupMessage_def Let_def)
    from open_session_HNil [OF this] ac False show ?thesis by auto
  qed
qed

lemma wrap_HNil: "wrap_hres pre h = HNil \<longleftrightarrow> h = HNil"
  by (cases h) (auto simp: wrap_hres_def)

lemma startup_HNil:
  assumes "serveConnStartup D srv rnd sus msgs c = Some ((c', HNil), rest)" "waiting c"
  shows "(started rnd c' \<or> waiting c') \<and> (wfail c = None \<longrightarrow> wfail c' = None)"
  using assms
proof (induction sus arbitrary: c)
  case (Cons su sus)
  show ?case
  proof (cases su)
    case (StartupMessage ps)
    with Cons.prems(1) have "handleStartupMessage D srv rnd ps msgs c = Some ((c', HNil), rest)"
      by (auto simp: wrap_HNil)
    from handleStartup_HNil [OF this Cons.prems(2)] show ?thesis .
  next
    case SSLRequest
    obtain c1 h1 where w: "writeMessages [RawBytes ''N''] c = (c1, h1)" by fastforce
    with Cons.prems(1) SSLRequest have h1: "h1 = HNil"
      by (cases h1) (auto simp: wrap_HNil)
    with w have c1: "c1 = written [RawBytes ''N''] c" by (simp add: writeMessages_HNil)
    from Cons.prems(1) SSLRequest w h1 have "serveConnStartup D srv rnd sus msgs c1 = Some ((c', HNil), rest)"
      by (auto simp: wrap_HNil)
    from Cons.IH [OF this] c1 waiting_written [OF Cons.prems(2)] show ?thesis by auto
  qed (use Cons.prems in auto)
qed simp

text \<open>what a completed startup has set up: when startup reports success and a database is
  pinned, the session is idle with nothing prepared, the last write was the whole greeting
  (AuthenticationOk, the parameters, the keys, ReadyForQuery), and the database has the name
  the client asked for, which is not empty and has no double dot.\<close>

theorem startup_ready:
  assumes "serveConnStartup D srv rnd sus msgs (newConn s w) = Some ((c', HNil), rest)" "pinned c'"
  shows "db_open c' \<and> txStatus c' = TxIdle \<and> \<not> skipUntilSync c' \<and> stmts c' = [] \<and> portals c' = [] \<and>
    (\<exists>ps. last (sent c') = greeting rnd ps \<and> database c' = getParameter ps ''database'') \<and>
    database c' \<noteq> [] \<and> \<not> Contains (database c') ''..''"
  using startup_HNil [OF assms(1)] assms(2)
  by (auto simp: waiting_def detached_def newConn_def started_def)

text \<open>C6: A connection is served to its end: on a database whose result sets all end and over a
  socket that works, once startup has pinned a database, a client that sends messages of the
  protocol, none of them preparing a statement with more placeholders than Describe can
  allocate arguments for (\<open>sized_msg\<close>), gets every Sync answered until it hangs up, and then the
  connection ends; no such message, no error and no statement text ends it before.\<close>

theorem connection_served:
  assumes "finite_results D" "serveConnStartup D srv rnd sus msgs (newConn s None) = Some ((c1, HNil), rest)"
    and "pinned c1" "\<forall>m \<in> set rest. known_msg m \<and> sized_msg (database c1) m"
  shows "\<exists>c'. serveConn D srv rnd sus msgs (newConn s None) =
      Some (c', Closed (ErrMsg ''receive message: unexpected EOF'')) \<and>
    pinned c' \<and> readies c1 + count_sync rest \<le> readies c' \<and> readies c' \<le> readies c1 + count_wants rest"
proof -
  have w: "waiting (newConn s None)" by (simp add: waiting_def) (simp add: newConn_def)
  have "safe c1" "wfail c1 = None"
    using startup_HNil [OF assms(2) w] assms(3) by (auto simp: newConn_def started_def waiting_def detached_def safe_def)
  with loop_returns [OF assms(1), of rest c1] loop_stays_up [of D rest c1] assms(2,4) show ?thesis
    by (fastforce simp: serveConn_def safe_def)
qed

text \<open>C38: a cancel request takes the server down: it ends startup without a database connection
  and without an error, so the connection enters the message loop, where the first query
  (of any text that does not rewrite to nothing) dereferences the missing connection and
  panics, with or without a password configured; the same holds for any session that startup
  left without one.\<close>

theorem query_without_database_panics:
  fixes D :: "('s, 't, 'r) driver"
  assumes "TrimSpace (conn_rewrite [] q) \<noteq> []"
  shows "serveConn D srv rnd (CancelRequest # sus) (Query q # ms) (newConn s w) = Some (newConn s w, Panicked) \<and>
    (\<forall>c. detached c \<and> database c = [] \<and> txStatus c = TxIdle \<and> \<not> skipUntilSync c \<longrightarrow>
      serve_loop D (Query q # ms) c = Some (c, Panicked))"
proof -
  have loop: "serve_loop D (Query q # ms) c = Some (c, Panicked)"
    if "\<not> pinned c" "database c = []" "txStatus c = TxIdle" "\<not> skipUntilSync c" for c :: "('s, 't, 'r) conn"
    using that assms
    by (simp add: discarded_def handle_def handleQueryMessage_def execSimpleQuery_def streamSimpleQuery_def
        labelled_def wrap_hres_def Let_def)
  show ?thesis
    using loop [of "newConn s w"] loop by (simp add: serveConn_def detached_def newConn_def del: serve_loop.simps)
qed

section \<open>Concrete connections\<close>

text \<open>A driver that accepts everything and has no rows; one whose files cannot be pinned.\<close>

definition still :: "(nat, unit, unit) driver" where
  "still =
     \<lparr>d_exec = (\<lambda>s q. (Inr 0, s)), d_query = (\<lambda>s q. (Inr (), s)), d_prepare = (\<lambda>s q. (Inr (), s)),
      d_stmt_exec = (\<lambda>s t a. (Inr 0, s)), d_stmt_query = (\<lambda>s t a. (Inr (), s)), d_stmt_close = (\<lambda>s t. s),
      d_columns = (\<lambda>s r. Inr []), d_next = (\<lambda>s r. (RowDone, s)), d_rows_close = (\<lambda>s r. s),
      d_exec_args = (\<lambda>s q a. (Inr 0, s)),
      d_open = (\<lambda>s p. (None, Suc s)), d_pin = (\<lambda>s. (None, s)), d_unpin = (\<lambda>s. (None, s)), d_shut = (\<lambda>s. (None, s))\<rparr>"

definition unpinnable :: "(nat, unit, unit) driver" where
  "unpinnable = still\<lparr>d_pin := (\<lambda>s. (Some (ErrMsg ''no such directory''), s))\<rparr>"

definition demo_server :: server where
  "demo_server =
     \<lparr>Addr = '':5432'', DataDir = ''/data'', DatabasePath = [], Username = ''postgres'', Password = ''pw''\<rparr>"

definition demo_entropy :: entropy where
  "demo_entropy = \<lparr>rnd_salt = Inr ''abcd'', rnd_pid = Inr ''abcd'', rnd_key = Inr ''abcd''\<rparr>"

definition demo_params :: params where
  "demo_params = [(''user'', ''postgres''), (''database'', ''app/x.db'')]"

definition demo_answer :: frontend_msg where
  "demo_answer = PasswordMessage (md5Password ''postgres'' ''pw'' ''abcd'')"

lemma demo_login:
  "getParameter demo_params ''user'' = ''postgres''" "getParameter demo_params ''database'' = ''app/x.db''"
  "\<not> Contains ''app/x.db'' ''..''" "Password demo_server = ''pw''" "Username demo_server = ''postgres''"
  "DataDir demo_server = ''/data''" "DatabasePath demo_server = []" "rnd_salt demo_entropy = Inr ''abcd''"
  by (simp_all add: demo_params_def getParameter_def demo_server_def demo_entropy_def)

lemma demo_authenticate:
  "wfail c = None \<Longrightarrow> authenticate demo_server demo_entropy demo_params (demo_answer # rest) c =
     ((written [AuthenticationMD5Password ''abcd''] c, HNil), rest)"
  by (simp add: authenticate_def demo_answer_def demo_login writeMessages_ok)

lemma unpinnable_startup:
  "handleStartupMessage unpinnable demo_server demo_entropy demo_params [demo_answer] (newConn 0 None) =
     Some (((written [AuthenticationMD5Password ''abcd''] (newConn 0 None))\<lparr>dbstate := 1, db_open := True\<rparr>,
       HErr (ErrWrap ''pin connection: '' (ErrMsg ''no such directory'') [])), [])"
proof -
  have "authenticate demo_server demo_entropy demo_params [demo_answer] (newConn 0 None :: (nat, unit, unit) conn) =
     ((written [AuthenticationMD5Password ''abcd''] (newConn 0 None), HNil), [])"
    by (rule demo_authenticate) (simp add: newConn_def)
  then show ?thesis
    by (simp add: handleStartupMessage_def demo_login open_session_def unpinnable_def still_def)
       (simp add: newConn_def)
qed

lemma exec_still: "exec_stmts still xs s = (None, s)"
proof (induction xs arbitrary: s)
  case (Cons x xs)
  then show ?case by (cases x) (simp add: still_def)
qed simp

lemma insert_still: "run_inserts still is s = (None, s)"
proof (induction "is" arbitrary: s)
  case (Cons i "is")
  then show ?case by (simp add: still_def split: prod.splits)
qed simp

lemma still_startup:
  "serveConnStartup still demo_server demo_entropy [SSLRequest, StartupMessage demo_params] (demo_answer # rest) (newConn 0 None) =
     Some ((written (greeting demo_entropy demo_params)
       ((written [AuthenticationMD5Password ''abcd''] (written [RawBytes ''N''] (newConn 0 None)))
          \<lparr>db_open := True, pinned := True, database := ''app/x.db'', dbstate := 1\<rparr>), HNil), rest)"
proof -
  let ?c = "written [RawBytes ''N''] (newConn 0 None) :: (nat, unit, unit) conn"
  have w: "wfail (newConn 0 None :: (nat, unit, unit) conn) = None" by (simp add: newConn_def)
  have a: "authenticate demo_server demo_entropy demo_params (demo_answer # rest) ?c =
     ((written [AuthenticationMD5Password ''abcd''] ?c, HNil), rest)"
    using w by (intro demo_authenticate) simp
  have f: "d_open still s p = (None, Suc s)" "d_pin still s = (None, s)" "d_query still s q = (Inr (), s)"
    "d_next still s r = (RowDone, s)" "d_rows_close still s r = s" for s p q r
    by (simp_all add: still_def)
  have "createCatalogViews still db s = Some (None, s)" for db s
    by (simp add: createCatalogViews_def setupEnumCatalog_def exec_still insert_still f read_tables.simps)
  then have "open_session still demo_server demo_entropy demo_params ''app/x.db'' (written [AuthenticationMD5Password ''abcd''] ?c) =
     Some (written (greeting demo_entropy demo_params) ((written [AuthenticationMD5Password ''abcd''] ?c)
          \<lparr>db_open := True, pinned := True, database := ''app/x.db'', dbstate := 1\<rparr>), HNil)"
    using w by (simp add: open_session_def f exec_still writeMessages_ok) (simp add: newConn_def)
  with a w show ?thesis
    by (simp add: handleStartupMessage_def demo_login writeMessages_ok wrap_hres_def)
qed

lemma finite_still: "finite_results still"
  unfolding finite_results_def by (auto simp: still_def intro!: ends_done)

theorem database_needs_password_witness:
  "\<exists>ps salt rest. StartupMessage ps \<in> set [StartupMessage demo_params] \<and> rnd_salt demo_entropy = Inr salt \<and>
    getParameter ps ''user'' = ''postgres'' \<and> [demo_answer] = PasswordMessage (md5Password ''postgres'' ''pw'' salt) # rest"
proof -
  have "serveConn unpinnable demo_server demo_entropy [StartupMessage demo_params] [demo_answer] (newConn 0 None) =
     Some ((written [AuthenticationMD5Password ''abcd''] (newConn 0 None))\<lparr>dbstate := 1, db_open := True\<rparr>,
       Closed (ErrWrap ''startup: '' (ErrWrap ''startup message: '' (ErrWrap ''pin connection: '' (ErrMsg ''no such directory'') []) []) []))"
    by (simp add: serveConn_def unpinnable_startup wrap_hres_def)
  from database_needs_password [OF _ this] show ?thesis by (simp add: demo_login)
qed

theorem login_decision_witness:
  "\<exists>salt. rnd_salt demo_entropy = Inr salt \<and> getParameter demo_params ''user'' = Username demo_server \<and>
     [demo_answer] = PasswordMessage (md5Password (Username demo_server) (Password demo_server) salt) # []"
proof -
  have "authenticate demo_server demo_entropy demo_params [demo_answer] (newConn 0 None :: (nat, unit, unit) conn) =
     ((written [AuthenticationMD5Password ''abcd''] (newConn 0 None), HNil), [])"
    by (rule demo_authenticate) (simp add: newConn_def)
  from login_decision [OF _ _ this] show ?thesis by (simp add: demo_login) (simp add: newConn_def)
qed


theorem startup_ready_witness:
  "\<exists>ps. last (sent (written (greeting demo_entropy demo_params)
     ((written [AuthenticationMD5Password ''abcd''] (written [RawBytes ''N''] (newConn 0 None :: (nat, unit, unit) conn)))
          \<lparr>db_open := True, pinned := True, database := ''app/x.db'', dbstate := 1\<rparr>))) = greeting demo_entropy ps"
  using startup_ready [OF still_startup [of "[]"]] by auto

theorem connection_served_witness:
  "\<exists>c'. serveConn still demo_server demo_entropy [SSLRequest, StartupMessage demo_params] [demo_answer, Sync] (newConn 0 None) =
      Some (c', Closed (ErrMsg ''receive message: unexpected EOF'')) \<and> pinned c'"
  using connection_served [OF finite_still still_startup [of "[Sync]"]] by auto

theorem query_without_database_panics_witness:
  "serveConn still demo_server demo_entropy [CancelRequest] [Query ''COMMIT''] (newConn 0 None) = Some (newConn 0 None, Panicked)"
proof -
  have "TrimSpace (conn_rewrite [] ''COMMIT'') \<noteq> []" by code_simp
  from query_without_database_panics [OF this, THEN conjunct1] show ?thesis .
qed

section \<open>The enum tables are filled from the schema\<close>

lemma read_tables_yields:
  "yields D s r rows s' \<Longrightarrow> rows = map (\<lambda>(n, q). [VString n, VString q]) tables \<Longrightarrow>
     read_tables D s r acc = Some (Inr (acc @ tables), d_rows_close D s' r)"
proof (induction arbitrary: acc tables rule: yields.induct)
  case (yields_end D s r s')
  then show ?case by (simp add: read_tables.simps)
next
  case (yields_row D s r vs s1 rows s')
  then obtain n q ts where t: "tables = (n, q) # ts" "vs = [VString n, VString q]"
    "rows = map (\<lambda>(n, q). [VString n, VString q]) ts" by (cases tables) auto
  have "read_tables D s r acc = read_tables D s1 r (acc @ [(n, q)])"
    by (subst read_tables.simps) (simp add: yields_row.hyps t scan_table_def)
  with yields_row.IH [OF t(3)] show ?case by (simp add: t)
qed

text \<open>The statements run one after the other, all successful.\<close>

inductive runs_all :: "('s, 't, 'r) driver \<Rightarrow> (gostr \<times> go_value list) list \<Rightarrow> 's \<Rightarrow> 's \<Rightarrow> bool" for D where
  runs_none: "runs_all D [] s s"
| runs_one: "d_exec_args D s q args = (Inr n, s1) \<Longrightarrow> runs_all D rest s1 s' \<Longrightarrow> runs_all D ((q, args) # rest) s s'"

lemma run_inserts_runs:
  "run_inserts D is s = (e, s') \<Longrightarrow>
     (case e of
        None \<Rightarrow> runs_all D (map insert_stmt is) s s'
      | Some err \<Rightarrow> \<exists>before i after s1 e1. is = before @ i # after \<and> runs_all D (map insert_stmt before) s s1 \<and>
          d_exec_args D s1 (fst (insert_stmt i)) (snd (insert_stmt i)) = (Inl e1, s') \<and> err = ErrWrap (insert_label i) e1 [])"
proof (induction "is" arbitrary: s)
  case (Cons i "is")
  obtain q args where q: "insert_stmt i = (q, args)" by fastforce
  obtain x s1 where x: "d_exec_args D s q args = (x, s1)" by fastforce
  show ?case
  proof (cases x)
    case (Inl e1)
    with Cons.prems q x have "e = Some (ErrWrap (insert_label i) e1 [])" "s' = s1" by simp_all
    with Inl q x show ?thesis by (auto intro!: exI [of _ "[]"] runs_none)
  next
    case (Inr n)
    with Cons.prems q x have "run_inserts D is s1 = (e, s')" by simp
    note ih = Cons.IH [OF this]
    have step: "runs_all D (map insert_stmt (i # xs)) s s2" if "runs_all D (map insert_stmt xs) s1 s2" for xs s2
      using runs_one [OF x [unfolded Inr] that] q by simp
    show ?thesis
    proof (cases e)
      case None
      with ih step show ?thesis by simp
    next
      case (Some err)
      with ih obtain before j after s2 e1 where j: "is = before @ j # after" "runs_all D (map insert_stmt before) s1 s2"
        "d_exec_args D s2 (fst (insert_stmt j)) (snd (insert_stmt j)) = (Inl e1, s')" "err = ErrWrap (insert_label j) e1 []" by auto
      have "i # is = (i # before) @ j # after" using j(1) by simp
      with step [OF j(2)] j(3,4) have "\<exists>before k after s1 e1. i # is = before @ k # after \<and> runs_all D (map insert_stmt before) s s1 \<and>
          d_exec_args D s1 (fst (insert_stmt k)) (snd (insert_stmt k)) = (Inl e1, s') \<and> err = ErrWrap (insert_label k) e1 []" by blast
      with Some show ?thesis by simp
    qed
  qed
qed (auto intro: runs_none)

text \<open>C30: The enum tables are filled from the schema: when the temp tables could be created and the
  schema query delivers the tables with their CREATE texts, the cursor is closed and then the
  INSERTs for the rows of the reconstructed enums (\<open>enum_catalog_inserts\<close>, one statement per row)
  run on the connection, one after the other in that order.  If setup reports success every one
  of them has been executed successfully, and the state it leaves is the one the last of them left;
  otherwise those before some row have succeeded, the INSERT of that row has failed, nothing ran
  after it, and the error is the database's with the label of the row's table.\<close>

theorem enum_setup_inserts:
  assumes "exec_stmts D (map (\<lambda>ddl. (\<lambda>e. ErrWrap ''enum temp table: '' e [], ddl)) enumCatalogTables) s = (None, s1)"
    and "d_query D s1 schemaQuery = (Inr r, s2)"
    and "yields D s2 r (map (\<lambda>(n, q). [VString n, VString q]) tables) s3"
  shows "\<exists>e s'. setupEnumCatalog D s = Some (e, s') \<and>
    (case e of
       None \<Rightarrow> runs_all D (map insert_stmt (enum_catalog_inserts tables)) (d_rows_close D s3 r) s'
     | Some err \<Rightarrow> \<exists>before i after s4 e1. enum_catalog_inserts tables = before @ i # after \<and>
         runs_all D (map insert_stmt before) (d_rows_close D s3 r) s4 \<and>
         d_exec_args D s4 (fst (insert_stmt i)) (snd (insert_stmt i)) = (Inl e1, s') \<and> err = ErrWrap (insert_label i) e1 [])"
proof -
  obtain e s' where run: "run_inserts D (enum_catalog_inserts tables) (d_rows_close D s3 r) = (e, s')" by fastforce
  have "setupEnumCatalog D s = Some (e, s')"
    using read_tables_yields [OF assms(3), of tables "[]"] assms(1,2) run by (simp add: setupEnumCatalog_def)
  with run_inserts_runs [OF run] show ?thesis by blast
qed

text \<open>A driver whose schema has one table, with an enum.\<close>

definition one_ddl :: gostr where
  "one_ddl = ''CREATE TABLE t(a TEXT CHECK (a IN ('' @ sqlStringLiteral ''x'' @ '','' @ sqlStringLiteral ''y'' @ '')))''"

definition one_table :: "(nat, unit, unit) driver" where
  "one_table = still\<lparr>d_next := (\<lambda>s r. if s = 0 then (RowData (Inr [VString ''t'', VString one_ddl]), 1) else (RowDone, s)),
     d_exec_args := (\<lambda>s q args. (Inr 1, Suc s))\<rparr>"

lemma one_inserts:
  "enum_catalog_inserts [(''t'', one_ddl)] =
     [InsType 90000 ''t_a'', InsCol ''t'' ''a'' 90000 ''t_a'', InsLabel 90000 1 ''x'', InsLabel 90000 2 ''y'']"
  by code_simp

theorem enum_setup_inserts_witness:
  "setupEnumCatalog one_table 0 = Some (None, 5) \<and>
   runs_all one_table (map insert_stmt [InsType 90000 ''t_a'', InsCol ''t'' ''a'' 90000 ''t_a'', InsLabel 90000 1 ''x'', InsLabel 90000 2 ''y'']) 1 5"
proof -
  have e: "exec_stmts one_table xs s = (None, s)" for xs s
  proof (induction xs arbitrary: s)
    case (Cons x xs)
    then show ?case by (cases x) (simp add: one_table_def still_def)
  qed simp
  have q: "d_query one_table 0 schemaQuery = (Inr (), 0)" by (simp add: one_table_def still_def)
  have y: "yields one_table 0 () [[VString ''t'', VString one_ddl]] 1"
    by (rule yields_row [where ?s1.0 = 1] yields_end | simp add: one_table_def)+
  have c: "d_rows_close one_table 1 () = 1" "d_exec_args one_table s q' a = (Inr 1, Suc s)" for s q' a
    by (simp_all add: one_table_def still_def)
  have r: "run_inserts one_table (enum_catalog_inserts [(''t'', one_ddl)]) 1 = (None, 5)"
    unfolding one_inserts by (simp add: c)
  have "setupEnumCatalog one_table 0 = Some (None, 5)"
    using read_tables_yields [OF y, of "[(''t'', one_ddl)]" "[]"] r by (simp add: setupEnumCatalog_def e q c(1) del: One_nat_def)
  moreover have "\<exists>e s'. setupEnumCatalog one_table 0 = Some (e, s') \<and> (e = None \<longrightarrow>
      runs_all one_table (map insert_stmt (enum_catalog_inserts [(''t'', one_ddl)])) 1 s')"
    using enum_setup_inserts [OF e q, of "[(''t'', one_ddl)]" 1] y c(1) by fastforce
  ultimately show ?thesis unfolding one_inserts by auto
qed

end
