(* ===== verification/Lifecycle.thy ===== *)
theory Lifecycle
  imports Startup_Security
begin

text \<open>
  The lifecycle of the server: \<^verbatim>\<open>Open\<close>, \<^verbatim>\<open>serve\<close>, \<^verbatim>\<open>CloseClientConnection(s)\<close> and \<^verbatim>\<open>Close\<close> of
  \<^verbatim>\<open>server.go\<close>.

  The accept loop, one goroutine per connection and \<^verbatim>\<open>Close\<close> run interleaved: a step relation
  on the fields they share, one step for each stretch between two points where another
  goroutine can run (a section under the mutex is one step).  Connections are numbered; what
  happens inside one is \<open>serveConn\<close> of \<open>Startup\<close>.
\<close>

section \<open>Opening\<close>

text \<open>\<^verbatim>\<open>Open\<close>: \<open>stat\<close> and \<open>listen\<close> are what \<^verbatim>\<open>os.Stat\<close> and \<^verbatim>\<open>net.Listen\<close> return.\<close>

definition server_Open :: "(gostr \<Rightarrow> go_error option) \<Rightarrow> (gostr \<Rightarrow> go_error option) \<Rightarrow> server \<Rightarrow> go_error option" where
  "server_Open stat listen srv =
     (if DatabasePath srv = [] \<and> stat (DataDir srv) \<noteq> None then stat (DataDir srv) else listen (Addr srv))"

section \<open>The goroutines\<close>

text \<open>Where the accept loop is: in \<^verbatim>\<open>Accept\<close>, with a connection that is not tracked yet, with
  one tracked but not started, at the check of the context behind the loop, or gone.\<close>

datatype acceptor = Accepting | Accepted nat | Tracked nat | Checking | Gone

text \<open>Where \<^verbatim>\<open>Close\<close> is.\<close>

datatype closer = NotClosing | ListenerClosed | Canceled | ClientsClosed | Returned

record lifecycle =
  acceptor :: acceptor
  closer :: closer
  listening :: bool
  canceled :: bool                 \<comment> \<open>\<^verbatim>\<open>s.ctx.Err() != nil\<close>\<close>
  conns :: "nat set"               \<comment> \<open>\<^verbatim>\<open>s.conns\<close>\<close>
  open_conns :: "nat set"          \<comment> \<open>accepted sockets that are not closed\<close>
  running :: "nat set"             \<comment> \<open>connections whose goroutine has not ended\<close>
  next_conn :: nat
  accept_error :: bool             \<comment> \<open>the accept goroutine returned an error to the group\<close>

definition opened :: lifecycle where
  "opened =
     \<lparr>acceptor = Accepting, closer = NotClosing, listening = True, canceled = False, conns = {},
      open_conns = {}, running = {}, next_conn = 0, accept_error = False\<rparr>"

text \<open>The steps the server takes by itself: the accept loop, Close, and the end of a connection
  whose socket is closed (its reads and writes fail, so its goroutine runs out).\<close>

inductive server_step :: "lifecycle \<Rightarrow> lifecycle \<Rightarrow> bool" where
  accept: "acceptor s = Accepting \<Longrightarrow> listening s \<Longrightarrow>
    server_step s (s\<lparr>acceptor := Accepted (next_conn s), open_conns := insert (next_conn s) (open_conns s), next_conn := Suc (next_conn s)\<rparr>)"
| accept_fails: "acceptor s = Accepting \<Longrightarrow> server_step s (s\<lparr>acceptor := Checking\<rparr>)"
| track: "acceptor s = Accepted c \<Longrightarrow> server_step s (s\<lparr>acceptor := Tracked c, conns := insert c (conns s)\<rparr>)"
| spawn: "acceptor s = Tracked c \<Longrightarrow> server_step s (s\<lparr>acceptor := Accepting, running := insert c (running s)\<rparr>)"
| check: "acceptor s = Checking \<Longrightarrow> server_step s (s\<lparr>acceptor := Gone, accept_error := canceled s\<rparr>)"
| conn_closed: "c \<in> running s \<Longrightarrow> c \<notin> open_conns s \<Longrightarrow>
    server_step s (s\<lparr>conns := conns s - {c}, running := running s - {c}\<rparr>)"
| close_listener: "closer s = NotClosing \<Longrightarrow> server_step s (s\<lparr>closer := ListenerClosed, listening := False\<rparr>)"
| cancel: "closer s = ListenerClosed \<Longrightarrow> server_step s (s\<lparr>closer := Canceled, canceled := True\<rparr>)"
| close_clients: "closer s = Canceled \<Longrightarrow>
    server_step s (s\<lparr>closer := ClientsClosed, open_conns := open_conns s - conns s, conns := {}\<rparr>)"
| wait_ends: "closer s = ClientsClosed \<Longrightarrow> acceptor s = Gone \<Longrightarrow> running s = {} \<Longrightarrow> server_step s (s\<lparr>closer := Returned\<rparr>)"

inductive_cases server_stepE: "server_step s s'"

text \<open>A connection whose socket is open ends when its client makes it end (it disconnects, quits
  or sends what ends the session); the server cannot count on it.  The goroutine's deferred
  \<^verbatim>\<open>CloseClientConnection\<close> untracks the connection and closes its socket.\<close>

inductive client_step :: "lifecycle \<Rightarrow> lifecycle \<Rightarrow> bool" where
  conn_ends: "c \<in> running s \<Longrightarrow> c \<in> open_conns s \<Longrightarrow>
    client_step s (s\<lparr>conns := conns s - {c}, open_conns := open_conns s - {c}, running := running s - {c}\<rparr>)"

inductive_cases client_stepE: "client_step s s'"

text \<open>A step of the whole: the server's or a client's.\<close>

definition lstep :: "lifecycle \<Rightarrow> lifecycle \<Rightarrow> bool" where
  "lstep s s' \<longleftrightarrow> server_step s s' \<or> client_step s s'"

lemma lstep_server: "server_step s s' \<Longrightarrow> lstep s s'"
  by (simp add: lstep_def)

lemma lstep_client: "client_step s s' \<Longrightarrow> lstep s s'"
  by (simp add: lstep_def)

abbreviation reachable :: "lifecycle \<Rightarrow> bool" where
  "reachable s \<equiv> lstep\<^sup>*\<^sup>* opened s"

section \<open>Invariant\<close>

text \<open>The connection the accept loop holds.\<close>

definition held :: "lifecycle \<Rightarrow> nat set" where
  "held s = (case acceptor s of Accepted c \<Rightarrow> {c} | Tracked c \<Rightarrow> {c} | _ \<Rightarrow> {})"

definition lifecycle_inv :: "lifecycle \<Rightarrow> bool" where
  "lifecycle_inv s \<longleftrightarrow> open_conns s \<subseteq> running s \<union> held s \<and> conns s \<subseteq> running s \<union> held s \<and>
     (\<forall>c \<in> running s \<union> held s. c < next_conn s) \<and> running s \<inter> held s = {} \<and>
     (listening s \<longleftrightarrow> closer s = NotClosing) \<and> (canceled s \<longleftrightarrow> closer s \<notin> {NotClosing, ListenerClosed}) \<and>
     (closer s = Returned \<longrightarrow> acceptor s = Gone \<and> running s = {}) \<and>
     (accept_error s \<longrightarrow> acceptor s = Gone \<and> canceled s)"

lemma opened_inv: "lifecycle_inv opened"
  by (simp add: lifecycle_inv_def opened_def held_def)

lemma lstep_inv: "lstep s s' \<Longrightarrow> lifecycle_inv s \<Longrightarrow> lifecycle_inv s'"
  unfolding lstep_def
proof (elim disjE)
  show "server_step s s' \<Longrightarrow> lifecycle_inv s \<Longrightarrow> lifecycle_inv s'"
    by (induction rule: server_step.induct) (auto simp: lifecycle_inv_def held_def less_Suc_eq)
  show "client_step s s' \<Longrightarrow> lifecycle_inv s \<Longrightarrow> lifecycle_inv s'"
    by (induction rule: client_step.induct) (auto simp: lifecycle_inv_def held_def)
qed

lemma reachable_inv: "reachable s \<Longrightarrow> lifecycle_inv s"
  by (induction rule: rtranclp_induct) (auto intro: opened_inv lstep_inv)

text \<open>C33: when Close returns nothing is left: in every interleaving of the accept loop, the
  connections and Close, once Close has returned the accept loop and every connection's
  goroutine have ended, every accepted socket is closed and none is tracked.\<close>

theorem close_leaves_nothing:
  assumes "lstep\<^sup>*\<^sup>* opened s" "closer s = Returned"
  shows "open_conns s = {} \<and> conns s = {} \<and> running s = {} \<and> acceptor s = Gone \<and> \<not> listening s"
  using reachable_inv [OF assms(1)] assms(2) by (auto simp: lifecycle_inv_def held_def)

text \<open>No connection is served twice or lost track of: at every point every open socket
  belongs to exactly one goroutine, the accept loop or its own, whose end closes it, and
  everything in the map of connections is such a socket's number.\<close>

theorem connections_owned:
  assumes "lstep\<^sup>*\<^sup>* opened s"
  shows "open_conns s \<subseteq> running s \<union> held s \<and> conns s \<subseteq> running s \<union> held s \<and> running s \<inter> held s = {}"
  using reachable_inv [OF assms] by (simp add: lifecycle_inv_def)

section \<open>Close comes to its end\<close>

text \<open>The stages of \<^verbatim>\<open>Close\<close> are ordered; no step goes back.\<close>

fun phase :: "closer \<Rightarrow> nat" where
  "phase NotClosing = 0"
| "phase ListenerClosed = 1"
| "phase Canceled = 2"
| "phase ClientsClosed = 3"
| "phase Returned = 4"

instantiation closer :: linorder
begin

definition less_eq_closer :: "closer \<Rightarrow> closer \<Rightarrow> bool" where
  "a \<le> b \<longleftrightarrow> phase a \<le> phase b"

definition less_closer :: "closer \<Rightarrow> closer \<Rightarrow> bool" where
  "a < b \<longleftrightarrow> phase a < phase b"

instance
proof
  fix a b :: closer
  assume "a \<le> b" "b \<le> a"
  then show "a = b" by (cases a; cases b) (simp_all add: less_eq_closer_def)
qed (auto simp: less_eq_closer_def less_closer_def)

end

lemma lstep_advances: "lstep s s' \<Longrightarrow> closer s \<le> closer s'"
  by (auto simp: lstep_def less_eq_closer_def elim!: server_stepE client_stepE)

text \<open>What is left to do once the listener is closed: the way of the accept loop to its end,
  the connections to wait for and the rest of Close.\<close>

fun accept_work :: "acceptor \<Rightarrow> nat" where
  "accept_work Gone = 0"
| "accept_work Checking = 1"
| "accept_work Accepting = 2"
| "accept_work (Tracked _) = 4"
| "accept_work (Accepted _) = 5"

definition shutdown_work :: "lifecycle \<Rightarrow> nat" where
  "shutdown_work s = accept_work (acceptor s) + card (running s) + (4 - phase (closer s))"

lemma finite_running: "lifecycle_inv s \<Longrightarrow> finite (running s)"
  by (rule finite_subset [of _ "{..<next_conn s}"]) (auto simp: lifecycle_inv_def)

lemma one_less_running: "lifecycle_inv s \<Longrightarrow> c \<in> running s \<Longrightarrow> card (running s - {c}) < card (running s)"
  using finite_running by (rule card_Diff1_less)

lemma shutdown_step:
  assumes "lstep s s'" "lifecycle_inv s" "NotClosing < closer s"
  shows "shutdown_work s' < shutdown_work s"
  using assms(1) unfolding lstep_def
proof (elim disjE)
  assume "server_step s s'"
  then show ?thesis using assms(2,3)
  proof (induction rule: server_step.induct)
    case (spawn s c)
    have "card (insert c (running s)) \<le> Suc (card (running s))" by (rule card_insert_le_m1) simp_all
    with spawn show ?case by (simp add: shutdown_work_def)
  next
    case (conn_closed c s)
    then show ?case using one_less_running [of s c] by (simp add: shutdown_work_def)
  qed (auto simp: lifecycle_inv_def less_closer_def shutdown_work_def)
next
  assume "client_step s s'"
  then show ?thesis using assms(2)
  proof (induction rule: client_step.induct)
    case (conn_ends c s)
    then show ?case using one_less_running [of s c] by (simp add: shutdown_work_def)
  qed
qed

text \<open>The server comes to rest only where Close has returned or waits for connections whose
  sockets are open; a run in which the clients take part ends only where Close has returned.\<close>

lemma server_end:
  assumes "lifecycle_inv s" "\<nexists>s'. server_step s s'"
  shows "acceptor s = Gone \<and> (closer s = Returned \<or> closer s = ClientsClosed) \<and> running s = open_conns s"
proof -
  from assms(2) have gone: "acceptor s = Gone"
    by (cases "acceptor s") (auto dest: accept_fails track spawn check)
  from assms(2) have "running s \<subseteq> open_conns s" by (auto dest: conn_closed)
  with assms(1) gone have "running s = open_conns s" by (auto simp: lifecycle_inv_def held_def)
  with gone assms(2) show ?thesis
    by (cases "closer s") (auto dest: close_listener cancel close_clients)
qed

lemma returned_rests: "lifecycle_inv s \<Longrightarrow> closer s = Returned \<Longrightarrow> \<not> lstep s s'"
  by (auto simp: lifecycle_inv_def held_def lstep_def elim!: server_stepE client_stepE)

lemma shutdown_end:
  assumes "lifecycle_inv s"
  shows "(\<nexists>s'. lstep s s') \<longleftrightarrow> closer s = Returned"
proof
  assume stuck: "\<nexists>s'. lstep s s'"
  then have srv: "\<nexists>s'. server_step s s'" and cl: "\<nexists>s'. client_step s s'" by (auto simp: lstep_def)
  from server_end [OF assms srv] conn_ends cl have "running s = {}" by blast
  with server_end [OF assms srv] srv show "closer s = Returned" by (auto dest: wait_ends)
next
  assume "closer s = Returned"
  with assms show "\<nexists>s'. lstep s s'" using returned_rests by blast
qed

lemma shutdown_run:
  "(lstep ^^ n) s s' \<Longrightarrow> lifecycle_inv s \<Longrightarrow> NotClosing < closer s \<Longrightarrow> n + shutdown_work s' \<le> shutdown_work s \<and> lifecycle_inv s'"
proof (induction n arbitrary: s')
  case (Suc n)
  from Suc.prems(1) obtain t where t: "(lstep ^^ n) s t" "lstep t s'" by (rule relpowp_Suc_E)
  have "closer s \<le> closer t" using t(1)
  proof (induction n arbitrary: t)
    case (Suc n)
    then show ?case by (metis lstep_advances order_trans relpowp_Suc_E)
  qed simp
  with Suc.prems(3) have "NotClosing < closer t" by simp
  with Suc.IH [OF t(1) Suc.prems(2,3)] shutdown_step [OF t(2)] lstep_inv [OF t(2)] show ?case by fastforce
qed simp

text \<open>Which sockets can stay open: until Close closes the clients, every open socket is tracked
  or held, not yet tracked, by the accept loop; afterwards only one that was held so can be
  open.\<close>

definition untracked :: "lifecycle \<Rightarrow> nat set" where
  "untracked s = (case acceptor s of Accepted c \<Rightarrow> {c} | _ \<Rightarrow> {})"

definition open_known :: "lifecycle \<Rightarrow> bool" where
  "open_known s \<longleftrightarrow> (closer s < ClientsClosed \<longrightarrow> open_conns s \<subseteq> conns s \<union> untracked s)"

lemma open_known_step: "lstep s s' \<Longrightarrow> open_known s \<Longrightarrow> open_known s'"
  by (auto simp: lstep_def open_known_def untracked_def less_closer_def elim!: server_stepE client_stepE)

lemma reachable_open_known: "reachable s \<Longrightarrow> open_known s"
proof (induction rule: rtranclp_induct)
  case base
  show ?case by (simp add: open_known_def opened_def)
next
  case (step s s')
  from step.hyps(2) step.IH show ?case by (rule open_known_step)
qed

definition missed_from :: "lifecycle \<Rightarrow> lifecycle \<Rightarrow> bool" where
  "missed_from a s \<longleftrightarrow> NotClosing < closer s \<and> untracked s \<subseteq> untracked a \<and>
     (if closer s < ClientsClosed then open_conns s \<subseteq> conns s \<union> untracked a else open_conns s \<subseteq> untracked a)"

lemma missed_from_step: "lstep s s' \<Longrightarrow> lifecycle_inv s \<Longrightarrow> missed_from a s \<Longrightarrow> missed_from a s'"
  by (auto simp: lstep_def missed_from_def untracked_def less_closer_def lifecycle_inv_def elim!: server_stepE client_stepE)

lemma missed_from_run:
  "(lstep ^^ n) s s' \<Longrightarrow> lifecycle_inv s \<Longrightarrow> missed_from a s \<Longrightarrow> missed_from a s' \<and> lifecycle_inv s'"
  by (induction n arbitrary: s') (auto intro: missed_from_step lstep_inv)

text \<open>C32: Close comes to its end unless it has missed a client: from the moment the listener is
  closed, every further run of the accept loop, the connections and Close, in whatever order
  they are scheduled, has at most as many steps as \<open>shutdown_work\<close> counts (a few for the accept
  loop and Close and one for the end of each connection).  Where the server can go no further
  by itself, without any client ending its connection, Close has returned, or it waits for
  exactly one connection, with its socket open: the one the accept loop had accepted but not
  yet tracked when the run began.  A run in which that client's end counts as a step can
  stop only where Close has returned.\<close>

theorem shutdown_terminates:
  assumes "lstep\<^sup>*\<^sup>* opened s" "NotClosing < closer s" "closer s < ClientsClosed" "(lstep ^^ n) s s'"
  shows "n \<le> shutdown_work s \<and>
     ((\<nexists>s''. server_step s' s'') \<longrightarrow> closer s' = Returned \<or>
        closer s' = ClientsClosed \<and> (\<exists>c. acceptor s = Accepted c \<and> running s' = {c} \<and> open_conns s' = {c})) \<and>
     ((\<nexists>s''. lstep s' s'') \<longleftrightarrow> closer s' = Returned)"
proof -
  have inv: "lifecycle_inv s" using assms(1) by (rule reachable_inv)
  from reachable_open_known [OF assms(1)] assms(2,3) have "missed_from s s"
    by (simp add: missed_from_def open_known_def)
  from missed_from_run [OF assms(4) inv this] have s': "missed_from s s'" "lifecycle_inv s'" by simp_all
  have "closer s' = Returned \<or>
      closer s' = ClientsClosed \<and> (\<exists>c. acceptor s = Accepted c \<and> running s' = {c} \<and> open_conns s' = {c})"
    if rest: "\<nexists>s''. server_step s' s''"
  proof (cases "closer s' = Returned")
    case False
    with server_end [OF s'(2) rest] have gone: "acceptor s' = Gone" and cc: "closer s' = ClientsClosed"
      and run: "running s' = open_conns s'" by auto
    from rest gone cc have "running s' \<noteq> {}" by (auto dest: wait_ends)
    with s'(1) cc run gone show ?thesis
      by (auto simp: missed_from_def untracked_def less_closer_def split: acceptor.splits)
  qed simp
  moreover from shutdown_run [OF assms(4) inv assms(2)] have "n \<le> shutdown_work s" by simp
  moreover note shutdown_end [OF s'(2)]
  ultimately show ?thesis by (intro conjI impI)
qed

text \<open>Two interleavings.  The client that is accepted but not tracked when Close closes the
  clients keeps its connection, and the server rests there: Close waits for as long as that
  client likes.  And when
  the accept loop sees the closed listener only after the context was canceled, a clean
  shutdown returns its error.\<close>

lemma rtrancl_steps: "lstep a b \<Longrightarrow> lstep\<^sup>*\<^sup>* b c \<Longrightarrow> lstep\<^sup>*\<^sup>* a c"
  by (rule converse_rtranclp_into_rtranclp)

lemma close_misses_connection:
  "\<exists>s. reachable s \<and> closer s = ClientsClosed \<and> open_conns s = {0} \<and> running s = {0}"
proof -
  let ?s = "\<lparr>acceptor = Accepting, closer = ClientsClosed, listening = False, canceled = True, conns = {0},
      open_conns = {0}, running = {0}, next_conn = Suc 0, accept_error = False\<rparr>"
  have "reachable ?s"
    by (rule rtrancl_steps, rule lstep_server, rule accept, simp add: opened_def, simp add: opened_def,
        rule rtrancl_steps, rule lstep_server, rule close_listener, simp add: opened_def,
        rule rtrancl_steps, rule lstep_server, rule cancel, simp,
        rule rtrancl_steps, rule lstep_server, rule close_clients, simp,
        rule rtrancl_steps, rule lstep_server, rule track, simp,
        rule rtrancl_steps, rule lstep_server, rule spawn, simp) (simp add: opened_def)
  then show ?thesis by (intro exI [of _ ?s]) simp
qed

lemma clean_shutdown_reports_error:
  "\<exists>s. reachable s \<and> closer s = Returned \<and> accept_error s"
proof -
  let ?s = "\<lparr>acceptor = Gone, closer = Returned, listening = False, canceled = True, conns = {},
      open_conns = {}, running = {}, next_conn = 0, accept_error = True\<rparr>"
  have "reachable ?s"
    by (rule rtrancl_steps, rule lstep_server, rule close_listener, simp add: opened_def,
        rule rtrancl_steps, rule lstep_server, rule cancel, simp,
        rule rtrancl_steps, rule lstep_server, rule close_clients, simp,
        rule rtrancl_steps, rule lstep_server, rule accept_fails, simp add: opened_def,
        rule rtrancl_steps, rule lstep_server, rule check, simp,
        rule rtrancl_steps, rule lstep_server, rule wait_ends, simp, simp, simp add: opened_def) (simp add: opened_def)
  then show ?thesis by (intro exI [of _ ?s]) simp
qed

theorem close_leaves_nothing_witness:
  "\<exists>s. reachable s \<and> open_conns s = {} \<and> acceptor s = Gone"
proof -
  obtain s where "reachable s" "closer s = Returned" using clean_shutdown_reports_error by blast
  with close_leaves_nothing [OF this] show ?thesis by blast
qed

theorem connections_owned_witness:
  "\<exists>s. reachable s \<and> open_conns s = {0} \<and> open_conns s \<subseteq> running s \<union> held s"
proof -
  obtain s where s: "reachable s" "open_conns s = {0}" using close_misses_connection by blast
  from connections_owned [OF s(1)] s show ?thesis by blast
qed

text \<open>The clean shutdown of an idle server takes exactly the five steps \<open>shutdown_work\<close> allows.\<close>

definition idle_closed :: lifecycle where
  "idle_closed = opened\<lparr>closer := ListenerClosed, listening := False\<rparr>"

lemma idle_shutdown: "(lstep ^^ 5) idle_closed (idle_closed\<lparr>acceptor := Gone, closer := Returned, canceled := True, accept_error := True\<rparr>)"
proof -
  have "(lstep ^^ Suc (Suc (Suc (Suc (Suc 0))))) idle_closed (idle_closed\<lparr>acceptor := Gone, closer := Returned, canceled := True, accept_error := True\<rparr>)"
    by (rule relpowp_Suc_I2, rule lstep_server, rule cancel, simp add: idle_closed_def,
        rule relpowp_Suc_I2, rule lstep_server, rule close_clients, simp,
        rule relpowp_Suc_I2, rule lstep_server, rule accept_fails, simp add: idle_closed_def opened_def,
        rule relpowp_Suc_I2, rule lstep_server, rule check, simp,
        rule relpowp_Suc_I2, rule lstep_server, rule wait_ends, simp, simp, simp add: idle_closed_def opened_def)
      (simp add: idle_closed_def opened_def)
  then show ?thesis by (simp only: numeral_eq_Suc pred_numeral_simps arith_simps)
qed

theorem shutdown_terminates_witness: "5 \<le> shutdown_work idle_closed \<and> shutdown_work idle_closed = 5"
proof -
  have "reachable idle_closed"
    unfolding idle_closed_def by (rule r_into_rtranclp, rule lstep_server, rule close_listener) (simp add: opened_def)
  from shutdown_terminates [OF this _ _ idle_shutdown] show ?thesis
    by (simp add: idle_closed_def opened_def shutdown_work_def less_closer_def)
qed

end
