(* ===== verification/Command_Line.thy ===== *)
theory Command_Line
  imports Lifecycle
begin

text \<open>
  The command of \<^verbatim>\<open>cmd/postlite/main.go\<close>: its configuration out of the environment and the
  flags, what \<^verbatim>\<open>run\<close> does with it, the result of \<^verbatim>\<open>Close\<close> and the exit status.  Waiting for the
  signal is a point between two steps; \<open>stat\<close> and \<open>listen\<close> are the operating system's.
\<close>

section \<open>The configuration\<close>

definition envOr :: "(gostr \<Rightarrow> gostr) \<Rightarrow> gostr \<Rightarrow> gostr \<Rightarrow> gostr" where
  "envOr getenv key dflt = (if getenv key \<noteq> [] then getenv key else dflt)"

text \<open>The flags given on the command line, after \<^verbatim>\<open>flag.Parse\<close>.\<close>

definition flag_string :: "(gostr \<rightharpoonup> gostr) \<Rightarrow> gostr \<Rightarrow> gostr \<Rightarrow> gostr" where
  "flag_string flags name dflt = (case flags name of Some v \<Rightarrow> v | None \<Rightarrow> dflt)"

text \<open>The first half of \<^verbatim>\<open>run\<close>: the server that is opened, or the error.\<close>

definition run_config :: "(gostr \<Rightarrow> gostr) \<Rightarrow> (gostr \<rightharpoonup> gostr) \<Rightarrow> go_error + server" where
  "run_config getenv flags =
     (let addr = flag_string flags ''addr'' (envOr getenv ''POSTLITE_ADDR'' '':5432'');
          dataDir = flag_string flags ''data-dir'' (getenv ''POSTLITE_DATA_DIR'');
          db = flag_string flags ''database'' (getenv ''POSTLITE_DATABASE'');
          username = flag_string flags ''username'' (envOr getenv ''POSTLITE_USER'' ''postgres'');
          password = flag_string flags ''password'' (getenv ''POSTLITE_PASSWORD'')
      in if dataDir = [] \<and> db = [] then Inl (ErrMsg ''required: -data-dir PATH or -database FILE'')
         else Inr \<lparr>Addr = addr, DataDir = dataDir, DatabasePath = db, Username = username, Password = password\<rparr>)"

text \<open>Every server the command starts is one \<open>database_file_confined\<close> speaks of: without a
  fixed file it has a data directory.\<close>

lemma run_config_source:
  "run_config getenv flags = Inr srv \<Longrightarrow> DatabasePath srv = [] \<Longrightarrow> DataDir srv \<noteq> []"
  by (auto simp: run_config_def Let_def split: if_splits)

section \<open>Running the server\<close>

text \<open>What \<^verbatim>\<open>Close\<close> returns: the error of the accept loop if that ended the group with one,
  else the error of closing the listener, else that of closing the clients.\<close>

definition Close_result :: "go_error option \<Rightarrow> go_error option \<Rightarrow> go_error \<Rightarrow> lifecycle \<Rightarrow> go_error option" where
  "Close_result ln_err clients_err accept_err s =
     (if accept_error s then Some accept_err
      else case ln_err of Some e \<Rightarrow> Some e | None \<Rightarrow> clients_err)"

text \<open>What \<^verbatim>\<open>run\<close> does besides opening and closing the server is to log.  The deferred second Close
  comes when the first has returned, and its result is dropped.\<close>

datatype log_line =
  NoPasswordSet | PasswordEnabled gostr | ListeningOn gostr | ShuttingDown | ShutdownComplete

definition run_command ::
  "(gostr \<Rightarrow> gostr) \<Rightarrow> (gostr \<rightharpoonup> gostr) \<Rightarrow> (gostr \<Rightarrow> go_error option) \<Rightarrow> (gostr \<Rightarrow> go_error option) \<Rightarrow>
    (server \<Rightarrow> go_error option) \<Rightarrow> log_line list \<times> go_error option" where
  "run_command getenv flags stat listen close =
     (case run_config getenv flags of
        Inl e \<Rightarrow> ([], Some e)
      | Inr srv \<Rightarrow>
          (case server_Open stat listen srv of
             Some e \<Rightarrow> ([], Some e)
           | None \<Rightarrow>
               (let lines = [if Password srv = [] then NoPasswordSet else PasswordEnabled (Username srv),
                             ListeningOn (Addr srv), ShuttingDown]
                in case close srv of
                     Some e \<Rightarrow> (lines, Some e)
                   | None \<Rightarrow> (lines @ [ShutdownComplete], None))))"

text \<open>\<^verbatim>\<open>main\<close>: the exit status, and what is printed.\<close>

definition main_exit :: "go_error option \<Rightarrow> nat \<times> gostr list" where
  "main_exit err = (case err of Some e \<Rightarrow> (1, [error_text e]) | None \<Rightarrow> (0, []))"

text \<open>Two shutdowns of a server no client connected to: the accept loop looks at the context before
  Close cancels it, or after.\<close>

definition shut_down :: "bool \<Rightarrow> lifecycle" where
  "shut_down late = opened\<lparr>acceptor := Gone, closer := Returned, listening := False, canceled := True, accept_error := late\<rparr>"

lemma shut_down_reachable: "reachable (shut_down late)"
proof (cases late)
  case True
  have "reachable (shut_down True)" unfolding shut_down_def
    by (rule rtrancl_steps, rule lstep_server, rule close_listener, simp add: opened_def,
        rule rtrancl_steps, rule lstep_server, rule cancel, simp,
        rule rtrancl_steps, rule lstep_server, rule close_clients, simp,
        rule rtrancl_steps, rule lstep_server, rule accept_fails, simp add: opened_def,
        rule rtrancl_steps, rule lstep_server, rule check, simp,
        rule rtrancl_steps, rule lstep_server, rule wait_ends, simp, simp, simp add: opened_def) (simp add: opened_def)
  with True show ?thesis by simp
next
  case False
  have "reachable (shut_down False)" unfolding shut_down_def
    by (rule rtrancl_steps, rule lstep_server, rule close_listener, simp add: opened_def,
        rule rtrancl_steps, rule lstep_server, rule accept_fails, simp add: opened_def,
        rule rtrancl_steps, rule lstep_server, rule check, simp,
        rule rtrancl_steps, rule lstep_server, rule cancel, simp add: opened_def,
        rule rtrancl_steps, rule lstep_server, rule close_clients, simp,
        rule rtrancl_steps, rule lstep_server, rule wait_ends, simp, simp add: opened_def, simp add: opened_def) (simp add: opened_def)
  with False show ?thesis by simp
qed

text \<open>C36: The exit status of an interrupted server is a race: with a good configuration, nothing
  going wrong and no client ever connecting, the command exits with status 0 or with status 1
  depending only on whether the accept loop notices the closed listener before or after Close
  cancels the context.\<close>

theorem interrupt_exit_races:
  assumes "run_config getenv flags = Inr srv" "server_Open stat listen srv = None" "st \<in> {0, 1}"
  shows "\<exists>s. lstep\<^sup>*\<^sup>* opened s \<and> closer s = Returned \<and> next_conn s = 0 \<and>
    fst (main_exit (snd (run_command getenv flags stat listen (\<lambda>_. Close_result None None accept_err s)))) = st"
proof (intro exI conjI)
  show "reachable (shut_down (st = 1))" by (rule shut_down_reachable)
qed (use assms in \<open>auto simp: shut_down_def opened_def run_command_def main_exit_def Close_result_def\<close>)

theorem interrupt_exit_races_witness:
  "\<exists>s. reachable s \<and> closer s = Returned \<and> next_conn s = 0 \<and>
     fst (main_exit (snd (run_command (\<lambda>_. []) [''data-dir'' \<mapsto> ''/data''] (\<lambda>_. None) (\<lambda>_. None)
       (\<lambda>_. Close_result None None (ErrMsg ''use of closed network connection'') s)))) = 1"
proof -
  have "run_config (\<lambda>_. []) [''data-dir'' \<mapsto> ''/data''] =
      Inr \<lparr>Addr = '':5432'', DataDir = ''/data'', DatabasePath = [], Username = ''postgres'', Password = []\<rparr>"
    by (simp add: run_config_def flag_string_def envOr_def)
  from interrupt_exit_races [OF this, of "\<lambda>_. None" "\<lambda>_. None" 1] show ?thesis
    by (simp add: server_Open_def)
qed

section \<open>The password of the command\<close>

text \<open>C12: What is configured is enforced: when the flag, or without it the environment, gives the
  command a password, then in every connection of the server it starts, whatever the client
  sends, the database is touched only after the client has answered the MD5 challenge for the
  configured user with that password.\<close>

theorem command_password_enforced:
  assumes "run_config getenv flags = Inr srv"
    and "flag_string flags ''password'' (getenv ''POSTLITE_PASSWORD'') = p" "p \<noteq> []"
    and "serveConn D srv rnd sus msgs (newConn s w) = Some (c', e)"
    and "dbstate c' \<noteq> s \<or> db_open c' \<or> pinned c'"
  shows "\<exists>salt rest. rnd_salt rnd = Inr salt \<and>
    msgs = PasswordMessage (md5Password (flag_string flags ''username'' (envOr getenv ''POSTLITE_USER'' ''postgres'')) p salt) # rest"
proof -
  have "Password srv = p" "Username srv = flag_string flags ''username'' (envOr getenv ''POSTLITE_USER'' ''postgres'')"
    using assms(1,2) by (auto simp: run_config_def Let_def split: if_splits)
  with served_authenticated [OF _ assms(4,5)] assms(3) show ?thesis by auto
qed

theorem command_password_enforced_witness:
  "\<exists>salt rest. rnd_salt demo_entropy = Inr salt \<and> [demo_answer] = PasswordMessage (md5Password ''postgres'' ''pw'' salt) # rest"
proof -
  let ?env = "\<lambda>k. if k = ''POSTLITE_PASSWORD'' then ''pw'' else if k = ''POSTLITE_DATA_DIR'' then DataDir demo_server else []"
  have cfg: "run_config ?env [''addr'' \<mapsto> Addr demo_server] = Inr demo_server"
    by (simp add: run_config_def flag_string_def envOr_def demo_server_def)
  have served: "serveConn unpinnable demo_server demo_entropy [StartupMessage demo_params] [demo_answer] (newConn 0 None) =
     Some ((written [AuthenticationMD5Password ''abcd''] (newConn 0 None))\<lparr>dbstate := 1, db_open := True\<rparr>,
       Closed (ErrWrap ''startup: '' (ErrWrap ''startup message: '' (ErrWrap ''pin connection: '' (ErrMsg ''no such directory'') []) []) []))"
    by (simp add: serveConn_def unpinnable_startup wrap_hres_def)
  show ?thesis
    using command_password_enforced [OF cfg _ _ served] by (simp add: flag_string_def envOr_def)
qed

end
