(* ===== verification/Resources.thy ===== *)
theory Resources
  imports Startup_Security "HOL-Library.Multiset"
begin

text \<open>
  Handles.  A session opens prepared statements, result sets, a database handle and a pinned
  connection, and must release them: \<^verbatim>\<open>(*Conn).Close\<close>, \<^verbatim>\<open>(*boundPortal).close\<close>, the deferred
  \<^verbatim>\<open>rows.Close()\<close>.  A driver is wrapped so that every handle it gives out carries a fresh
  number and a ledger records which numbers are open; whatever the driver does, the ledger of
  a session agrees with the session's own maps, and is empty when the connection is closed.
\<close>

section \<open>The ledger\<close>

record 's ledger =
  led_base :: 's
  led_next :: nat
  open_stmts :: "nat multiset"
  open_rows :: "nat multiset"
  led_db :: bool
  led_conn :: bool
  led_misuse :: bool     \<comment> \<open>a handle was closed twice, or a closed result set was read\<close>

definition new_ledger :: "'s \<Rightarrow> 's ledger" where
  "new_ledger s = \<lparr>led_base = s, led_next = 0, open_stmts = {#}, open_rows = {#}, led_db = False, led_conn = False, led_misuse = False\<rparr>"

definition run_base :: "('s \<Rightarrow> 'a \<times> 's) \<Rightarrow> 's ledger \<Rightarrow> 'a \<times> 's ledger" where
  "run_base f L = (case f (led_base L) of (a, s) \<Rightarrow> (a, L\<lparr>led_base := s\<rparr>))"

definition open_row :: "(go_error + 'r) \<times> 's ledger \<Rightarrow> (go_error + 'r \<times> nat) \<times> 's ledger" where
  "open_row = (\<lambda>(res, L). case res of
     Inl e \<Rightarrow> (Inl e, L)
   | Inr r \<Rightarrow> (Inr (r, led_next L), L\<lparr>led_next := Suc (led_next L), open_rows := add_mset (led_next L) (open_rows L)\<rparr>))"

definition open_stmt :: "(go_error + 't) \<times> 's ledger \<Rightarrow> (go_error + 't \<times> nat) \<times> 's ledger" where
  "open_stmt = (\<lambda>(res, L). case res of
     Inl e \<Rightarrow> (Inl e, L)
   | Inr t \<Rightarrow> (Inr (t, led_next L), L\<lparr>led_next := Suc (led_next L), open_stmts := add_mset (led_next L) (open_stmts L)\<rparr>))"

definition tracked :: "('s, 't, 'r) driver \<Rightarrow> ('s ledger, 't \<times> nat, 'r \<times> nat) driver" where
  "tracked D =
     \<lparr>d_exec = (\<lambda>L q. run_base (\<lambda>s. d_exec D s q) L),
      d_query = (\<lambda>L q. open_row (run_base (\<lambda>s. d_query D s q) L)),
      d_prepare = (\<lambda>L q. open_stmt (run_base (\<lambda>s. d_prepare D s q) L)),
      d_stmt_exec = (\<lambda>L t args. run_base (\<lambda>s. d_stmt_exec D s (fst t) args) L),
      d_stmt_query = (\<lambda>L t args. open_row (run_base (\<lambda>s. d_stmt_query D s (fst t) args) L)),
      d_stmt_close = (\<lambda>L t. L\<lparr>led_base := d_stmt_close D (led_base L) (fst t), open_stmts := open_stmts L - {#snd t#},
         led_misuse := (led_misuse L \<or> snd t \<notin># open_stmts L)\<rparr>),
      d_columns = (\<lambda>L r. d_columns D (led_base L) (fst r)),
      d_next = (\<lambda>L r. case run_base (\<lambda>s. d_next D s (fst r)) L of
         (x, L') \<Rightarrow> (x, L'\<lparr>led_misuse := (led_misuse L \<or> snd r \<notin># open_rows L)\<rparr>)),
      d_rows_close = (\<lambda>L r. L\<lparr>led_base := d_rows_close D (led_base L) (fst r), open_rows := open_rows L - {#snd r#},
         led_misuse := (led_misuse L \<or> snd r \<notin># open_rows L)\<rparr>),
      d_exec_args = (\<lambda>L q args. run_base (\<lambda>s. d_exec_args D s q args) L),
      d_open = (\<lambda>L path. case run_base (\<lambda>s. d_open D s path) L of (e, L') \<Rightarrow> (e, L'\<lparr>led_db := (e = None \<or> led_db L)\<rparr>)),
      d_pin = (\<lambda>L. case run_base (d_pin D) L of (e, L') \<Rightarrow> (e, L'\<lparr>led_conn := (e = None \<or> led_conn L)\<rparr>)),
      d_unpin = (\<lambda>L. case run_base (d_unpin D) L of
         (e, L') \<Rightarrow> (e, L'\<lparr>led_conn := False, led_misuse := (led_misuse L \<or> \<not> led_conn L)\<rparr>)),
      d_shut = (\<lambda>L. case run_base (d_shut D) L of
         (e, L') \<Rightarrow> (e, L'\<lparr>led_db := False, led_misuse := (led_misuse L \<or> \<not> led_db L)\<rparr>))\<rparr>"

section \<open>What each call does to the ledger\<close>

text \<open>The part of the ledger that matters.\<close>

definition entries :: "'s ledger \<Rightarrow> nat multiset \<times> nat multiset \<times> bool \<times> bool \<times> bool" where
  "entries L = (open_stmts L, open_rows L, led_db L, led_conn L, led_misuse L)"

lemma entries_base [simp]: "entries (L\<lparr>led_base := s\<rparr>) = entries L"
  by (simp add: entries_def)

lemma tracked_exec:
  "d_exec (tracked D) L q = (r, L') \<Longrightarrow> entries L' = entries L"
  "d_exec_args (tracked D) L q args = (r, L') \<Longrightarrow> entries L' = entries L"
  "d_stmt_exec (tracked D) L t args = (r, L') \<Longrightarrow> entries L' = entries L"
  by (auto simp: tracked_def run_base_def split: prod.splits)

lemma tracked_opens:
  "d_query (tracked D) L q = (Inr r, L') \<Longrightarrow> entries L' = (open_stmts L, add_mset (snd r) (open_rows L), led_db L, led_conn L, led_misuse L)"
  "d_stmt_query (tracked D) L t args = (Inr r, L') \<Longrightarrow> entries L' = (open_stmts L, add_mset (snd r) (open_rows L), led_db L, led_conn L, led_misuse L)"
  "d_prepare (tracked D) L q = (Inr t', L') \<Longrightarrow> entries L' = (add_mset (snd t') (open_stmts L), open_rows L, led_db L, led_conn L, led_misuse L)"
  by (auto simp: tracked_def run_base_def open_row_def open_stmt_def entries_def split: prod.splits sum.splits)

lemma tracked_fails:
  "d_query (tracked D) L q = (Inl e, L') \<Longrightarrow> entries L' = entries L"
  "d_stmt_query (tracked D) L t args = (Inl e, L') \<Longrightarrow> entries L' = entries L"
  "d_prepare (tracked D) L q = (Inl e, L') \<Longrightarrow> entries L' = entries L"
  by (auto simp: tracked_def run_base_def open_row_def open_stmt_def split: prod.splits sum.splits)

lemma tracked_closes:
  "entries (d_rows_close (tracked D) L r) =
     (open_stmts L, open_rows L - {#snd r#}, led_db L, led_conn L, led_misuse L \<or> snd r \<notin># open_rows L)"
  "entries (d_stmt_close (tracked D) L t) =
     (open_stmts L - {#snd t#}, open_rows L, led_db L, led_conn L, led_misuse L \<or> snd t \<notin># open_stmts L)"
  by (auto simp: tracked_def entries_def)

lemma tracked_next: "d_next (tracked D) L r = (x, L') \<Longrightarrow> snd r \<in># open_rows L \<Longrightarrow> entries L' = entries L"
  by (auto simp: tracked_def run_base_def entries_def split: prod.splits)

section \<open>The ledger of a session\<close>

text \<open>The handles a session holds: of its statements, and of the result sets of its portals.\<close>

definition stmt_ids :: "(gostr \<times> ('t \<times> nat) preparedStatement) list \<Rightarrow> nat list" where
  "stmt_ids ss = map (\<lambda>(_, ps). snd (ps_stmt ps)) ss"

definition row_id :: "('t, 'r \<times> nat) boundPortal \<Rightarrow> nat list" where
  "row_id p = (case bp_rows p of None \<Rightarrow> [] | Some r \<Rightarrow> [snd r])"

definition row_ids :: "(gostr \<times> ('t, 'r \<times> nat) boundPortal) list \<Rightarrow> nat list" where
  "row_ids ps = concat (map (\<lambda>(_, p). row_id p) ps)"

text \<open>A portal that has not run has no result set.\<close>

definition settled :: "('t, 'r) boundPortal \<Rightarrow> bool" where
  "settled p \<longleftrightarrow> bp_executed p \<or> bp_rows p = None"

text \<open>\<open>tallied X L c\<close>: with the ledger \<open>L\<close> the session holds exactly what is open, besides the
  result sets \<open>X\<close> a handler is using.\<close>

definition tallied :: "nat multiset \<Rightarrow> 's ledger \<Rightarrow> ('s ledger, 't \<times> nat, 'r \<times> nat) conn \<Rightarrow> bool" where
  "tallied X L c \<longleftrightarrow> distinct (map fst (stmts c)) \<and> distinct (map fst (portals c)) \<and>
     (\<forall>x \<in> set (portals c). settled (snd x)) \<and>
     entries L = (mset (stmt_ids (stmts c)), X + mset (row_ids (portals c)), db_open c, pinned c, False)"

abbreviation accounted :: "('s ledger, 't \<times> nat, 'r \<times> nat) conn \<Rightarrow> bool" where
  "accounted c \<equiv> tallied {#} (dbstate c) c"

lemma tallied_entries: "tallied X L c \<Longrightarrow> entries L' = entries L \<Longrightarrow> tallied X L' c"
  by (simp add: tallied_def)

lemma delete_fst: "map fst (AList.delete k al) = filter (\<lambda>x. x \<noteq> k) (map fst al)"
  by (induction al) auto

lemma mset_owned_delete:
  "distinct (map fst al) \<Longrightarrow>
     mset (concat (map (\<lambda>(_, v). f v) al)) =
       mset (concat (map (\<lambda>(_, v). f v) (AList.delete k al))) + mset (case map_of al k of None \<Rightarrow> [] | Some v \<Rightarrow> f v)"
proof (induction al)
  case (Cons a al)
  obtain k' v where a: "a = (k', v)" by (cases a)
  show ?case
  proof (cases "k' = k")
    case True
    then have "AList.delete k al = al" using Cons.prems a by (intro delete_id) simp
    with True a show ?thesis by simp
  next
    case False
    with Cons a show ?thesis by simp
  qed
qed simp

lemma mset_owned_update:
  "distinct (map fst al) \<Longrightarrow>
     mset (concat (map (\<lambda>(_, v). f v) (AList.update k v al))) + mset (case map_of al k of None \<Rightarrow> [] | Some w \<Rightarrow> f w) =
       mset (concat (map (\<lambda>(_, v). f v) al)) + mset (f v)"
proof (induction al)
  case (Cons a al)
  then show ?case by (cases a) (auto simp: ac_simps)
qed simp

lemma stmt_ids_concat: "stmt_ids ss = concat (map (\<lambda>(_, ps). [snd (ps_stmt ps)]) ss)"
  by (induction ss) (auto simp: stmt_ids_def)

lemma stmt_ids_delete:
  "distinct (map fst ss) \<Longrightarrow> map_of ss k = Some ps \<Longrightarrow>
     mset (stmt_ids ss) = add_mset (snd (ps_stmt ps)) (mset (stmt_ids (AList.delete k ss)))"
  using mset_owned_delete [of ss "\<lambda>ps. [snd (ps_stmt ps)]" k] by (simp add: stmt_ids_concat)

lemma stmt_ids_update:
  "distinct (map fst ss) \<Longrightarrow>
     mset (stmt_ids (AList.update k ps ss)) + mset (case map_of ss k of None \<Rightarrow> [] | Some old \<Rightarrow> [snd (ps_stmt old)]) =
       add_mset (snd (ps_stmt ps)) (mset (stmt_ids ss))"
  using mset_owned_update [of ss "\<lambda>ps. [snd (ps_stmt ps)]" k ps] by (simp add: stmt_ids_concat)

lemma row_ids_delete:
  "distinct (map fst ps) \<Longrightarrow> map_of ps k = Some p \<Longrightarrow>
     mset (row_ids ps) = mset (row_ids (AList.delete k ps)) + mset (row_id p)"
  using mset_owned_delete [of ps row_id k] by (simp add: row_ids_def)

lemma row_ids_update:
  "distinct (map fst ps) \<Longrightarrow>
     mset (row_ids (AList.update k p ps)) + mset (case map_of ps k of None \<Rightarrow> [] | Some old \<Rightarrow> row_id old) =
       mset (row_ids ps) + mset (row_id p)"
  using mset_owned_update [of ps row_id k p] by (simp add: row_ids_def)

section \<open>The handlers keep the account\<close>

lemma tallied_flags [simp]:
  "tallied X L (c\<lparr>dbstate := s\<rparr>) = tallied X L c" "tallied X L (c\<lparr>txStatus := t\<rparr>) = tallied X L c"
  "tallied X L (c\<lparr>skipUntilSync := b\<rparr>) = tallied X L c" "tallied X L (fail_tx c) = tallied X L c"
  "tallied X L (c\<lparr>dbstate := s, stmts := ss\<rparr>) = tallied X L (c\<lparr>stmts := ss\<rparr>)"
  "tallied X L (c\<lparr>dbstate := s, portals := ps\<rparr>) = tallied X L (c\<lparr>portals := ps\<rparr>)"
  "tallied X L (noteCompleted kw c) = tallied X L c" "dbstate (fail_tx c) = dbstate c"
  "dbstate (noteCompleted kw c) = dbstate c"
  by (simp_all add: tallied_def fail_tx_def noteCompleted_def)

lemma reply_balanced [simp]:
  "tallied X L (fst (writeMessages ms c)) = tallied X L c" "dbstate (fst (writeMessages ms c)) = dbstate c"
  "tallied X L (fst (writeErrorReady t e c)) = tallied X L c" "dbstate (fst (writeErrorReady t e c)) = dbstate c"
  "tallied X L (fst (failSimple e c)) = tallied X L c" "dbstate (fst (failSimple e c)) = dbstate c"
  "tallied X L (fst (failExtended e c)) = tallied X L c" "dbstate (fst (failExtended e c)) = dbstate c"
  by (simp_all add: failSimple_def failExtended_def writeErrorReady_def writeError_def Let_def writeMessages_def)
    (simp_all add: tallied_def fail_tx_def)

lemma balancedE:
  assumes "tallied X L c"
  obtains "distinct (map fst (stmts c))" "distinct (map fst (portals c))" "\<forall>x \<in> set (portals c). settled (snd x)"
    "open_stmts L = mset (stmt_ids (stmts c))"
    "open_rows L = X + mset (row_ids (portals c))" "led_db L = db_open c" "led_conn L = pinned c" "led_misuse L = False"
  using assms by (simp add: tallied_def entries_def)

lemma tallied_close_row:
  "tallied (add_mset (snd r) X) L c \<Longrightarrow> tallied X (d_rows_close (tracked D) L r) c"
  by (erule balancedE) (simp add: tallied_def tracked_closes)

lemma closing_balanced:
  "tallied {#snd r#} (dbstate (fst m)) (fst m) \<Longrightarrow> accounted (fst (closing (tracked D) r m))"
  by (cases m) (auto simp: closing_def intro: tallied_close_row)

lemma stream_rows_entries:
  assumes "stream_rows (tracked D) L r oids buf n = Some (o', b, m, L')" "snd r \<in># open_rows L"
  shows "entries L' = entries L"
proof -
  have "E = tracked D \<longrightarrow> snd r \<in># open_rows L \<longrightarrow> entries (snd (snd (snd y))) = entries L"
    if "stream_rows E L r oids buf n = Some y" for E :: "('a ledger, 'b \<times> nat, 'c \<times> nat) driver" and y
  proof (rule stream_rows.raw_induct [where P = "\<lambda>E L r oids buf n y. E = tracked D \<longrightarrow> snd r \<in># open_rows L \<longrightarrow>
      entries (snd (snd (snd y))) = entries L", OF _ that], goal_cases)
    case (1 rec E L r oids buf n y)
    have "entries (snd (snd (snd y))) = entries L" if e: "E = tracked D" and r: "snd r \<in># open_rows L"
    proof -
      obtain x L1 where n: "d_next E L r = (x, L1)" by (cases "d_next E L r")
      then have k: "entries L1 = entries L" using tracked_next e r by blast
      then have "snd r \<in># open_rows L1" using r by (simp add: entries_def)
      then show ?thesis using 1 n k e by (auto split: row_step.splits sum.splits)
    qed
    then show ?case by blast
  qed
  with assms show ?thesis by fastforce
qed

lemma tallied_opened:
  "tallied X L c \<Longrightarrow> entries L' = (open_stmts L, add_mset i (open_rows L), led_db L, led_conn L, led_misuse L) \<Longrightarrow>
     tallied (add_mset i X) L' c"
  by (erule balancedE) (simp add: tallied_def)

lemma tallied_held: "tallied (add_mset i X) L c \<Longrightarrow> i \<in># open_rows L"
  by (erule balancedE) simp

lemma execSimple_balanced:
  assumes "execSimpleQuery (tracked D) q c = Some r" "accounted c"
  shows "accounted (fst r)"
proof -
  obtain x L where x: "d_exec (tracked D) (dbstate c) q = (x, L)" by fastforce
  have "tallied {#} L c" using assms(2) tracked_exec(1) [OF x] by (rule tallied_entries)
  with assms x show ?thesis by (auto simp: execSimpleQuery_def Let_def split: sum.splits if_splits)
qed

lemma streamSimple_balanced:
  assumes "streamSimpleQuery (tracked D) q c = Some r" "accounted c"
  shows "accounted (fst r)"
proof (cases "pinned c")
  case True
  obtain x L where x: "d_query (tracked D) (dbstate c) q = (x, L)" by fastforce
  show ?thesis
  proof (cases x)
    case (Inl e)
    have "tallied {#} L c" using assms(2) tracked_fails(1) [OF x [unfolded Inl]] by (rule tallied_entries)
    with assms(1) True x Inl show ?thesis by (auto simp: streamSimpleQuery_def)
  next
    case (Inr rs)
    have b: "tallied {#snd rs#} L c" using assms(2) tracked_opens(1) [OF x [unfolded Inr]] by (rule tallied_opened)
    have b1: "tallied {#snd rs#} L1 c" if "stream_rows (tracked D) L rs oids buf n = Some (o', b', m, L1)" for oids buf n o' b' m L1
      using b stream_rows_entries [OF that tallied_held [OF b]] by (rule tallied_entries)
    from assms(1) True x Inr b show ?thesis
      by (auto simp: streamSimpleQuery_def Let_def intro!: closing_balanced dest!: b1
          split: sum.splits option.splits stream_end.splits)
  qed
qed (use assms in \<open>auto simp: streamSimpleQuery_def\<close>)

lemma rollback_balanced: "accounted c \<Longrightarrow> accounted (rollbackFailed (tracked D) c)"
  unfolding rollbackFailed_def
  by (cases "d_exec (tracked D) (dbstate c) ''ROLLBACK''") (auto dest: tracked_exec tallied_entries)

lemma handleQuery_balanced:
  assumes "handleQueryMessage (tracked D) q c = Some r" "accounted c"
  shows "accounted (fst r)"
  using assms unfolding handleQueryMessage_def Let_def
  by (auto split: if_splits dest: execSimple_balanced streamSimple_balanced simp: rollback_balanced)

lemma handleParse_balanced:
  assumes "handleParseMessage (tracked D) name q c = Some r" "accounted c"
  shows "accounted (fst r)"
proof (cases "pinned c")
  case True
  obtain x L where x: "d_prepare (tracked D) (dbstate c) (conn_rewrite (database c) q) = (x, L)" by fastforce
  show ?thesis
  proof (cases x)
    case (Inl e)
    have "tallied {#} L c" using assms(2) tracked_fails(3) [OF x [unfolded Inl]] by (rule tallied_entries)
    with assms(1) True x Inl show ?thesis by (auto simp: handleParseMessage_def)
  next
    case (Inr t)
    note t = tracked_opens(3) [OF x [unfolded Inr]]
    define ps where "ps = \<lparr>ps_name = name, ps_query = conn_rewrite (database c) q, ps_stmt = t, ps_nparams = countParams (conn_rewrite (database c) q)\<rparr>"
    define L1 where "L1 = (case map_of (stmts c) name of None \<Rightarrow> L | Some old \<Rightarrow> d_stmt_close (tracked D) L (ps_stmt old))"
    have "tallied {#} L1 (c\<lparr>stmts := AList.update name ps (stmts c)\<rparr>)"
    proof (rule balancedE [OF assms(2)])
      assume b: "distinct (map fst (stmts c))" "distinct (map fst (portals c))" "\<forall>x \<in> set (portals c). settled (snd x)"
        "open_stmts (dbstate c) = mset (stmt_ids (stmts c))"
        "open_rows (dbstate c) = {#} + mset (row_ids (portals c))" "led_db (dbstate c) = db_open c"
        "led_conn (dbstate c) = pinned c" "led_misuse (dbstate c) = False"
      have u: "add_mset (snd t) (mset (stmt_ids (stmts c))) = mset (stmt_ids (AList.update name ps (stmts c))) +
          mset (case map_of (stmts c) name of None \<Rightarrow> [] | Some old \<Rightarrow> [snd (ps_stmt old)])"
        using stmt_ids_update [OF b(1), of name ps] by (simp add: ps_def)
      have e: "entries L = (add_mset (snd t) (mset (stmt_ids (stmts c))), mset (row_ids (portals c)), db_open c, pinned c, False)"
        using t b by simp
      then have "open_stmts L = add_mset (snd t) (mset (stmt_ids (stmts c)))" "open_rows L = mset (row_ids (portals c))"
        "led_db L = db_open c" "led_conn L = pinned c" "\<not> led_misuse L"
        by (simp_all add: entries_def)
      with b e u show ?thesis
        by (cases "map_of (stmts c) name") (simp_all add: tallied_def L1_def tracked_closes distinct_update)
    qed
    with assms(1) True x Inr show ?thesis
      by (auto simp: handleParseMessage_def Let_def L1_def ps_def)
  qed
qed (use assms in \<open>auto simp: handleParseMessage_def Let_def\<close>)


section \<open>Portals\<close>

lemma tallied_put:
  assumes "tallied X L c"
    and "entries L' = (open_stmts L, R, led_db L, led_conn L, led_misuse L)"
    and "R + mset (case map_of (portals c) name of None \<Rightarrow> [] | Some p \<Rightarrow> row_id p) = open_rows L + mset (row_id p1)"
    and "settled p1"
  shows "tallied X L' (c\<lparr>portals := AList.update name p1 (portals c)\<rparr>)"
proof (rule balancedE [OF assms(1)])
  assume b: "distinct (map fst (stmts c))" "distinct (map fst (portals c))" "\<forall>x \<in> set (portals c). settled (snd x)"
    "open_stmts L = mset (stmt_ids (stmts c))" "open_rows L = X + mset (row_ids (portals c))" "led_db L = db_open c"
    "led_conn L = pinned c" "led_misuse L = False"
  have R: "R = X + mset (row_ids (AList.update name p1 (portals c)))"
    using assms(3) row_ids_update [OF b(2), of name p1] b(5) by (metis add_right_cancel union_assoc)
  have "\<forall>x \<in> set (AList.update name p1 (portals c)). settled (snd x)"
    using b(3) assms(4) set_update_sub [of name p1 "portals c"] by auto
  with R show ?thesis using b assms(2) by (simp add: tallied_def distinct_update)
qed

lemma tallied_portal: "tallied X L c \<Longrightarrow> map_of (portals c) name = Some p \<Longrightarrow> settled p"
  by (erule balancedE) (auto dest!: map_of_SomeD)

lemma portal_execute_balanced:
  assumes "portal_execute (tracked D) p L = (e, p1, L1)" "tallied {#} L c" "map_of (portals c) name = Some p"
  shows "tallied {#} L1 (c\<lparr>portals := AList.update name p1 (portals c)\<rparr>)"
proof (cases "bp_executed p")
  case True
  then show ?thesis using assms
    by (intro tallied_put [OF assms(2)]) (auto simp: portal_execute_def entries_def dest: tallied_portal)
next
  case False
  then have none: "bp_rows p = None" using tallied_portal [OF assms(2,3)] by (simp add: settled_def)
  show ?thesis
  proof (cases "isRowReturning (ps_query (bp_ps p))")
    case False
    obtain x L2 where x: "d_stmt_exec (tracked D) L (ps_stmt (bp_ps p)) (bp_params p) = (x, L2)" by fastforce
    have "L1 = L2" "row_id p1 = []" "bp_executed p1"
      using assms(1) False \<open>\<not> bp_executed p\<close> none x by (auto simp: portal_execute_def row_id_def Let_def split: sum.splits)
    then show ?thesis using tracked_exec(3) [OF x] none assms(3)
      by (intro tallied_put [OF assms(2)]) (auto simp: entries_def row_id_def settled_def)
  next
    case True
    obtain x L2 where x: "d_stmt_query (tracked D) L (ps_stmt (bp_ps p)) (bp_params p) = (x, L2)" by fastforce
    show ?thesis
    proof (cases x)
      case (Inl e')
      with assms(1) True \<open>\<not> bp_executed p\<close> none x have "L1 = L2" "row_id p1 = []" "bp_executed p1"
        by (auto simp: portal_execute_def row_id_def Let_def)
      then show ?thesis using tracked_fails(2) [OF x [unfolded Inl]] none assms(3)
        by (intro tallied_put [OF assms(2)]) (auto simp: entries_def row_id_def settled_def)
    next
      case (Inr r)
      note o = tracked_opens(2) [OF x [unfolded Inr]]
      show ?thesis
      proof (cases "d_columns (tracked D) L2 r")
        case (Inl e')
        with assms(1) True \<open>\<not> bp_executed p\<close> none x Inr have "L1 = d_rows_close (tracked D) L2 r" "row_id p1 = []" "bp_executed p1"
          by (auto simp: portal_execute_def row_id_def Let_def)
        moreover have "entries (d_rows_close (tracked D) L2 r) = entries L"
          using o unfolding tracked_closes by (simp add: entries_def)
        ultimately show ?thesis using none assms(3)
          by (intro tallied_put [OF assms(2)]) (auto simp: entries_def row_id_def settled_def)
      next
        case cols: (Inr cols)
        with assms(1) True \<open>\<not> bp_executed p\<close> none x Inr have "L1 = L2" "row_id p1 = [snd r]" "bp_executed p1"
          by (auto simp: portal_execute_def row_id_def Let_def)
        then show ?thesis using o none assms(3)
          by (intro tallied_put [OF assms(2)]) (auto simp: row_id_def settled_def)
      qed
    qed
  qed
qed

lemma portal_close_entries:
  assumes "mset (row_id p) \<subseteq># open_rows L"
  shows "entries (portal_close (tracked D) p L) =
    (open_stmts L, open_rows L - mset (row_id p), led_db L, led_conn L, led_misuse L)"
proof (cases "bp_rows p")
  case None
  then show ?thesis by (simp add: portal_close_def row_id_def entries_def)
next
  case (Some r)
  with assms show ?thesis by (simp add: portal_close_def row_id_def tracked_closes)
qed

lemma portal_row_open:
  assumes "tallied X L c" "map_of (portals c) name = Some p"
  shows "mset (row_id p) \<subseteq># open_rows L"
  using assms row_ids_delete [of "portals c" name p] by (auto elim!: balancedE simp: ac_simps)


lemma handleBind_balanced:
  assumes "handleBindMessage (tracked D) portal stmt params c = Some r" "accounted c"
  shows "accounted (fst r)"
proof (cases "map_of (stmts c) stmt")
  case (Some ps)
  define p1 :: "('b \<times> nat, 'c \<times> nat) boundPortal" where "p1 = \<lparr>bp_name = portal, bp_ps = ps, bp_params = map param_value params, bp_executed = False,
    bp_rows = None, bp_cols = [], bp_oids = [], bp_result = None, bp_execErr = None\<rparr>"
  define L where "L = (case map_of (portals c) portal of None \<Rightarrow> dbstate c | Some old \<Rightarrow> portal_close (tracked D) old (dbstate c))"
  have p1: "row_id p1 = []" "bp_rows p1 = None" by (simp_all add: p1_def row_id_def)
  have "tallied {#} L (c\<lparr>portals := AList.update portal p1 (portals c)\<rparr>)"
  proof (cases "map_of (portals c) portal")
    case None
    then show ?thesis using p1 by (intro tallied_put [OF assms(2)]) (simp_all add: L_def entries_def settled_def)
  next
    case (Some old)
    note o = portal_row_open [OF assms(2) Some]
    then show ?thesis using p1 Some portal_close_entries [OF o, of D]
      by (intro tallied_put [OF assms(2)]) (simp_all add: L_def settled_def, metis subset_mset.diff_add)
  qed
  with assms(1) Some show ?thesis by (auto simp: handleBindMessage_def Let_def L_def p1_def)
qed (use assms in \<open>auto simp: handleBindMessage_def\<close>)

lemma describe_balanced:
  assumes "describeStatement (tracked D) ps c = Some r" "accounted c"
  shows "accounted (fst r)"
proof (cases "maxAlloc < 16 * int (ps_nparams ps)")
  case False
  obtain x L where x: "d_stmt_query (tracked D) (dbstate c) (ps_stmt ps) (replicate (ps_nparams ps) VNil) = (x, L)" by fastforce
  show ?thesis
  proof (cases x)
    case (Inl e)
    have "tallied {#} L c" using assms(2) tracked_fails(2) [OF x [unfolded Inl]] by (rule tallied_entries)
    with assms(1) False x Inl show ?thesis by (auto simp: describeStatement_def)
  next
    case (Inr rs)
    have "tallied {#} (d_rows_close (tracked D) L rs) c"
      using assms(2) tracked_opens(2) [OF x [unfolded Inr]] by (intro tallied_close_row tallied_opened)
    with assms(1) False x Inr show ?thesis by (auto simp: describeStatement_def Let_def split: sum.splits)
  qed
qed (use assms in \<open>auto simp: describeStatement_def\<close>)

lemma put_portal_balanced [simp]:
  "tallied X L (put_portal name p s c) = tallied X L (c\<lparr>portals := AList.update name p (portals c)\<rparr>)"
  "dbstate (put_portal name p s c) = s"
  by (simp_all add: put_portal_def)

lemma handleDescribe_balanced:
  assumes "handleDescribeMessage (tracked D) ty name c = Some r" "accounted c"
  shows "accounted (fst r)"
proof -
  have x: "tallied {#} L1 (c\<lparr>portals := AList.update name p1 (portals c)\<rparr>)"
    if "portal_execute (tracked D) p (dbstate c) = (e, p1, L1)" "map_of (portals c) name = Some p" for p e p1 L1
    using portal_execute_balanced [OF that(1) assms(2) that(2)] .
  from assms show ?thesis
    by (auto simp: handleDescribeMessage_def Let_def dest: describe_balanced x split: if_splits option.splits prod.splits)
qed

lemma completeExecute_balanced [simp]:
  "tallied X L (fst (completeExecute kw p buf n c)) = tallied X L c" "dbstate (fst (completeExecute kw p buf n c)) = dbstate c"
  by (simp_all add: completeExecute_def Let_def)

lemma handleExecute_balanced:
  assumes "handleExecuteMessage (tracked D) name c = Some r" "accounted c"
  shows "accounted (fst r)"
proof (cases "map_of (portals c) name")
  case p: (Some p)
  obtain e p1 L where x: "portal_execute (tracked D) p (dbstate c) = (e, p1, L)" using prod_cases3 by blast
  let ?c1 = "c\<lparr>portals := AList.update name p1 (portals c)\<rparr>"
  have b: "tallied {#} L ?c1" using portal_execute_balanced [OF x assms(2) p] .
  have p1: "map_of (portals ?c1) name = Some p1" by (simp add: update_conv)
  have fin: "tallied {#} (portal_close (tracked D) p1 L1) (c\<lparr>portals := AList.update name (p1\<lparr>bp_rows := None\<rparr>) (portals c)\<rparr>)"
    if "stream_rows (tracked D) L rs oids [] 0 = Some (o', buf, n, L1)" "bp_rows p1 = Some rs" for rs oids o' buf n L1
  proof -
    have sub: "mset (row_id p1) \<subseteq># open_rows L" using portal_row_open [OF b p1] .
    then have "entries L1 = entries L" using that by (intro stream_rows_entries [OF that(1)]) (simp add: row_id_def)
    then have b1: "tallied {#} L1 ?c1" by (rule tallied_entries [OF b])
    note o = portal_row_open [OF b1 p1]
    have "tallied {#} (portal_close (tracked D) p1 L1) (?c1\<lparr>portals := AList.update name (p1\<lparr>bp_rows := None\<rparr>) (portals ?c1)\<rparr>)"
    proof (rule tallied_put [OF b1 portal_close_entries [OF o]])
      have "row_id (p1\<lparr>bp_rows := None\<rparr>) = []" by (simp add: row_id_def)
      then show "open_rows L1 - mset (row_id p1) + mset (case map_of (portals ?c1) name of None \<Rightarrow> [] | Some p \<Rightarrow> row_id p) =
          open_rows L1 + mset (row_id (p1\<lparr>bp_rows := None\<rparr>))"
        unfolding p1 option.case by (simp only: mset.simps add_0_right subset_mset.diff_add [OF o])
    qed (simp add: settled_def)
    then show ?thesis by (simp add: update_last)
  qed
  show ?thesis
  proof (cases "txStatus c = TxFailed")
    case True
    with assms p show ?thesis by (auto simp: handleExecuteMessage_def Let_def rollback_balanced split: if_splits)
  next
    case False
    note run = assms(1) [unfolded handleExecuteMessage_def p option.case Let_def if_not_P [OF False] x prod.case]
    show ?thesis
    proof (cases e)
      case (Some e')
      with run b show ?thesis by auto
    next
      case None
      show ?thesis
      proof (cases "bp_rows p1")
        case rows: None
        with run None b show ?thesis by auto
      next
        case (Some rs)
        with run None obtain o' buf n L1 where st: "stream_rows (tracked D) L rs (bp_oids p1) [] 0 = Some (o', buf, n, L1)"
          by (auto split: option.splits)
        with run None Some fin [OF st Some] show ?thesis by (cases o') auto
      qed
    qed
  qed
qed (use assms in \<open>auto simp: handleExecuteMessage_def\<close>)

lemma handleClose_balanced:
  assumes "handleCloseMessage (tracked D) ty name c = Some r" "accounted c"
  shows "accounted (fst r)"
proof -
  have s: "tallied {#} (d_stmt_close (tracked D) (dbstate c) (ps_stmt ps)) (c\<lparr>stmts := AList.delete name (stmts c)\<rparr>)"
    if "map_of (stmts c) name = Some ps" for ps
  proof (rule balancedE [OF assms(2)])
    assume "distinct (map fst (stmts c))" "distinct (map fst (portals c))" "\<forall>x \<in> set (portals c). settled (snd x)"
      "open_stmts (dbstate c) = mset (stmt_ids (stmts c))"
      "open_rows (dbstate c) = {#} + mset (row_ids (portals c))" "led_db (dbstate c) = db_open c"
      "led_conn (dbstate c) = pinned c" "led_misuse (dbstate c) = False"
    then show ?thesis using stmt_ids_delete [OF _ that] by (simp add: tallied_def tracked_closes distinct_delete)
  qed
  have p: "tallied {#} (portal_close (tracked D) p (dbstate c)) (c\<lparr>portals := AList.delete name (portals c)\<rparr>)"
    if m: "map_of (portals c) name = Some p" for p
  proof (rule balancedE [OF assms(2)])
    assume b: "distinct (map fst (stmts c))" "distinct (map fst (portals c))" "\<forall>x \<in> set (portals c). settled (snd x)"
      "open_stmts (dbstate c) = mset (stmt_ids (stmts c))"
      "open_rows (dbstate c) = {#} + mset (row_ids (portals c))" "led_db (dbstate c) = db_open c"
      "led_conn (dbstate c) = pinned c" "led_misuse (dbstate c) = False"
    have sub: "\<forall>x \<in> set (AList.delete name (portals c)). settled (snd x)"
      using b(3) set_delete_sub by fast
    show ?thesis using b sub row_ids_delete [OF b(2) m] portal_close_entries [OF portal_row_open [OF assms(2) m], of D]
      by (simp add: tallied_def distinct_delete)
  qed
  show ?thesis using assms s p
    by (auto simp: handleCloseMessage_def Let_def split: if_splits option.splits)
qed

section \<open>Whole sessions\<close>

lemma fst_labelled: "fst (case m of (c, h) \<Rightarrow> (c, wrap_hres pre h)) = fst m"
  by (cases m) simp

lemma handle_balanced: "handle (tracked D) m c = Some r \<Longrightarrow> accounted c \<Longrightarrow> accounted (fst r)"
  by (cases m)
    (auto simp: handle_def labelled_def Let_def fst_labelled dest!: handleQuery_balanced handleParse_balanced handleBind_balanced
       handleDescribe_balanced handleExecute_balanced handleClose_balanced)

lemma loop_balanced: "serve_loop (tracked D) ms c = Some (c', e) \<Longrightarrow> accounted c \<Longrightarrow> accounted c'"
proof (induction ms arbitrary: c)
  case (Cons m ms)
  show ?case
  proof (cases "discarded m c \<or> m = Terminate")
    case False
    then obtain c1 h where "handle (tracked D) m c = Some (c1, h)"
      using Cons.prems by (auto split: option.splits)
    moreover from handle_balanced [OF this Cons.prems(2)] have "accounted c1" by simp
    ultimately show ?thesis using Cons False by (auto split: hres.splits)
  qed (use Cons in \<open>auto split: if_splits\<close>)
qed simp


section \<open>Startup\<close>

lemma exec_stmts_entries: "exec_stmts (tracked D) xs L = (e, L') \<Longrightarrow> entries L' = entries L"
proof (induction xs arbitrary: L)
  case (Cons x xs)
  obtain w q where x: "x = (w, q)" by (cases x)
  obtain y L1 where y: "d_exec (tracked D) L q = (y, L1)" by fastforce
  from Cons x y tracked_exec(1) [OF y] show ?case by (auto split: sum.splits)
qed simp

lemma run_inserts_entries: "run_inserts (tracked D) is L = (e, L') \<Longrightarrow> entries L' = entries L"
proof (induction "is" arbitrary: L)
  case (Cons i "is")
  obtain q args where i: "insert_stmt i = (q, args)" by fastforce
  obtain y L1 where y: "d_exec_args (tracked D) L q args = (y, L1)" by fastforce
  from Cons i y tracked_exec(2) [OF y] show ?case by (auto split: sum.splits)
qed simp

lemma read_tables_entries:
  assumes "read_tables (tracked D) L r acc = Some (x, L')" "snd r \<in># open_rows L"
  shows "entries L' = (open_stmts L, open_rows L - {#snd r#}, led_db L, led_conn L, led_misuse L)"
proof -
  have "E = tracked D \<longrightarrow> snd r \<in># open_rows L \<longrightarrow>
      entries (snd y) = (open_stmts L, open_rows L - {#snd r#}, led_db L, led_conn L, led_misuse L)"
    if "read_tables E L r acc = Some y" for E :: "('a ledger, 'b \<times> nat, 'c \<times> nat) driver" and y
  proof (rule read_tables.raw_induct [where P = "\<lambda>E L r acc y. E = tracked D \<longrightarrow> snd r \<in># open_rows L \<longrightarrow>
      entries (snd y) = (open_stmts L, open_rows L - {#snd r#}, led_db L, led_conn L, led_misuse L)", OF _ that], goal_cases)
    case (1 rec E L r acc y)
    have "entries (snd y) = (open_stmts L, open_rows L - {#snd r#}, led_db L, led_conn L, led_misuse L)"
      if e: "E = tracked D" and r: "snd r \<in># open_rows L"
    proof -
      obtain x L1 where n: "d_next E L r = (x, L1)" by (cases "d_next E L r")
      then have k: "entries L1 = entries L" using tracked_next e r by blast
      then have f: "open_rows L1 = open_rows L" "open_stmts L1 = open_stmts L" "led_db L1 = led_db L"
        "led_conn L1 = led_conn L" "led_misuse L1 = led_misuse L" by (simp_all add: entries_def)
      show ?thesis
      proof (cases "\<exists>v t. x = RowData v \<and> scan_table v = Inr t")
        case True
        then obtain t where "rec E L1 r (acc @ [t]) = Some y" using 1(2) n by auto
        from 1(1) [OF this] e r f show ?thesis by simp
      next
        case False
        then have "snd y = d_rows_close (tracked D) L1 r" using 1(2) n e
          by (auto split: row_step.splits sum.splits)
        then show ?thesis using r f by (simp add: tracked_closes)
      qed
    qed
    then show ?case by blast
  qed
  with assms show ?thesis by fastforce
qed

lemma setupEnum_entries:
  assumes "setupEnumCatalog (tracked D) L = Some (e, L')"
  shows "entries L' = entries L"
proof -
  let ?ddl = "map (\<lambda>ddl. (\<lambda>e. ErrWrap ''enum temp table: '' e [], ddl)) enumCatalogTables"
  obtain e1 L1 where x: "exec_stmts (tracked D) ?ddl L = (e1, L1)" by fastforce
  note k1 = exec_stmts_entries [OF x]
  obtain q L2 where q: "d_query (tracked D) L1 schemaQuery = (q, L2)" by fastforce
  show ?thesis
  proof (cases "e1 = None \<and> (\<exists>r. q = Inr r)")
    case True
    then obtain r where r: "e1 = None" "q = Inr r" by blast
    note k2 = tracked_opens(1) [OF q [unfolded r(2)]]
    with assms x q r obtain y L3 where y: "read_tables (tracked D) L2 r [] = Some (y, L3)"
      by (auto simp: setupEnumCatalog_def split: option.splits)
    have "entries L3 = entries L"
      using read_tables_entries [OF y] k1 k2 by (auto simp: entries_def)
    with assms x q r y show ?thesis
      by (auto simp: setupEnumCatalog_def split: sum.splits dest: run_inserts_entries)
  next
    case False
    with assms x q k1 show ?thesis
      by (auto simp: setupEnumCatalog_def split: option.splits sum.splits dest: tracked_fails(1))
  qed
qed

lemma createViews_entries:
  assumes "createCatalogViews (tracked D) db L = Some (e, L')"
  shows "entries L' = entries L"
proof -
  obtain e1 L1 where x: "setupEnumCatalog (tracked D) L = Some (e1, L1)"
    using assms by (auto simp: createCatalogViews_def split: option.splits)
  with assms setupEnum_entries [OF x] show ?thesis
    by (auto simp: createCatalogViews_def split: option.splits dest: exec_stmts_entries)
qed

lemma tracked_session:
  "d_open (tracked D) L path = (e, L') \<Longrightarrow> entries L' = (open_stmts L, open_rows L, e = None \<or> led_db L, led_conn L, led_misuse L)"
  "d_pin (tracked D) L = (e, L') \<Longrightarrow> entries L' = (open_stmts L, open_rows L, led_db L, e = None \<or> led_conn L, led_misuse L)"
  "d_unpin (tracked D) L = (e, L') \<Longrightarrow> entries L' = (open_stmts L, open_rows L, led_db L, False, led_misuse L \<or> \<not> led_conn L)"
  "d_shut (tracked D) L = (e, L') \<Longrightarrow> entries L' = (open_stmts L, open_rows L, False, led_conn L, led_misuse L \<or> \<not> led_db L)"
  by (auto simp: tracked_def run_base_def entries_def split: prod.splits)

lemma open_session_balanced:
  assumes "open_session (tracked D) srv rnd ps name c = Some r" "accounted c" "\<not> db_open c" "\<not> pinned c"
  shows "accounted (fst r)"
proof -
  define E where "E = (mset (stmt_ids (stmts c)), mset (row_ids (portals c)))"
  have c: "entries (dbstate c) = (fst E, snd E, False, False, False)" "distinct (map fst (stmts c))" "distinct (map fst (portals c))"
    "\<forall>x \<in> set (portals c). settled (snd x)"
    using assms(2-4) by (simp_all add: tallied_def E_def)
  obtain e1 L1 where o: "d_open (tracked D) (dbstate c) (dbPath srv name) = (e1, L1)" by fastforce
  obtain e2 L2 where p: "d_pin (tracked D) L1 = (e2, L2)" by fastforce
  let ?stmts = "map (\<lambda>(label, stmt). (\<lambda>e. ErrWrap label e [], stmt)) startup_stmts"
  obtain e3 L3 where x: "exec_stmts (tracked D) ?stmts L2 = (e3, L3)" by fastforce
  have k1: "entries L1 = (fst E, snd E, e1 = None, False, False)" using tracked_session(1) [OF o] c(1) by (simp add: entries_def)
  have k2: "entries L2 = (fst E, snd E, e1 = None, e2 = None, False)" using tracked_session(2) [OF p] k1 by (simp add: entries_def)
  have k3: "entries L3 = entries L2" using exec_stmts_entries [OF x] .
  have k4: "entries L4 = entries L2" if "createCatalogViews (tracked D) name L3 = Some (e4, L4)" for e4 L4
    using createViews_entries [OF that] k3 by simp
  have s: "stmts (fst (writeMessages ms d)) = stmts d" "portals (fst (writeMessages ms d)) = portals d"
    "db_open (fst (writeMessages ms d)) = db_open d" "pinned (fst (writeMessages ms d)) = pinned d"
    for ms and d :: "('a ledger, 'b \<times> nat, 'c \<times> nat) conn" by (simp_all add: writeMessages_def)
  show ?thesis
  proof (cases e1)
    case (Some e)
    with assms(1,3,4) o k1 c show ?thesis by (auto simp: open_session_def tallied_def E_def)
  next
    case None
    show ?thesis
    proof (cases e2)
      case (Some e)
      with assms(1,4) None o p k2 c show ?thesis by (auto simp: open_session_def tallied_def E_def)
    next
      case e2: None
      show ?thesis
      proof (cases e3)
        case (Some e)
        with assms(1) None e2 o p x k2 k3 c show ?thesis by (auto simp: open_session_def tallied_def E_def Let_def)
      next
        case e3: None
        with assms(1) None e2 o p x obtain e4 L4 where v: "createCatalogViews (tracked D) name L3 = Some (e4, L4)"
          by (auto simp: open_session_def Let_def split: option.splits)
        show ?thesis
        proof (cases e4)
          case (Some e)
          with assms(1) None e2 e3 o p x v k2 k4 [OF v] c show ?thesis by (auto simp: open_session_def tallied_def E_def Let_def)
        next
          case e4: None
          with assms(1) None e2 e3 o p x v k2 k4 [OF v] c show ?thesis
            by (auto simp: open_session_def Let_def) (simp add: tallied_def E_def s)
        qed
      qed
    qed
  qed
qed

lemma authenticate_balanced:
  "authenticate srv rnd ps msgs c = ((c', h), rest) \<Longrightarrow> accounted c' = accounted c \<and> db_open c' = db_open c \<and> pinned c' = pinned c"
  by (auto simp: authenticate_def refuse_def writeMessages_def tallied_def Let_def
      split: if_splits sum.splits list.splits frontend_msg.splits)


lemma startup_balanced:
  assumes "serveConnStartup (tracked D) srv rnd sus msgs c = Some ((c', h), rest)" "accounted c" "\<not> db_open c" "\<not> pinned c"
  shows "accounted c'"
  using assms
proof (induction sus arbitrary: c h)
  case (Cons su sus)
  have w: "accounted (fst (writeMessages ms d)) = accounted d" "db_open (fst (writeMessages ms d)) = db_open d"
    "pinned (fst (writeMessages ms d)) = pinned d" for ms and d :: "('a ledger, 'b \<times> nat, 'c \<times> nat) conn"
    by (simp_all) (simp_all add: writeMessages_def)
  show ?case
  proof (cases su)
    case (StartupMessage ps)
    obtain c1 h1 r1 where a: "authenticate srv rnd ps msgs c = ((c1, h1), r1)" by (metis surj_pair)
    note k = authenticate_balanced [OF a]
    have o: "accounted (fst r)" if "open_session (tracked D) srv rnd ps name c1 = Some r" for name r
      using open_session_balanced [OF that] k Cons.prems(2-4) by simp
    have wr: "accounted d" if "writeMessages ms c1 = (d, h')" for ms d h'
      using w(1) [of ms c1] that k Cons.prems(2) by simp
    from Cons.prems(1) StartupMessage a k Cons.prems(2) show ?thesis
      by (auto simp: handleStartupMessage_def Let_def split: hres.splits if_splits dest: o wr)
  next
    case SSLRequest
    obtain c1 h1 where x: "writeMessages [RawBytes ''N''] c = (c1, h1)" by fastforce
    have "accounted c1" "\<not> db_open c1" "\<not> pinned c1" using w [of "[RawBytes ''N'']" c] x Cons.prems(2-4) by simp_all
    with Cons SSLRequest x show ?thesis by (cases h1) auto
  qed (use Cons.prems in auto)
qed simp

lemma newConn_balanced: "accounted (newConn (new_ledger s) w)"
  by (simp add: tallied_def newConn_def new_ledger_def entries_def stmt_ids_def row_ids_def)

lemma serveConn_balanced:
  assumes "serveConn (tracked D) srv rnd sus msgs (newConn (new_ledger s) w) = Some (c, e)"
  shows "accounted c"
proof -
  obtain c1 h rest where x: "serveConnStartup (tracked D) srv rnd sus msgs (newConn (new_ledger s) w) = Some ((c1, h), rest)"
    using assms by (auto simp: serveConn_def split: option.splits)
  have "accounted c1"
    by (rule startup_balanced [OF x newConn_balanced]) (simp_all add: newConn_def)
  with assms x show ?thesis by (cases h) (auto simp: serveConn_def dest: loop_balanced)
qed

section \<open>Closing\<close>

lemma close_portals_entries:
  "open_rows L = mset (row_ids ps) + R \<Longrightarrow> entries (close_portals (tracked D) ps L) = (open_stmts L, R, led_db L, led_conn L, led_misuse L)"
proof (induction ps arbitrary: L)
  case Nil
  then show ?case by (simp add: close_portals_def entries_def row_ids_def)
next
  case (Cons x ps)
  obtain n p where x: "x = (n, p)" by (cases x)
  have o: "open_rows L = mset (row_id p) + (mset (row_ids ps) + R)" using Cons.prems x by (simp add: row_ids_def ac_simps)
  then have sub: "mset (row_id p) \<subseteq># open_rows L" by simp
  let ?L = "portal_close (tracked D) p L"
  have k: "entries ?L = (open_stmts L, mset (row_ids ps) + R, led_db L, led_conn L, led_misuse L)"
    using portal_close_entries [OF sub] o by (simp add: union_assoc)
  then have "open_rows ?L = mset (row_ids ps) + R" by (simp add: entries_def)
  from Cons.IH [OF this] k x show ?case by (simp add: close_portals_def entries_def)
qed

lemma close_stmts_entries:
  "open_stmts L = mset (stmt_ids ss) + R \<Longrightarrow> entries (close_stmts (tracked D) ss L) = (R, open_rows L, led_db L, led_conn L, led_misuse L)"
proof (induction ss arbitrary: L)
  case Nil
  then show ?case by (simp add: close_stmts_def entries_def stmt_ids_def)
next
  case (Cons x ss)
  obtain n ps where x: "x = (n, ps)" by (cases x)
  let ?L = "d_stmt_close (tracked D) L (ps_stmt ps)"
  have k: "entries ?L = (mset (stmt_ids ss) + R, open_rows L, led_db L, led_conn L, led_misuse L)"
    using Cons.prems x by (simp add: tracked_closes stmt_ids_def)
  then have "open_stmts ?L = mset (stmt_ids ss) + R" by (simp add: entries_def)
  from Cons.IH [OF this] k x show ?case by (simp add: close_stmts_def entries_def)
qed

lemma conn_close_entries:
  assumes "accounted c" "conn_close (tracked D) net c = (err, c')"
  shows "entries (dbstate c') = ({#}, {#}, False, False, False)"
proof -
  have e: "entries (dbstate c) = (mset (stmt_ids (stmts c)), mset (row_ids (portals c)), db_open c, pinned c, False)"
    using assms(1) by (simp add: tallied_def)
  let ?L1 = "close_portals (tracked D) (portals c) (dbstate c)"
  have k1: "entries ?L1 = (mset (stmt_ids (stmts c)), {#}, db_open c, pinned c, False)"
    using close_portals_entries [of "dbstate c" "portals c" "{#}"] e by (simp add: entries_def)
  let ?L2 = "close_stmts (tracked D) (stmts c) ?L1"
  have k2: "entries ?L2 = ({#}, {#}, db_open c, pinned c, False)"
    using close_stmts_entries [of ?L1 "stmts c" "{#}"] k1 by (simp add: entries_def)
  obtain e1 L3 where u: "(if pinned c then d_unpin (tracked D) ?L2 else (None, ?L2)) = (e1, L3)" by fastforce
  have k3: "entries L3 = ({#}, {#}, db_open c, False, False)"
    using u k2 tracked_session(3) [of D ?L2 e1 L3] by (auto simp: entries_def split: if_splits)
  obtain e2 L4 where v: "(if db_open c then d_shut (tracked D) L3 else (None, L3)) = (e2, L4)" by fastforce
  have "entries L4 = ({#}, {#}, False, False, False)"
    using v k3 tracked_session(4) [of D L3 e2 L4] by (auto simp: entries_def split: if_splits)
  with assms(2) u v show ?thesis by (auto simp: conn_close_def Let_def)
qed

text \<open>C4: Nothing leaks: whatever a client sends and however its connection ends (a closed
  socket, a fatal error, Terminate, a panic of a handler), closing the connection leaves no
  prepared statement, result set, pinned connection or database handle open, and nothing was
  closed twice and no closed result set read, in the session or at its end.\<close>

theorem connection_releases_everything:
  assumes "serveConn (tracked D) srv rnd sus msgs (newConn (new_ledger s) w) = Some (c, e)"
    and "conn_close (tracked D) net c = (err, c')"
  shows "open_stmts (dbstate c') = {#} \<and> open_rows (dbstate c') = {#} \<and> \<not> led_db (dbstate c') \<and>
    \<not> led_conn (dbstate c') \<and> \<not> led_misuse (dbstate c')"
  using conn_close_entries [OF serveConn_balanced [OF assms(1)] assms(2)] by (simp add: entries_def)

text \<open>In between, what is open is exactly what the session's names stand for.\<close>

theorem handles_accounted:
  assumes "serveConn (tracked D) srv rnd sus msgs (newConn (new_ledger s) w) = Some (c, e)"
  shows "open_stmts (dbstate c) = mset (map (\<lambda>(_, ps). snd (ps_stmt ps)) (stmts c)) \<and>
    open_rows (dbstate c) = mset (concat (map (\<lambda>(_, p). case bp_rows p of None \<Rightarrow> [] | Some r \<Rightarrow> [snd r]) (portals c)))"
  using serveConn_balanced [OF assms]
  by (simp add: tallied_def entries_def stmt_ids_def row_ids_def row_id_def [abs_def])

section \<open>A session that leaves a statement and a result set behind\<close>

lemma tracked_still:
  "d_exec (tracked still) L q = (Inr 0, L)" "d_exec_args (tracked still) L q a = (Inr 0, L)"
  "d_query (tracked still) L q = (Inr ((), led_next L), L\<lparr>led_next := Suc (led_next L), open_rows := add_mset (led_next L) (open_rows L)\<rparr>)"
  "d_stmt_query (tracked still) L t a = (Inr ((), led_next L), L\<lparr>led_next := Suc (led_next L), open_rows := add_mset (led_next L) (open_rows L)\<rparr>)"
  "d_prepare (tracked still) L q = (Inr ((), led_next L), L\<lparr>led_next := Suc (led_next L), open_stmts := add_mset (led_next L) (open_stmts L)\<rparr>)"
  "d_columns (tracked still) L r = Inr []"
  "d_next (tracked still) L r = (RowDone, L\<lparr>led_misuse := (led_misuse L \<or> snd r \<notin># open_rows L)\<rparr>)"
  "d_rows_close (tracked still) L r = L\<lparr>open_rows := open_rows L - {#snd r#}, led_misuse := (led_misuse L \<or> snd r \<notin># open_rows L)\<rparr>"
  "d_open (tracked still) L p = (None, L\<lparr>led_base := Suc (led_base L), led_db := True\<rparr>)"
  "d_pin (tracked still) L = (None, L\<lparr>led_conn := True\<rparr>)"
  by (simp_all add: tracked_def still_def run_base_def open_row_def open_stmt_def)

lemma exec_tracked_still: "exec_stmts (tracked still) xs L = (None, L)"
proof (induction xs arbitrary: L)
  case (Cons x xs)
  then show ?case by (cases x) (simp add: tracked_still)
qed simp

lemma insert_tracked_still: "run_inserts (tracked still) is L = (None, L)"
proof (induction "is" arbitrary: L)
  case (Cons i "is")
  then show ?case by (simp add: tracked_still split: prod.splits)
qed simp

definition demo_ledger :: "nat ledger" where
  "demo_ledger = \<lparr>led_base = 1, led_next = 1, open_stmts = {#}, open_rows = {#}, led_db = True, led_conn = True, led_misuse = False\<rparr>"

lemma views_tracked_still:
  "createCatalogViews (tracked still) db (demo_ledger\<lparr>led_next := 0\<rparr>) = Some (None, demo_ledger)"
  by (simp add: createCatalogViews_def setupEnumCatalog_def exec_tracked_still insert_tracked_still tracked_still read_tables.simps demo_ledger_def)

definition demo_session :: "(nat ledger, unit \<times> nat, unit \<times> nat) conn" where
  "demo_session = written (greeting demo_entropy demo_params)
     ((written [AuthenticationMD5Password ''abcd''] (newConn demo_ledger None))
        \<lparr>db_open := True, pinned := True, database := ''app/x.db''\<rparr>)"

lemma demo_session_starts:
  "serveConnStartup (tracked still) demo_server demo_entropy [StartupMessage demo_params] (demo_answer # rest) (newConn (new_ledger 0) None) =
     Some ((demo_session, HNil), rest)"
proof -
  have a: "authenticate demo_server demo_entropy demo_params (demo_answer # rest) (newConn (new_ledger 0) None :: (nat ledger, unit \<times> nat, unit \<times> nat) conn) =
     ((written [AuthenticationMD5Password ''abcd''] (newConn (new_ledger 0) None), HNil), rest)"
    by (rule demo_authenticate) (simp add: newConn_def)
  let ?c = "written [AuthenticationMD5Password ''abcd''] (newConn (new_ledger 0) None) :: (nat ledger, unit \<times> nat, unit \<times> nat) conn"
  have d: "(new_ledger (0::nat))\<lparr>led_base := Suc 0, led_db := True, led_conn := True\<rparr> = demo_ledger\<lparr>led_next := 0\<rparr>" "led_base (new_ledger (0::nat)) = 0"
    "dbstate (newConn (new_ledger (0::nat)) None :: (nat ledger, unit \<times> nat, unit \<times> nat) conn) = new_ledger 0" "wfail ?c = None"
    by (simp_all add: new_ledger_def demo_ledger_def newConn_def)
  have "open_session (tracked still) demo_server demo_entropy demo_params ''app/x.db'' ?c = Some (demo_session, HNil)"
    by (simp add: open_session_def tracked_still exec_tracked_still d views_tracked_still writeMessages_ok Let_def)
      (simp add: demo_session_def newConn_def written_def)
  then show ?thesis
    by (simp add: handleStartupMessage_def a demo_login wrap_hres_def)
qed

text \<open>The client prepares, binds and describes a query, and leaves.\<close>

definition demo_messages :: "frontend_msg list" where
  "demo_messages = [Parse [] ''SELECT 1'', Bind [] [] [], Describe (CHR ''P'') [], Terminate]"

lemma demo_select:
  "conn_rewrite ''app/x.db'' ''SELECT 1'' = ''SELECT 1''" "isRowReturning ''SELECT 1''" "countParams ''SELECT 1'' = 0"
  by code_simp+

lemma demo_session_sel:
  "database demo_session = ''app/x.db''" "pinned demo_session" "dbstate demo_session = demo_ledger" "stmts demo_session = []"
  "portals demo_session = []" "skipUntilSync demo_session = False" "wfail demo_session = None" "txStatus demo_session = TxIdle"
  by (simp_all add: demo_session_def newConn_def)

lemma demo_session_ends:
  "\<exists>c. serve_loop (tracked still) demo_messages demo_session = Some (c, Exited) \<and>
     open_stmts (dbstate c) = {#1#} \<and> open_rows (dbstate c) = {#2#}"
  unfolding demo_messages_def
  by (simp add: handle_def labelled_def handleParseMessage_def demo_session_sel demo_select tracked_still Let_def writeMessages_ok wrap_hres_def
    discarded_def handleBindMessage_def handleDescribeMessage_def portal_execute_def put_portal_def demo_ledger_def written_def writeMessages_def)

lemma demo_served:
  "\<exists>c. serveConn (tracked still) demo_server demo_entropy [StartupMessage demo_params] (demo_answer # demo_messages)
     (newConn (new_ledger 0) None) = Some (c, Exited) \<and> open_stmts (dbstate c) = {#1#} \<and> open_rows (dbstate c) = {#2#}"
  using demo_session_ends by (simp add: serveConn_def demo_session_starts del: serveConnStartup.simps)

theorem connection_releases_everything_witness:
  "\<exists>c. serveConn (tracked still) demo_server demo_entropy [StartupMessage demo_params] (demo_answer # demo_messages)
       (newConn (new_ledger 0) None) = Some (c, Exited) \<and> open_rows (dbstate c) = {#2#} \<and>
     open_rows (dbstate (snd (conn_close (tracked still) None c))) = {#} \<and>
     \<not> led_misuse (dbstate (snd (conn_close (tracked still) None c)))"
proof -
  obtain c where c: "serveConn (tracked still) demo_server demo_entropy [StartupMessage demo_params] (demo_answer # demo_messages)
     (newConn (new_ledger 0) None) = Some (c, Exited)" "open_rows (dbstate c) = {#2#}" using demo_served by blast
  from connection_releases_everything [OF c(1), of None "fst (conn_close (tracked still) None c)"] c show ?thesis
    by (metis prod.collapse)
qed

theorem handles_accounted_witness:
  "\<exists>c. open_stmts (dbstate c) = {#1#} \<and> mset (map (\<lambda>(_, ps). snd (ps_stmt ps)) (stmts (c :: (nat ledger, unit \<times> nat, unit \<times> nat) conn))) = {#1#}"
proof -
  obtain c where c: "serveConn (tracked still) demo_server demo_entropy [StartupMessage demo_params] (demo_answer # demo_messages)
     (newConn (new_ledger 0) None) = Some (c, Exited)" "open_stmts (dbstate c) = {#1#}" using demo_served by blast
  from handles_accounted [OF c(1)] c(2) show ?thesis by (intro exI [of _ c]) simp
qed

end
