(* ===== verification/Protocol.thy ===== *)
theory Protocol
  imports Session_Query
begin

text \<open>
  The protocol as a client may rely on it, and that sessions implement it.  The specification
  is a step relation on what the client can know of a session: the transaction status, whether
  messages are being discarded, and the queries behind the statement and portal names.  What
  the database answers is left open; which replies are possible in which state, in which
  order, and what they mean for the state is not.  The refinement theorem says that every
  session of \<open>Session\<close> is a run of this specification.
\<close>

section \<open>The specification\<close>

record proto =
  pr_db :: gostr
  pr_status :: tx_status
  pr_skip :: bool
  pr_stmts :: "gostr \<rightharpoonup> gostr"
  pr_portals :: "gostr \<rightharpoonup> gostr"

definition ends_tx :: "gostr \<Rightarrow> bool" where
  "ends_tx q \<longleftrightarrow> isTxCommit (leadingKeyword q) \<or> isTxRollback (leadingKeyword q)"

text \<open>The status after a statement completed, and after an error.\<close>

definition completed :: "gostr \<Rightarrow> tx_status \<Rightarrow> tx_status" where
  "completed q t = (if isTxBegin (leadingKeyword q) then TxInProgress else if ends_tx q then TxIdle else t)"

definition aborted :: "tx_status \<Rightarrow> tx_status" where
  "aborted t = (if t = TxInProgress then TxFailed else t)"

definition is_data :: "backend_msg list \<Rightarrow> bool" where
  "is_data rows \<longleftrightarrow> list_all (\<lambda>m. \<exists>vs. m = DataRow vs) rows"

definition is_error_msg :: "backend_msg \<Rightarrow> bool" where
  "is_error_msg m \<longleftrightarrow> (\<exists>e. m = errorResponse e)"

text \<open>The description of a result: its columns, or that there is none.\<close>

definition describes :: "backend_msg \<Rightarrow> bool" where
  "describes m \<longleftrightarrow> m = NoData \<or> (\<exists>fs. m = RowDescription fs)"

text \<open>Extended messages that may be answered by an error: not a Bind of a statement that exists,
  and in a failed transaction not a portal that ends it.\<close>

definition lets_through :: "proto \<Rightarrow> gostr \<Rightarrow> bool" where
  "lets_through P n \<longleftrightarrow> pr_status P = TxFailed \<and> (\<exists>q. pr_portals P n = Some q \<and> ends_tx q)"

fun may_fail :: "proto \<Rightarrow> frontend_msg \<Rightarrow> bool" where
  "may_fail P (Parse _ _) = True"
| "may_fail P (Bind _ s _) = (pr_stmts P s = None)"
| "may_fail P (Describe ty n) = (ty \<noteq> CHR ''P'' \<or> \<not> lets_through P n)"
| "may_fail P (Execute n) = (\<not> lets_through P n)"
| "may_fail P _ = False"

inductive pstep :: "proto \<Rightarrow> frontend_msg \<Rightarrow> backend_msg list \<Rightarrow> proto \<Rightarrow> bool" where
  discard: "pr_skip P \<Longrightarrow> m \<noteq> Sync \<Longrightarrow> pstep P m [] P"
| sync: "pstep P Sync [ReadyForQuery (pr_status P)] (P\<lparr>pr_skip := False\<rparr>)"
| flush: "\<not> pr_skip P \<Longrightarrow> pstep P Flush [] P"
| query_empty: "\<not> pr_skip P \<Longrightarrow> TrimSpace (conn_rewrite (pr_db P) q) = [] \<Longrightarrow>
    pstep P (Query q) [EmptyQueryResponse, ReadyForQuery (pr_status P)] P"
| query_done: "\<not> pr_skip P \<Longrightarrow> pr_status P \<noteq> TxFailed \<Longrightarrow> q' = conn_rewrite (pr_db P) q \<Longrightarrow> TrimSpace q' \<noteq> [] \<Longrightarrow>
    \<not> isRowReturning q' \<Longrightarrow> t = completed q' (pr_status P) \<Longrightarrow>
    pstep P (Query q) [CommandComplete (commandTag q' affected 0), ReadyForQuery t] (P\<lparr>pr_status := t\<rparr>)"
| query_rows: "\<not> pr_skip P \<Longrightarrow> pr_status P \<noteq> TxFailed \<Longrightarrow> q' = conn_rewrite (pr_db P) q \<Longrightarrow> TrimSpace q' \<noteq> [] \<Longrightarrow>
    isRowReturning q' \<Longrightarrow> is_data rows \<Longrightarrow> desc = [] \<or> desc = [RowDescription fs] \<Longrightarrow>
    pstep P (Query q) (desc @ rows @ [CommandComplete (commandTag q' 0 (int (length rows))), ReadyForQuery (pr_status P)]) P"
| query_error: "\<not> pr_skip P \<Longrightarrow> pr_status P \<noteq> TxFailed \<Longrightarrow> is_error_msg e \<Longrightarrow> t = aborted (pr_status P) \<Longrightarrow>
    pstep P (Query q) [e, ReadyForQuery t] (P\<lparr>pr_status := t\<rparr>)"
| query_refused: "\<not> pr_skip P \<Longrightarrow> pr_status P = TxFailed \<Longrightarrow> \<not> ends_tx (conn_rewrite (pr_db P) q) \<Longrightarrow>
    pstep P (Query q) [errorResponse ErrInFailedTransaction, ReadyForQuery TxFailed] P"
| query_rollback: "\<not> pr_skip P \<Longrightarrow> pr_status P = TxFailed \<Longrightarrow> ends_tx (conn_rewrite (pr_db P) q) \<Longrightarrow>
    pstep P (Query q) [CommandComplete ''ROLLBACK'', ReadyForQuery TxIdle] (P\<lparr>pr_status := TxIdle\<rparr>)"
| parse_ok: "\<not> pr_skip P \<Longrightarrow>
    pstep P (Parse n q) [ParseComplete] (P\<lparr>pr_stmts := (pr_stmts P)(n \<mapsto> conn_rewrite (pr_db P) q)\<rparr>)"
| bind_ok: "\<not> pr_skip P \<Longrightarrow> pr_stmts P s = Some q \<Longrightarrow>
    pstep P (Bind n s args) [BindComplete] (P\<lparr>pr_portals := (pr_portals P)(n \<mapsto> q)\<rparr>)"
| describe_statement: "\<not> pr_skip P \<Longrightarrow> pr_stmts P n = Some q \<Longrightarrow> describes d \<Longrightarrow>
    pstep P (Describe (CHR ''S'') n) [ParameterDescription (replicate (countParams q) 0), d] P"
| describe_portal: "\<not> pr_skip P \<Longrightarrow> pr_portals P n = Some q \<Longrightarrow> pr_status P \<noteq> TxFailed \<Longrightarrow> describes d \<Longrightarrow>
    pstep P (Describe (CHR ''P'') n) [d] P"
| describe_ending: "\<not> pr_skip P \<Longrightarrow> lets_through P n \<Longrightarrow> pstep P (Describe (CHR ''P'') n) [NoData] P"
| execute_done: "\<not> pr_skip P \<Longrightarrow> pr_portals P n = Some q \<Longrightarrow> pr_status P \<noteq> TxFailed \<Longrightarrow> is_data rows \<Longrightarrow>
    pstep P (Execute n) (rows @ [CommandComplete (commandTag q affected (int (length rows)))])
      (P\<lparr>pr_status := completed q (pr_status P)\<rparr>)"
| execute_rollback: "\<not> pr_skip P \<Longrightarrow> lets_through P n \<Longrightarrow>
    pstep P (Execute n) [CommandComplete ''ROLLBACK''] (P\<lparr>pr_status := TxIdle\<rparr>)"
| close_statement: "\<not> pr_skip P \<Longrightarrow> pstep P (CloseMsg (CHR ''S'') n) [CloseComplete] (P\<lparr>pr_stmts := (pr_stmts P)(n := None)\<rparr>)"
| close_portal: "\<not> pr_skip P \<Longrightarrow> pstep P (CloseMsg (CHR ''P'') n) [CloseComplete] (P\<lparr>pr_portals := (pr_portals P)(n := None)\<rparr>)"
| close_other: "\<not> pr_skip P \<Longrightarrow> ty \<notin> {CHR ''S'', CHR ''P''} \<Longrightarrow> pstep P (CloseMsg ty n) [CloseComplete] P"
| extended_error: "\<not> pr_skip P \<Longrightarrow> may_fail P m \<Longrightarrow> is_error_msg e \<Longrightarrow>
    pstep P m [e] (P\<lparr>pr_status := aborted (pr_status P), pr_skip := True\<rparr>)"

text \<open>Runs: the messages of the client, and what was sent back.\<close>

inductive prun :: "proto \<Rightarrow> frontend_msg list \<Rightarrow> backend_msg list \<Rightarrow> proto \<Rightarrow> bool" where
  prun_nil: "prun P [] [] P"
| prun_cons: "pstep P m out P1 \<Longrightarrow> prun P1 ms outs P2 \<Longrightarrow> prun P (m # ms) (out @ outs) P2"

section \<open>The abstraction\<close>

definition abs_conn :: "('s, 't, 'r) conn \<Rightarrow> proto" where
  "abs_conn c =
     \<lparr>pr_db = database c, pr_status = txStatus c, pr_skip = skipUntilSync c,
      pr_stmts = (\<lambda>n. map_option ps_query (map_of (stmts c) n)),
      pr_portals = (\<lambda>n. map_option (\<lambda>p. ps_query (bp_ps p)) (map_of (portals c) n))\<rparr>"

lemma abs_sel [simp]:
  "pr_db (abs_conn c) = database c" "pr_status (abs_conn c) = txStatus c" "pr_skip (abs_conn c) = skipUntilSync c"
  "pr_stmts (abs_conn c) n = map_option ps_query (map_of (stmts c) n)"
  "pr_portals (abs_conn c) n = map_option (\<lambda>p. ps_query (bp_ps p)) (map_of (portals c) n)"
  by (simp_all add: abs_conn_def)

lemma abs_written [simp]: "abs_conn (written ms c) = abs_conn c"
  by (simp add: abs_conn_def)

text \<open>The statement and the count of placeholders belong together.\<close>

definition counted :: "('s, 't, 'r) conn \<Rightarrow> bool" where
  "counted c \<longleftrightarrow> (\<forall>x \<in> set (stmts c). ps_nparams (snd x) = countParams (ps_query (snd x)))"

definition replied :: "('s, 't, 'r) conn \<Rightarrow> ('s, 't, 'r) conn \<Rightarrow> backend_msg list \<Rightarrow> bool" where
  "replied c c' out \<longleftrightarrow> concat (sent c') = concat (sent c) @ out \<and> wfail c' = None"

definition refines :: "('s, 't, 'r) conn \<Rightarrow> frontend_msg \<Rightarrow> (('s, 't, 'r) conn \<times> hres) option \<Rightarrow> bool" where
  "refines c m r \<longleftrightarrow>
     (\<forall>c'. r = Some (c', HNil) \<longrightarrow> (\<exists>out. pstep (abs_conn c) m out (abs_conn c') \<and> replied c c' out))"

lemma refinesI:
  assumes "pstep (abs_conn c) m out P" "abs_conn c1 = P" "sent c1 = sent c" "wfail c1 = None"
  shows "refines c m (Some (writeMessages out c1))"
  using assms by (auto simp: refines_def replied_def writeMessages_ok)

lemma refines_stop [simp]: "refines c m None" "refines c m (Some (c1, HPanic))" "refines c m (Some (c1, HErr e))"
  by (simp_all add: refines_def)

lemma refines_labelled: "refines c m r \<Longrightarrow> refines c m (labelled pre r)"
  by (cases r) (auto simp: refines_def labelled_def wrap_hres_def split: hres.splits)

text \<open>Connections with the same visible fields.\<close>

definition same_view :: "('s, 't, 'r) conn \<Rightarrow> ('s, 't, 'r) conn \<Rightarrow> bool" where
  "same_view c c1 \<longleftrightarrow> abs_conn c1 = abs_conn c \<and> sent c1 = sent c \<and> wfail c1 = wfail c"

lemma same_view_db [simp]: "same_view c c" "same_view c (c1\<lparr>dbstate := s\<rparr>) = same_view c c1"
  by (simp_all add: same_view_def abs_conn_def)

lemma same_view_put [simp]:
  "map_of (portals c) n = Some p \<Longrightarrow> bp_ps p1 = bp_ps p \<Longrightarrow> same_view c (put_portal n p1 s c)"
  by (auto simp: same_view_def abs_conn_def put_portal_def update_conv' fun_eq_iff)

lemma abs_fail: "abs_conn (fail_tx c) = (abs_conn c)\<lparr>pr_status := aborted (txStatus c)\<rparr>"
  by (simp add: abs_conn_def fail_tx_def aborted_def)

lemma abs_skip: "abs_conn (c\<lparr>skipUntilSync := b\<rparr>) = (abs_conn c)\<lparr>pr_skip := b\<rparr>"
  by (simp add: abs_conn_def)

lemma abs_note: "abs_conn (noteCompleted (leadingKeyword q) c) = (abs_conn c)\<lparr>pr_status := completed q (txStatus c)\<rparr>"
  by (simp add: abs_conn_def noteCompleted_def completed_def ends_tx_def)

lemma visible [simp]:
  "sent (fail_tx c) = sent c" "wfail (fail_tx c) = wfail c" "sent (noteCompleted kw c) = sent c" "wfail (noteCompleted kw c) = wfail c"
  "txStatus (noteCompleted (leadingKeyword q) c) = completed q (txStatus c)" "txStatus (fail_tx c) = aborted (txStatus c)"
  by (simp_all add: fail_tx_def noteCompleted_def completed_def ends_tx_def aborted_def)

lemma refines_fail:
  assumes "same_view c c1" "\<not> skipUntilSync c" "wfail c = None" "may_fail (abs_conn c) m"
  shows "refines c m (Some (failExtended e c1))"
proof -
  have "pstep (abs_conn c) m [errorResponse e] ((abs_conn c)\<lparr>pr_status := aborted (txStatus c), pr_skip := True\<rparr>)"
    using assms by (intro extended_error [where P = "abs_conn c", simplified]) (auto simp: is_error_msg_def)
  moreover have "txStatus c1 = txStatus c" using assms(1) by (metis same_view_def abs_sel(2))
  ultimately show ?thesis unfolding failExtended_def writeError_def using assms(1,3)
    by (intro refinesI) (auto simp: same_view_def abs_fail abs_skip)
qed

lemma refines_fail_simple:
  assumes "same_view c c1" "\<not> skipUntilSync c" "wfail c = None" "txStatus c \<noteq> TxFailed"
  shows "refines c (Query q) (Some (failSimple e c1))"
proof -
  have t: "txStatus c1 = txStatus c" using assms(1) by (metis same_view_def abs_sel(2))
  have "pstep (abs_conn c) (Query q) [errorResponse e, ReadyForQuery (aborted (txStatus c))] ((abs_conn c)\<lparr>pr_status := aborted (txStatus c)\<rparr>)"
    using assms by (intro query_error) (auto simp: is_error_msg_def)
  then show ?thesis unfolding failSimple_def writeErrorReady_def Let_def using assms(1,3) t
    by (auto simp: same_view_def abs_fail aborted_def intro!: refinesI)
qed

lemma refines_closing: "refines c m (Some r) \<Longrightarrow> refines c m (Some (closing D rs r))"
  by (cases r) (auto simp: refines_def closing_def replied_def abs_conn_def)

lemma stream_rows_is_data:
  assumes "stream_rows D s r oids buf n = Some (e, buf', n', s')"
  obtains rows where "buf' = buf @ rows" "n' = n + int (length rows)" "is_data rows"
  using stream_rows_data [OF assms] by (auto simp: is_data_def)

text \<open>A simple query: in a failed transaction, without rows, and with rows.\<close>

lemma failed_query_refines:
  assumes "\<not> skipUntilSync c" "wfail c = None" "q' = conn_rewrite (database c) q" "TrimSpace q' \<noteq> []" "txStatus c = TxFailed"
  shows "refines c (Query q) (handleQueryMessage D q c)"
proof -
  have "refines c (Query q) (Some (writeErrorReady TxFailed ErrInFailedTransaction c))" if "\<not> ends_tx q'"
    unfolding writeErrorReady_def using query_refused [of "abs_conn c" q] that assms
    by (intro refinesI [OF _ refl]) auto
  moreover have "refines c (Query q) (Some (writeMessages [CommandComplete ''ROLLBACK'', ReadyForQuery TxIdle] (rollbackFailed D c)))"
    if "ends_tx q'"
    using query_rollback [of "abs_conn c" q] that assms
    by (intro refinesI) (auto simp: rollbackFailed_def abs_conn_def)
  ultimately show ?thesis using assms(3-5)
    by (auto simp: handleQueryMessage_def Let_def ends_tx_def)
qed

lemma exec_refines:
  assumes u: "\<not> skipUntilSync c" and w: "wfail c = None" and q: "q' = conn_rewrite (database c) q" "TrimSpace q' \<noteq> []"
    and live: "txStatus c \<noteq> TxFailed" and e: "\<not> isRowReturning q'"
  shows "refines c (Query q) (execSimpleQuery D q' c)"
proof -
  obtain x s where x: "d_exec D (dbstate c) q' = (x, s)" by fastforce
  have "refines c (Query q) (Some (writeMessages [CommandComplete (commandTag q' a 0), ReadyForQuery (completed q' (txStatus c))]
      (noteCompleted (leadingKeyword q') (c\<lparr>dbstate := s\<rparr>))))" for a
    using query_done [of "abs_conn c" q' q] e live q u w
    by (intro refinesI) (auto simp: abs_note, auto simp: abs_conn_def)
  with refines_fail_simple [OF _ u w live] show ?thesis
    by (cases x) (simp_all add: execSimpleQuery_def x Let_def visible(5) del: noteCompleted_sel)
qed

lemma stream_refines:
  assumes u: "\<not> skipUntilSync c" and w: "wfail c = None" and q: "q' = conn_rewrite (database c) q" "TrimSpace q' \<noteq> []"
    and live: "txStatus c \<noteq> TxFailed" and r: "isRowReturning q'"
  shows "refines c (Query q) (streamSimpleQuery D q' c)"
proof (cases "pinned c \<and> (\<exists>r s cols. d_query D (dbstate c) q' = (Inr r, s) \<and> d_columns D s r = Inr cols)")
  case True
  then obtain r s cols where o: "pinned c" "d_query D (dbstate c) q' = (Inr r, s)" "d_columns D s r = Inr cols" by blast
  define desc where "desc = (if cols = [] then [] else [toRowDescription cols (columnOIDs cols)])"
  have d: "desc = [] \<or> desc = [RowDescription (map (\<lambda>(col, oid). \<lparr>fd_name = pgColumnName (col_name col), fd_oid = oid, fd_size = typeSize oid\<rparr>)
     (zip cols (columnOIDs cols)))]" by (simp add: desc_def toRowDescription_def)
  have finish: "refines c (Query q) (Some (writeMessages
      (desc @ rows @ [CommandComplete (commandTag q' 0 (int (length rows))), ReadyForQuery (txStatus c)]) (c\<lparr>dbstate := s'\<rparr>)))"
    if "is_data rows" for rows s'
    using query_rows [of "abs_conn c" q' q rows desc] d that assms
    by (intro refinesI [where P = "abs_conn c"]) (auto simp: abs_conn_def)
  show ?thesis
  proof (cases "stream_rows D s r (columnOIDs cols) desc 0")
    case None
    with o show ?thesis by (simp add: streamSimpleQuery_def desc_def Let_def)
  next
    case (Some y)
    obtain e buf n s' where y: "y = (e, buf, n, s')" by (cases y)
    obtain rows where rows: "buf = desc @ rows" "n = int (length rows)" "is_data rows"
      using stream_rows_is_data [OF Some [unfolded y]] by auto
    from finish [OF rows(3)] refines_fail_simple [OF _ u w live]
    show ?thesis using o Some y rows
      by (cases e) (auto simp: streamSimpleQuery_def desc_def [symmetric] Let_def intro!: refines_closing)
  qed
next
  case False
  with refines_fail_simple [OF _ u w live] show ?thesis
    by (auto simp: streamSimpleQuery_def split: prod.splits sum.splits intro!: refines_closing)
qed

lemma query_refines:
  assumes u: "\<not> skipUntilSync c" and w: "wfail c = None"
  shows "refines c (Query q) (handleQueryMessage D q c)"
proof -
  define q' where "q' = conn_rewrite (database c) q"
  consider "TrimSpace q' = []" | "TrimSpace q' \<noteq> []" "txStatus c = TxFailed" | "TrimSpace q' \<noteq> []" "txStatus c \<noteq> TxFailed"
    by blast
  then show ?thesis
  proof cases
    case 1
    have "refines c (Query q) (Some (writeMessages [EmptyQueryResponse, ReadyForQuery (txStatus c)] c))"
      using query_empty [of "abs_conn c" q] 1 u w by (intro refinesI [OF _ refl]) (auto simp: q'_def)
    with 1 show ?thesis by (simp add: handleQueryMessage_def q'_def Let_def)
  next
    case 2
    show ?thesis by (rule failed_query_refines [OF u w q'_def 2])
  next
    case 3
    with exec_refines [OF u w q'_def 3] stream_refines [OF u w q'_def 3] show ?thesis
      by (auto simp: handleQueryMessage_def q'_def Let_def)
  qed
qed

lemma parse_refines:
  assumes "\<not> skipUntilSync c" "wfail c = None"
  shows "refines c (Parse n q) (handleParseMessage D n q c)"
proof -
  define q' where "q' = conn_rewrite (database c) q"
  obtain x s where x: "d_prepare D (dbstate c) q' = (x, s)" by fastforce
  have "refines c (Parse n q) (Some (writeMessages [ParseComplete] (c\<lparr>dbstate := s1, stmts := AList.update n ps (stmts c)\<rparr>)))"
    if "ps_query ps = q'" for s1 ps
    by (rule refinesI, rule parse_ok) (use that assms in \<open>auto simp: q'_def abs_conn_def update_conv' fun_eq_iff\<close>)
  moreover have "refines c (Parse n q) (Some (failExtended e (c\<lparr>dbstate := s\<rparr>)))" for e
    using assms by (intro refines_fail) simp_all
  ultimately show ?thesis
    by (cases x) (auto simp: handleParseMessage_def q'_def [symmetric] x Let_def)
qed

lemma bind_refines:
  assumes "\<not> skipUntilSync c" "wfail c = None"
  shows "refines c (Bind n st args) (handleBindMessage D n st args c)"
proof (cases "map_of (stmts c) st")
  case None
  with assms refines_fail [of c c "Bind n st args"] show ?thesis by (simp add: handleBindMessage_def)
next
  case (Some ps)
  have "refines c (Bind n st args) (Some (writeMessages [BindComplete] (c\<lparr>dbstate := s1, portals := AList.update n p (portals c)\<rparr>)))"
    if "bp_ps p = ps" for s1 p
    by (rule refinesI, rule bind_ok [of _ _ "ps_query ps"]) (use that assms Some in \<open>auto simp: abs_conn_def update_conv' fun_eq_iff\<close>)
  with Some show ?thesis by (simp add: handleBindMessage_def Let_def)
qed

lemma portal_execute_ps: "portal_execute D p s = (e, p1, s1) \<Longrightarrow> bp_ps p1 = bp_ps p"
  by (auto simp: portal_execute_def Let_def split: if_splits prod.splits sum.splits)

lemma describes_desc: "describes (rowDescriptionOrNoData cols oids)"
  by (auto simp: describes_def rowDescriptionOrNoData_def toRowDescription_def)

lemma refines_same:
  "pstep (abs_conn c) m out (abs_conn c) \<Longrightarrow> same_view c c1 \<Longrightarrow> wfail c = None \<Longrightarrow> refines c m (Some (writeMessages out c1))"
  by (rule refinesI) (auto simp: same_view_def)

lemma describe_statement_refines:
  assumes "\<not> skipUntilSync c" "wfail c = None" "counted c" "map_of (stmts c) n = Some ps"
  shows "refines c (Describe (CHR ''S'') n) (describeStatement D ps c)"
proof -
  have k: "ps_nparams ps = countParams (ps_query ps)" using assms(3,4) by (auto simp: counted_def dest!: map_of_SomeD)
  have "pstep (abs_conn c) (Describe (CHR ''S'') n) [ParameterDescription (replicate (ps_nparams ps) 0), rowDescriptionOrNoData cols oids] (abs_conn c)"
    for cols oids using describe_statement [of "abs_conn c" n "ps_query ps"] assms describes_desc by (simp add: k)
  with assms show ?thesis
    by (auto simp: describeStatement_def Let_def intro!: refines_same refines_fail split: prod.splits sum.splits)
qed

lemma describe_refines:
  assumes "\<not> skipUntilSync c" "wfail c = None" "counted c"
  shows "refines c (Describe ty n) (handleDescribeMessage D ty n c)"
proof -
  consider "ty = CHR ''S''" | "ty = CHR ''P''" | "ty \<notin> {CHR ''S'', CHR ''P''}" by blast
  then show ?thesis
  proof cases
    case 1
    with assms describe_statement_refines [OF assms] show ?thesis
      by (auto simp: handleDescribeMessage_def intro!: refines_fail split: option.splits)
  next
    case 2
    show ?thesis
    proof (cases "map_of (portals c) n")
      case None
      with 2 assms show ?thesis by (auto simp: handleDescribeMessage_def lets_through_def intro!: refines_fail)
    next
      case (Some p)
      show ?thesis
      proof (cases "txStatus c = TxFailed")
        case True
        have "refines c (Describe (CHR ''P'') n) (Some (writeMessages [NoData] c))" if "ends_tx (ps_query (bp_ps p))"
          using describe_ending [of "abs_conn c" n] that True Some assms by (intro refines_same) (auto simp: lets_through_def)
        with 2 Some True assms show ?thesis
          by (auto simp: handleDescribeMessage_def Let_def ends_tx_def lets_through_def intro!: refines_fail)
      next
        case False
        obtain e p1 s where x: "portal_execute D p (dbstate c) = (e, p1, s)" using prod_cases3 by blast
        have "pstep (abs_conn c) (Describe (CHR ''P'') n) [rowDescriptionOrNoData cols oids] (abs_conn c)" for cols oids
          using describe_portal [of "abs_conn c" n "ps_query (bp_ps p)"] False Some assms describes_desc by simp
        with 2 Some False assms x portal_execute_ps [OF x] show ?thesis
          by (auto simp: handleDescribeMessage_def lets_through_def intro!: refines_fail refines_same split: option.splits)
      qed
    qed
  next
    case 3
    with assms show ?thesis by (auto simp: handleDescribeMessage_def intro!: refines_fail)
  qed
qed

lemma complete_refines:
  assumes "\<not> skipUntilSync c" "wfail c = None" "map_of (portals c) n = Some p" "txStatus c \<noteq> TxFailed"
    and "bp_ps p1 = bp_ps p" "is_data rows" "k = int (length rows)"
  shows "refines c (Execute n) (Some (completeExecute (leadingKeyword (ps_query (bp_ps p))) p1 rows k (put_portal n p1 s c)))"
proof -
  have v: "same_view c (put_portal n p1 s c)" using assms(3,5) by simp
  then have t: "txStatus (put_portal n p1 s c) = txStatus c" by (simp add: put_portal_def)
  show ?thesis unfolding completeExecute_def Let_def
    using execute_done [of "abs_conn c" n "ps_query (bp_ps p)" rows] assms v t
    by (intro refinesI) (auto simp: same_view_def abs_note)
qed

lemma execute_refines:
  assumes "\<not> skipUntilSync c" "wfail c = None"
  shows "refines c (Execute n) (handleExecuteMessage D n c)"
proof (cases "map_of (portals c) n")
  case None
  with assms show ?thesis by (auto simp: handleExecuteMessage_def lets_through_def intro!: refines_fail)
next
  case (Some p)
  let ?kw = "leadingKeyword (ps_query (bp_ps p))"
  show ?thesis
  proof (cases "txStatus c = TxFailed")
    case True
    have "refines c (Execute n) (Some (writeMessages [CommandComplete ''ROLLBACK''] (rollbackFailed D c)))" if "ends_tx (ps_query (bp_ps p))"
      using execute_rollback [of "abs_conn c" n] that True Some assms
      by (intro refinesI) (auto simp: lets_through_def rollbackFailed_def, auto simp: abs_conn_def)
    with Some True assms show ?thesis
      by (auto simp: handleExecuteMessage_def Let_def ends_tx_def lets_through_def intro!: refines_fail)
  next
    case False
    obtain e p1 s where x: "portal_execute D p (dbstate c) = (e, p1, s)" using prod_cases3 by blast
    note ps = portal_execute_ps [OF x]
    have f: "refines c (Execute n) (Some (failExtended er (put_portal n p2 s2 c)))" if "bp_ps p2 = bp_ps p" for er p2 s2
      using that Some False assms by (intro refines_fail) (simp_all add: lets_through_def)
    show ?thesis
    proof (cases "e = None \<and> bp_rows p1 \<noteq> None")
      case True
      then obtain r where r: "bp_rows p1 = Some r" "e = None" by blast
      show ?thesis
      proof (cases "stream_rows D s r (bp_oids p1) [] 0")
        case None
        with Some False x r show ?thesis by (simp add: handleExecuteMessage_def)
      next
        case st: (Some y)
        obtain o' buf k s1 where y: "y = (o', buf, k, s1)" by (cases y)
        obtain rows where rows: "buf = rows" "k = int (length rows)" "is_data rows"
          using stream_rows_is_data [OF st [unfolded y]] by auto
        let ?p2 = "p1\<lparr>bp_rows := None\<rparr>"
        have "refines c (Execute n) (Some (completeExecute ?kw ?p2 buf k (put_portal n ?p2 s2 c)))" for s2
          using rows ps by (intro complete_refines [OF assms Some False]) simp_all
        with Some False x r st y f [of ?p2] ps show ?thesis
          by (cases o') (simp_all add: handleExecuteMessage_def Let_def)
      qed
    next
      case no: False
      have "refines c (Execute n) (Some (completeExecute ?kw p1 [] 0 (put_portal n p1 s c)))"
        using ps by (intro complete_refines [OF assms Some False]) (simp_all add: is_data_def)
      with Some False x no f [of p1] ps show ?thesis
        by (auto simp: handleExecuteMessage_def Let_def split: option.splits)
    qed
  qed
qed

lemma close_refines:
  assumes "\<not> skipUntilSync c" "wfail c = None"
  shows "refines c (CloseMsg ty n) (handleCloseMessage D ty n c)"
proof -
  consider "ty = CHR ''S''" | "ty = CHR ''P''" | "ty \<notin> {CHR ''S'', CHR ''P''}" by blast
  then show ?thesis
  proof cases
    case 1
    have "refines c (CloseMsg ty n) (Some (writeMessages [CloseComplete] c1))"
      if "abs_conn c1 = (abs_conn c)\<lparr>pr_stmts := (pr_stmts (abs_conn c))(n := None)\<rparr>" "sent c1 = sent c" "wfail c1 = None" for c1
      unfolding 1 using that assms by (intro refinesI [OF close_statement]) simp_all
    moreover have "abs_conn c = (abs_conn c)\<lparr>pr_stmts := (pr_stmts (abs_conn c))(n := None)\<rparr>"
      if "map_of (stmts c) n = None"
      using that by (auto simp: abs_conn_def fun_eq_iff)
    ultimately show ?thesis using 1 assms
      by (auto simp: handleCloseMessage_def Let_def split: option.splits) (auto simp: abs_conn_def delete_conv' fun_eq_iff)
  next
    case 2
    have "refines c (CloseMsg ty n) (Some (writeMessages [CloseComplete] c1))"
      if "abs_conn c1 = (abs_conn c)\<lparr>pr_portals := (pr_portals (abs_conn c))(n := None)\<rparr>" "sent c1 = sent c" "wfail c1 = None" for c1
      unfolding 2 using that assms by (intro refinesI [OF close_portal]) simp_all
    moreover have "abs_conn c = (abs_conn c)\<lparr>pr_portals := (pr_portals (abs_conn c))(n := None)\<rparr>"
      if "map_of (portals c) n = None"
      using that by (auto simp: abs_conn_def fun_eq_iff)
    ultimately show ?thesis using 2 assms
      by (auto simp: handleCloseMessage_def Let_def split: option.splits) (auto simp: abs_conn_def delete_conv' fun_eq_iff)
  next
    case 3
    then show ?thesis using close_other [of "abs_conn c" ty n] assms
      by (auto simp: handleCloseMessage_def Let_def intro!: refines_same)
  qed
qed


section \<open>The refinement\<close>

lemma handle_refines:
  assumes "handle D m c = Some (c', HNil)" "\<not> discarded m c" "m \<noteq> Terminate" "wfail c = None" "counted c"
  shows "\<exists>out. pstep (abs_conn c) m out (abs_conn c') \<and> replied c c' out"
proof (cases "m = Sync")
  case True
  have "refines c Sync (Some (writeMessages [ReadyForQuery (txStatus c)] (c\<lparr>skipUntilSync := False\<rparr>)))"
    using sync [of "abs_conn c"] assms(4) by (intro refinesI) (auto simp: abs_skip)
  then have "refines c Sync (handle D Sync c)"
    using refines_labelled by (simp add: handle_def)
  with assms(1) True show ?thesis by (simp add: refines_def)
next
  case False
  with assms(2) have u: "\<not> skipUntilSync c" by (simp add: discarded_def)
  note r = query_refines [OF u assms(4)] parse_refines [OF u assms(4)] bind_refines [OF u assms(4)]
    describe_refines [OF u assms(4,5)] execute_refines [OF u assms(4)] close_refines [OF u assms(4)]
  have "refines c m (handle D m c)"
  proof (cases m)
    case Flush
    then show ?thesis using flush [of "abs_conn c"] u assms(4)
      by (auto simp: handle_def refines_def replied_def)
  qed (use False assms(3) in \<open>auto simp: handle_def intro!: refines_labelled r\<close>)
  with assms(1) show ?thesis by (simp add: refines_def)
qed

lemma handle_counted:
  assumes "handle D m c = Some (c', HNil)" "counted c"
  shows "counted c'"
proof (cases m)
  case (Query q)
  with assms(1) have "handleQueryMessage D q c = Some (c', HNil)" by (simp add: handle_def labelled_HNil)
  from query_handler.simple [OF this] assms(2) show ?thesis by (simp add: counted_def)
next
  case (Parse n q)
  with assms show ?thesis
    by (auto simp: handle_def labelled_HNil counted_def handleParseMessage_def Let_def split: if_splits prod.splits sum.splits
        dest!: writeMessages_sel failExtended_sel set_mp [OF set_update_sub]) force+
next
  case Sync
  with assms show ?thesis by (auto simp: handle_def labelled_HNil Let_def counted_def dest!: writeMessages_sel)
qed (use assms stmts_other stmts_execute in \<open>fastforce simp: handle_def labelled_HNil counted_def\<close>)+

text \<open>A handler that does not go on leaves the session as it was, if the socket works.\<close>

lemma write_works: "wfail c = None \<Longrightarrow> snd (writeMessages ms c) = HNil" "wfail c = None \<Longrightarrow> snd (failSimple e c) = HNil"
  "wfail c = None \<Longrightarrow> snd (failExtended e c) = HNil" "wfail c = None \<Longrightarrow> snd (writeErrorReady t e c) = HNil"
  "wfail c = None \<Longrightarrow> snd (completeExecute kw p b k c) = HNil" "snd (closing D r x) = snd x"
  by (simp_all add: split_beta writeMessages_def failSimple_def failExtended_def writeErrorReady_def writeError_def completeExecute_def Let_def closing_def)

definition goes_on :: "('s, 't, 'r) conn \<Rightarrow> (('s, 't, 'r) conn \<times> hres) option \<Rightarrow> bool" where
  "goes_on c r \<longleftrightarrow> (\<forall>x. r = Some x \<longrightarrow> snd x = HNil \<or> x = (c, HPanic))"

lemma goes_onI [intro]: "snd x = HNil \<Longrightarrow> goes_on c (Some x)" "goes_on c None" "goes_on c (Some (c, HPanic))"
  by (simp_all add: goes_on_def)

lemma handlers_go_on:
  assumes "wfail c = None"
  shows "goes_on c (handleQueryMessage D q c)" "goes_on c (handleParseMessage D n q c)" "goes_on c (handleBindMessage D n st args c)"
    "goes_on c (handleDescribeMessage D ty n c)" "goes_on c (handleExecuteMessage D n c)" "goes_on c (handleCloseMessage D ty n c)"
proof -
  have "goes_on c (streamSimpleQuery D q' c)" for q'
    unfolding streamSimpleQuery_def Let_def using assms
    by (auto simp: write_works split: prod.splits sum.splits option.splits stream_end.splits)
  moreover have "goes_on c (execSimpleQuery D q' c)" for q'
    unfolding execSimpleQuery_def Let_def using assms by (auto simp: write_works split: prod.splits sum.splits)
  ultimately show "goes_on c (handleQueryMessage D q c)"
    unfolding handleQueryMessage_def Let_def using assms by (auto simp: write_works)
  show "goes_on c (handleParseMessage D n q c)"
    unfolding handleParseMessage_def Let_def using assms by (auto simp: write_works split: prod.splits sum.splits)
  show "goes_on c (handleBindMessage D n st args c)"
    unfolding handleBindMessage_def Let_def using assms by (auto simp: write_works split: option.splits)
  have "goes_on c (describeStatement D ps c)" for ps
    unfolding describeStatement_def Let_def using assms by (auto simp: write_works split: prod.splits sum.splits)
  then show "goes_on c (handleDescribeMessage D ty n c)"
    unfolding handleDescribeMessage_def Let_def using assms
    by (auto simp: write_works put_portal_def split: option.splits prod.splits)
  show "goes_on c (handleExecuteMessage D n c)"
    unfolding handleExecuteMessage_def Let_def using assms
    by (auto simp: write_works put_portal_def split: option.splits prod.splits stream_end.splits)
  show "goes_on c (handleCloseMessage D ty n c)"
    unfolding handleCloseMessage_def Let_def using assms by (auto simp: write_works split: option.splits)
qed

lemma goes_on_labelled: "goes_on c r \<Longrightarrow> goes_on c (labelled pre r)"
  by (cases r) (auto simp: goes_on_def labelled_def wrap_hres_def split: hres.splits)

text \<open>Why a session ended: the socket was closed, the client said goodbye, it sent something that
  is not part of a session, or (last case) a handler panicked.\<close>

fun ended_by :: "serve_end \<Rightarrow> frontend_msg list \<Rightarrow> bool" where
  "ended_by e [] = (e = eof)"
| "ended_by e (Terminate # _) = (e = Exited)"
| "ended_by e (PasswordMessage _ # _) = (e = Closed (ErrMsg ''unexpected message type''))"
| "ended_by e (OtherMsg _ # _) = (e = Closed (ErrMsg ''unexpected message type''))"
| "ended_by e (_ # _) = (e = Panicked)"

lemma handle_stops:
  assumes "handle D m c = Some (c', h)" "wfail c = None" "h \<noteq> HNil" "m \<noteq> Terminate"
  shows "c' = c \<and> ended_by (case h of HErr e \<Rightarrow> Closed e | _ \<Rightarrow> Panicked) (m # rest)"
proof (cases "(\<exists>x. m = PasswordMessage x) \<or> (\<exists>x. m = OtherMsg x)")
  case True
  with assms show ?thesis by (auto simp: handle_def)
next
  case False
  have "goes_on c (handle D m c)"
    using False handlers_go_on [OF assms(2)] assms(2,4)
    by (cases m) (auto simp: handle_def Let_def write_works intro!: goes_on_labelled)
  with assms(1,3) have "c' = c" "h = HPanic" by (auto simp: goes_on_def)
  with False assms(1,3,4) show ?thesis by (cases m) (auto simp: handle_def)
qed

lemma loop_refines:
  assumes "serve_loop D ms c = Some (c', e)" "wfail c = None" "counted c"
  shows "\<exists>used rest out. ms = used @ rest \<and> ended_by e rest \<and> prun (abs_conn c) used out (abs_conn c') \<and>
    concat (sent c') = concat (sent c) @ out"
  using assms
proof (induction ms arbitrary: c)
  case Nil
  then show ?case by (intro exI [of _ "[]"]) (simp add: prun_nil)
next
  case (Cons m ms)
  have stop: ?case if "c' = c" "ended_by e (m # ms)"
    using that by (intro exI [of _ "[]"] exI [of _ "m # ms"]) (simp add: prun_nil)
  have step: ?case if s: "pstep (abs_conn c) m out (abs_conn c1)" "replied c c1 out" "counted c1" "serve_loop D ms c1 = Some (c', e)" for c1 out
  proof -
    from s(2) have "wfail c1 = None" "concat (sent c1) = concat (sent c) @ out" by (simp_all add: replied_def)
    with Cons.IH [OF s(4) _ s(3)] obtain used rest outs where
      "ms = used @ rest" "ended_by e rest" "prun (abs_conn c1) used outs (abs_conn c')"
      "concat (sent c') = concat (sent c) @ out @ outs" by auto
    with prun_cons [OF s(1)] show ?thesis by (intro exI [of _ "m # used"] exI [of _ rest] exI [of _ "out @ outs"]) simp
  qed
  show ?case
  proof (cases "discarded m c")
    case True
    then have "pstep (abs_conn c) m [] (abs_conn c)" by (intro discard) (auto simp: discarded_def)
    with True Cons.prems show ?thesis by (intro step [of "[]" c]) (simp_all add: replied_def)
  next
    case live: False
    show ?thesis
    proof (cases "m = Terminate")
      case True
      with live Cons.prems(1) show ?thesis by (intro stop) auto
    next
      case False
      with live Cons.prems(1) obtain c1 h where h: "handle D m c = Some (c1, h)" by (auto split: option.splits)
      show ?thesis
      proof (cases "h = HNil")
        case True
        from handle_refines [OF h [unfolded True] live False Cons.prems(2,3)] obtain out where
          "pstep (abs_conn c) m out (abs_conn c1)" "replied c c1 out" by blast
        with step [of out c1] handle_counted [OF h [unfolded True] Cons.prems(3)] Cons.prems(1) live False h True
        show ?thesis by simp
      next
        case no: False
        note s = handle_stops [OF h Cons.prems(2) no False, of ms]
        with Cons.prems(1) live False h no have "c' = c1" "e = (case h of HErr e \<Rightarrow> Closed e | _ \<Rightarrow> Panicked)"
          by (auto split: hres.splits)
        with s show ?thesis by (intro stop) simp_all
      qed
    qed
  qed
qed

text \<open>C1: Every session is a run of the protocol: whatever the database answers, as long as the
  socket works, a session that starts without prepared statements consumes some of the
  client's messages, each by a step of the specification, and what it has sent is exactly the
  concatenation of the replies of these steps; it ends in the state the specification ends in,
  and only for the reason the next message gives: none left, Terminate, a message that does
  not belong into a session, or one whose handler panicked.\<close>

theorem session_refines_protocol:
  assumes "serve_loop D ms c = Some (c', e)" "wfail c = None" "stmts c = []"
  shows "\<exists>used rest out. ms = used @ rest \<and> ended_by e rest \<and> prun (abs_conn c) used out (abs_conn c') \<and>
    concat (sent c') = concat (sent c) @ out"
  using loop_refines [OF assms(1,2)] assms(3) by (simp add: counted_def)

inductive_cases pstep_msgE:
  "pstep P (Query q) out P'" "pstep P (Parse n q) out P'" "pstep P (Bind n s args) out P'" "pstep P (Describe ty n) out P'"
  "pstep P (Execute n) out P'" "pstep P (CloseMsg ty n) out P'" "pstep P Sync out P'" "pstep P Flush out P'"
  "pstep P Terminate out P'" "pstep P (PasswordMessage x) out P'" "pstep P (OtherMsg x) out P'"

lemma step_known_query: "pstep P (Query q) out P1 \<Longrightarrow> pstep P (Query q) out P2 \<Longrightarrow> P1 = P2"
  by (elim pstep_msgE) (auto simp: is_error_msg_def errorResponse_def is_data_def)

lemma step_known_other:
  "pstep P (Parse n q) out P1 \<Longrightarrow> pstep P (Parse n q) out P2 \<Longrightarrow> P1 = P2"
  "pstep P (Bind n s args) out P1 \<Longrightarrow> pstep P (Bind n s args) out P2 \<Longrightarrow> P1 = P2"
  "pstep P (Describe ty n) out P1 \<Longrightarrow> pstep P (Describe ty n) out P2 \<Longrightarrow> P1 = P2"
  "pstep P (Execute n) out P1 \<Longrightarrow> pstep P (Execute n) out P2 \<Longrightarrow> P1 = P2"
  "pstep P (CloseMsg ty n) out P1 \<Longrightarrow> pstep P (CloseMsg ty n) out P2 \<Longrightarrow> P1 = P2"
  "pstep P Sync out P1 \<Longrightarrow> pstep P Sync out P2 \<Longrightarrow> P1 = P2"
  "pstep P Flush out P1 \<Longrightarrow> pstep P Flush out P2 \<Longrightarrow> P1 = P2"
  "pstep P Terminate out P1 \<Longrightarrow> pstep P Terminate out P2 \<Longrightarrow> P1 = P2"
  "pstep P (PasswordMessage x) out P1 \<Longrightarrow> pstep P (PasswordMessage x) out P2 \<Longrightarrow> P1 = P2"
  "pstep P (OtherMsg x) out P1 \<Longrightarrow> pstep P (OtherMsg x) out P2 \<Longrightarrow> P1 = P2"
  by (elim pstep_msgE; fastforce simp: is_error_msg_def errorResponse_def is_data_def describes_def lets_through_def)+

text \<open>The client knows the state: in the specification the reply to a message determines the
  state after it.\<close>

lemma reply_determines_state: "pstep P m out P1 \<Longrightarrow> pstep P m out P2 \<Longrightarrow> P1 = P2"
  by (cases m) (blast intro: step_known_query step_known_other)+

text \<open>The same for the code: two sessions in the same state (over whatever databases) that
  get the same message and send the same reply are in the same state again.  So a client that
  follows the protocol knows the transaction status, whether its messages are discarded and
  which names exist, from what it has been sent.\<close>

theorem replies_determine_session:
  assumes "handle D1 m c1 = Some (c1', HNil)" "handle D2 m c2 = Some (c2', HNil)"
    and "abs_conn c1 = abs_conn c2" "\<not> discarded m c1" "m \<noteq> Terminate"
    and "wfail c1 = None" "wfail c2 = None" "counted c1" "counted c2"
    and "concat (sent c1') = concat (sent c1) @ out" "concat (sent c2') = concat (sent c2) @ out"
  shows "txStatus c1' = txStatus c2' \<and> skipUntilSync c1' = skipUntilSync c2' \<and>
    dom (map_of (stmts c1')) = dom (map_of (stmts c2')) \<and> dom (map_of (portals c1')) = dom (map_of (portals c2'))"
proof -
  have d: "\<not> discarded m c2" using assms(3,4) abs_sel(3) unfolding discarded_def by metis
  from handle_refines [OF assms(1,4,5,6,8)] assms(10) have 1: "pstep (abs_conn c1) m out (abs_conn c1')"
    by (auto simp: replied_def)
  from handle_refines [OF assms(2) d assms(5,7,9)] assms(11) have 2: "pstep (abs_conn c2) m out (abs_conn c2')"
    by (auto simp: replied_def)
  have e: "abs_conn c1' = abs_conn c2'" using reply_determines_state [OF 1] 2 assms(3) by simp
  have dom: "dom (pr_stmts (abs_conn c)) = dom (map_of (stmts c))" "dom (pr_portals (abs_conn c)) = dom (map_of (portals c))"
    for c :: "('x, 'y, 'z) conn" by (auto simp: dom_def)
  show ?thesis
    using arg_cong [OF e, of pr_status] arg_cong [OF e, of pr_skip]
      arg_cong [OF e, of "\<lambda>P. dom (pr_stmts P)"] arg_cong [OF e, of "\<lambda>P. dom (pr_portals P)"]
    by (simp only: dom abs_sel)
qed

lemma demo_refused:
  "serve_loop demo [Execute ''q'', Flush, Sync, Terminate] (demo_conn TxInProgress) =
     Some (written [ReadyForQuery TxFailed] ((written [errorResponse (no_portal ''q'')] ((demo_conn TxInProgress)\<lparr>txStatus := TxFailed\<rparr>))), Exited)"
  by (simp add: handle_def labelled_def wrap_hres_def handleExecuteMessage_def failExtended_def writeError_def discarded_def Let_def
      writeMessages_ok fail_tx_def demo_conn_def newConn_def written_def)

theorem session_refines_protocol_witness:
  "\<exists>used rest P. [Execute ''q'', Flush, Sync, Terminate] = used @ rest \<and> ended_by Exited rest \<and>
     prun (abs_conn (demo_conn TxInProgress)) used [errorResponse (no_portal ''q''), ReadyForQuery TxFailed] P \<and> pr_status P = TxFailed"
proof -
  have "wfail (demo_conn TxInProgress) = None" "stmts (demo_conn TxInProgress) = []" "sent (demo_conn TxInProgress) = []"
    by (simp_all add: demo_conn_def newConn_def)
  note k = this
  let ?c = "written [ReadyForQuery TxFailed] ((written [errorResponse (no_portal ''q'')] ((demo_conn TxInProgress)\<lparr>txStatus := TxFailed\<rparr>)))"
  from session_refines_protocol [OF demo_refused k(1,2)] obtain used rest out where
    x: "[Execute ''q'', Flush, Sync, Terminate] = used @ rest" "ended_by Exited rest"
      "prun (abs_conn (demo_conn TxInProgress)) used out (abs_conn ?c)" "concat (sent ?c) = concat (sent (demo_conn TxInProgress)) @ out"
    by blast
  have "out = [errorResponse (no_portal ''q''), ReadyForQuery TxFailed]" using x(4) k(3) by simp
  moreover have "pr_status (abs_conn ?c) = TxFailed" by simp
  ultimately show ?thesis using x(1-3) by blast
qed

theorem replies_determine_session_witness:
  "\<exists>c'. handle demo (Execute ''q'') (demo_conn TxInProgress) = Some (c', HNil) \<and> txStatus c' = TxFailed"
proof -
  let ?c = "(written [errorResponse (no_portal ''q'')] ((demo_conn TxInProgress)\<lparr>txStatus := TxFailed, skipUntilSync := True\<rparr>))"
  have h: "handle demo (Execute ''q'') (demo_conn TxInProgress) = Some (?c, HNil)"
    by (simp add: handle_def labelled_def wrap_hres_def handleExecuteMessage_def failExtended_def writeError_def Let_def
      writeMessages_ok fail_tx_def demo_conn_def newConn_def written_def)
  have s: "\<not> discarded (Execute ''q'') (demo_conn TxInProgress)" "wfail (demo_conn TxInProgress) = None" "counted (demo_conn TxInProgress)"
    by (simp_all add: discarded_def counted_def demo_conn_def newConn_def)
  have "txStatus ?c = txStatus ?c"
    using replies_determine_session [OF h h refl s(1) _ s(2,2,3,3), of "[errorResponse (no_portal ''q'')]"] by simp
  with h show ?thesis by auto
qed

end
