(* ===== verification/Hook.thy ===== *)
theory Hook
  imports Startup VTab "HOL-Library.Multiset"
begin

text \<open>
  What every SQLite connection is given when the driver opens it: the \<^verbatim>\<open>ConnectHook\<close> that
  \<^verbatim>\<open>init\<close> of \<^verbatim>\<open>server.go\<close> registers with the driver \<^verbatim>\<open>postlite-sqlite3\<close>: the Go functions of
  \<^verbatim>\<open>pg_func.go\<close> and \<^verbatim>\<open>server.go\<close> under their SQL names, and the modules of the virtual tables.
  The driver's registration calls are a parameter over its own state; \<^verbatim>\<open>catalogFuncs\<close> is a Go
  map, so the order of its registrations is a parameter too.
\<close>

section \<open>The functions\<close>

text \<open>Of \<^verbatim>\<open>server.go\<close>.\<close>

definition currentCatalog :: gostr where
  "currentCatalog = ''public''"

definition currentSchema :: gostr where
  "currentSchema = ''public''"

definition currentUser :: gostr where
  "currentUser = ''sqlite3''"

definition sessionUser :: gostr where
  "sessionUser = ''sqlite3''"

definition user :: gostr where
  "user = ''sqlite3''"

text \<open>Of \<^verbatim>\<open>pg_func.go\<close>, with any number of arguments.\<close>

definition pgGetExpr :: "go_value list \<Rightarrow> gostr" where
  "pgGetExpr args = []"

definition pgGetConstraintdef :: "go_value list \<Rightarrow> gostr" where
  "pgGetConstraintdef args = []"

definition pgGetIndexdef :: "go_value list \<Rightarrow> gostr" where
  "pgGetIndexdef args = []"

definition pgGetFunctionIdentityArguments :: "go_value list \<Rightarrow> gostr" where
  "pgGetFunctionIdentityArguments args = []"

definition pgGetUserbyid :: "go_value list \<Rightarrow> gostr" where
  "pgGetUserbyid args = ''sqlite3''"

definition pgTableIsVisible :: "go_value list \<Rightarrow> i64" where
  "pgTableIsVisible args = 1"

definition pgFunctionIsVisible :: "go_value list \<Rightarrow> i64" where
  "pgFunctionIsVisible args = 1"

definition pgTypeIsVisible :: "go_value list \<Rightarrow> i64" where
  "pgTypeIsVisible args = 1"

definition objDescription :: "go_value list \<Rightarrow> gostr" where
  "objDescription args = []"

definition colDescription :: "go_value list \<Rightarrow> gostr" where
  "colDescription args = []"

definition shobjDescription :: "go_value list \<Rightarrow> gostr" where
  "shobjDescription args = []"

definition hasTablePrivilege :: "go_value list \<Rightarrow> i64" where
  "hasTablePrivilege args = 1"

definition hasSchemaPrivilege :: "go_value list \<Rightarrow> i64" where
  "hasSchemaPrivilege args = 1"

definition hasColumnPrivilege :: "go_value list \<Rightarrow> i64" where
  "hasColumnPrivilege args = 1"

definition hasDatabasePrivilege :: "go_value list \<Rightarrow> i64" where
  "hasDatabasePrivilege args = 1"

definition hasAnyColumnPrivilege :: "go_value list \<Rightarrow> i64" where
  "hasAnyColumnPrivilege args = 1"

definition pgEncodingToChar :: "go_value list \<Rightarrow> gostr" where
  "pgEncodingToChar args = ''UTF8''"

definition pgBackendPid :: i64 where
  "pgBackendPid = 0"

definition pgGetServerVersionNum :: i64 where
  "pgGetServerVersionNum = 140000"

definition regexpMatch :: "gostr \<Rightarrow> gostr \<Rightarrow> bool" where
  "regexpMatch pattern s = matchPattern pattern s"

text \<open>How the driver calls a registered function: by the Go function's type.  \<open>None\<close> is the
  error of a call with arguments the function does not take; a parameter of type string takes
  text and blobs.\<close>

type_synonym sqlfun = "go_value list \<Rightarrow> go_value option"

fun text_arg :: "go_value \<Rightarrow> gostr option" where
  "text_arg (VString s) = Some s"
| "text_arg (VBytes s) = Some s"
| "text_arg _ = None"

definition func0 :: "go_value \<Rightarrow> sqlfun" where
  "func0 v args = (if args = [] then Some v else None)"

definition funcN :: "(go_value list \<Rightarrow> go_value) \<Rightarrow> sqlfun" where
  "funcN f args = Some (f args)"

definition func1 :: "(gostr \<Rightarrow> go_value) \<Rightarrow> sqlfun" where
  "func1 f args = (case map text_arg args of [Some a] \<Rightarrow> Some (f a) | _ \<Rightarrow> None)"

definition func2 :: "(gostr \<Rightarrow> gostr \<Rightarrow> go_value) \<Rightarrow> sqlfun" where
  "func2 f args = (case map text_arg args of [Some a, Some b] \<Rightarrow> Some (f a b) | _ \<Rightarrow> None)"

section \<open>The hook\<close>

record 'h registrar =
  RegisterFunc :: "'h \<Rightarrow> gostr \<Rightarrow> sqlfun \<Rightarrow> go_error option \<times> 'h"
  CreateModule :: "'h \<Rightarrow> gostr \<Rightarrow> go_error option \<times> 'h"

text \<open>The functions registered one by one, with the message of a failure.\<close>

definition sessionFuncs :: "(gostr \<times> gostr \<times> sqlfun) list" where
  "sessionFuncs =
     [(''current_catalog'', ''cannot register current_catalog() function'', func0 (VString currentCatalog)),
      (''current_schema'', ''cannot register current_schema() function'', func0 (VString currentSchema)),
      (''current_user'', ''cannot register current_schema() function'', func0 (VString currentUser)),
      (''session_user'', ''cannot register session_user() function'', func0 (VString sessionUser)),
      (''user'', ''cannot register user() function'', func0 (VString user)),
      (''show'', ''cannot register show() function'', func1 (\<lambda>a. VString (show_setting a))),
      (''format_type'', ''cannot register format_type() function'', funcN (\<lambda>args. VString (formatType args))),
      (''version'', ''cannot register version() function'', func0 (VString version))]"

definition catalogFuncs :: "(gostr \<times> sqlfun) list" where
  "catalogFuncs =
     [(''current_database'', func0 (VString currentDatabase)),
      (''current_setting'', funcN (\<lambda>args. VString (currentSetting args))),
      (''pg_get_expr'', funcN (\<lambda>args. VString (pgGetExpr args))),
      (''pg_get_constraintdef'', funcN (\<lambda>args. VString (pgGetConstraintdef args))),
      (''pg_get_indexdef'', funcN (\<lambda>args. VString (pgGetIndexdef args))),
      (''pg_get_function_identity_arguments'', funcN (\<lambda>args. VString (pgGetFunctionIdentityArguments args))),
      (''pg_get_userbyid'', funcN (\<lambda>args. VString (pgGetUserbyid args))),
      (''pg_table_is_visible'', funcN (\<lambda>args. VInt (pgTableIsVisible args))),
      (''pg_function_is_visible'', funcN (\<lambda>args. VInt (pgFunctionIsVisible args))),
      (''pg_type_is_visible'', funcN (\<lambda>args. VInt (pgTypeIsVisible args))),
      (''obj_description'', funcN (\<lambda>args. VString (objDescription args))),
      (''col_description'', funcN (\<lambda>args. VString (colDescription args))),
      (''shobj_description'', funcN (\<lambda>args. VString (shobjDescription args))),
      (''has_table_privilege'', funcN (\<lambda>args. VInt (hasTablePrivilege args))),
      (''has_schema_privilege'', funcN (\<lambda>args. VInt (hasSchemaPrivilege args))),
      (''has_column_privilege'', funcN (\<lambda>args. VInt (hasColumnPrivilege args))),
      (''has_database_privilege'', funcN (\<lambda>args. VInt (hasDatabasePrivilege args))),
      (''has_any_column_privilege'', funcN (\<lambda>args. VInt (hasAnyColumnPrivilege args))),
      (''pg_encoding_to_char'', funcN (\<lambda>args. VString (pgEncodingToChar args))),
      (''pg_backend_pid'', func0 (VInt pgBackendPid)),
      (''pg_get_server_version_num'', func0 (VInt pgGetServerVersionNum)),
      (''regexp'', func2 (\<lambda>pattern s. VBool (regexpMatch pattern s))),
      (''__pg_type_name'', func1 (\<lambda>decl. VString (sqliteDeclToPGType decl))),
      (''__pg_udt_name'', func1 (\<lambda>decl. VString (sqliteDeclToUDT decl))),
      (''__pg_type_oid'', func1 (\<lambda>decl. VInt (sqliteDeclToOID decl)))]"

text \<open>The modules, each with its \<^verbatim>\<open>Create\<close>.\<close>

definition hookModules ::
  "(gostr \<times> gostr \<times> ((gostr \<Rightarrow> (gostr \<times> gostr) list \<Rightarrow> gostr option) \<Rightarrow> gostr list \<Rightarrow> gostr option vres)) list" where
  "hookModules =
     [(''pg_namespace_module'', ''cannot register pg_namespace module'', pgNamespaceModule_Create),
      (''pg_description_module'', ''cannot register pg_description module'', pgDescriptionModule_Create),
      (''pg_settings_module'', ''cannot register pg_settings module'', pgSettingsModule_Create),
      (''pg_type_module'', ''cannot register pg_type module'', pgTypeModule_Create),
      (''pg_class_module'', ''cannot register pg_class module'', pgClassModule_Create),
      (''pg_range_module'', ''cannot register pg_range module'', pgRangeModule_Create)]"

text \<open>Registrations run in order; the first failure ends the hook.\<close>

fun register_all :: "('h \<Rightarrow> 'a \<Rightarrow> go_error option \<times> 'h) \<Rightarrow> ('a \<times> (go_error \<Rightarrow> go_error)) list \<Rightarrow> 'h \<Rightarrow> go_error option \<times> 'h" where
  "register_all reg [] h = (None, h)"
| "register_all reg ((x, fail) # rest) h =
     (case reg h x of
        (Some e, h') \<Rightarrow> (Some (fail e), h')
      | (None, h') \<Rightarrow> register_all reg rest h')"

definition ConnectHook :: "'h registrar \<Rightarrow> (gostr \<times> sqlfun) list \<Rightarrow> 'h \<Rightarrow> go_error option \<times> 'h" where
  "ConnectHook R order h =
     (let function = (\<lambda>h (n, f). RegisterFunc R h n f); module = (\<lambda>h n. CreateModule R h n) in
      case register_all function (map (\<lambda>(n, msg, f). ((n, f), \<lambda>_. ErrMsg msg)) sessionFuncs) h of
        (Some e, h1) \<Rightarrow> (Some e, h1)
      | (None, h1) \<Rightarrow>
          (case register_all function
                 (map (\<lambda>(n, f). ((n, f), \<lambda>e. ErrWrap (''cannot register '' @ n @ ''() function: '') e [])) order) h1 of
             (Some e, h2) \<Rightarrow> (Some e, h2)
           | (None, h2) \<Rightarrow> register_all module (map (\<lambda>(n, msg, _). (n, \<lambda>_. ErrMsg msg)) hookModules) h2))"

section \<open>What a connection answers\<close>

text \<open>A call of an SQL function of the connection whose functions are \<open>t\<close>.\<close>

definition call_sql :: "(gostr \<rightharpoonup> sqlfun) \<Rightarrow> gostr \<Rightarrow> sqlfun" where
  "call_sql t n args = (case t n of Some f \<Rightarrow> f args | None \<Rightarrow> None)"

text \<open>What clients and the catalog views rely on: the session's functions name one schema and one
  user; the version functions, \<^verbatim>\<open>show\<close> and \<^verbatim>\<open>current_setting\<close> agree; everything is visible
  and permitted; nothing has a comment or a definition.\<close>

definition session_contract :: "(gostr \<rightharpoonup> sqlfun) \<Rightarrow> bool" where
  "session_contract t \<longleftrightarrow>
     (\<forall>n \<in> {''current_catalog'', ''current_schema''}. call_sql t n [] = Some (VString ''public'')) \<and>
     call_sql t ''current_database'' [] = Some (VString ''postlite'') \<and>
     (\<forall>n \<in> {''current_user'', ''session_user'', ''user''}. call_sql t n [] = Some (VString ''sqlite3'')) \<and>
     (\<forall>args. call_sql t ''pg_get_userbyid'' args = Some (VString ''sqlite3'')) \<and>
     (\<exists>v rest. call_sql t ''show'' [VString ''server_version''] = Some (VString v) \<and>
        call_sql t ''version'' [] = Some (VString (''PostgreSQL '' @ v @ rest)) \<and>
        v = ''14.0'' \<and> call_sql t ''pg_get_server_version_num'' [] = Some (VInt (14 * 10000))) \<and>
     (\<forall>s. \<exists>v. call_sql t ''show'' [VString s] = Some (VString v) \<and> call_sql t ''current_setting'' [VString s] = Some (VString v)) \<and>
     (\<forall>args. call_sql t ''pg_encoding_to_char'' args = call_sql t ''show'' [VString ''server_encoding'']) \<and>
     call_sql t ''pg_backend_pid'' [] = Some (VInt 0)"

definition catalog_contract :: "(gostr \<rightharpoonup> sqlfun) \<Rightarrow> bool" where
  "catalog_contract t \<longleftrightarrow>
     (\<forall>n \<in> {''pg_table_is_visible'', ''pg_function_is_visible'', ''pg_type_is_visible'', ''has_table_privilege'', ''has_schema_privilege'',
        ''has_column_privilege'', ''has_database_privilege'', ''has_any_column_privilege''}. \<forall>args. call_sql t n args = Some (VInt 1)) \<and>
     (\<forall>n \<in> {''pg_get_expr'', ''pg_get_constraintdef'', ''pg_get_indexdef'', ''pg_get_function_identity_arguments'',
        ''obj_description'', ''col_description'', ''shobj_description''}. \<forall>args. call_sql t n args = Some (VString []))"

text \<open>The names of types agree: for every SQLite declaration, \<^verbatim>\<open>format_type\<close> of the OID that
  \<^verbatim>\<open>__pg_type_oid\<close> gives is the name that \<^verbatim>\<open>__pg_type_name\<close> gives, and \<^verbatim>\<open>__pg_udt_name\<close> gives the
  \<^verbatim>\<open>typname\<close> of that OID's row in \<^verbatim>\<open>pg_type\<close>.  The REGEXP operator compares the patterns psql makes
  of object names exactly.\<close>

definition type_contract :: "(gostr \<rightharpoonup> sqlfun) \<Rightarrow> bool" where
  "type_contract t \<longleftrightarrow>
     (\<forall>decl. \<exists>oid name udt. call_sql t ''__pg_type_oid'' [VString decl] = Some (VInt oid) \<and>
        call_sql t ''__pg_type_name'' [VString decl] = Some (VString name) \<and>
        call_sql t ''format_type'' [VInt oid] = Some (VString name) \<and>
        call_sql t ''format_type'' [VInt oid, VInt (- 1)] = Some (VString name) \<and>
        call_sql t ''__pg_udt_name'' [VString decl] = Some (VString udt) \<and>
        (\<exists>ty \<in> set pgTypes. ty_oid ty = sint oid \<and> ty_typname ty = udt)) \<and>
     (\<forall>name s. call_sql t ''regexp'' [VString (''^('' @ name @ '')$''), VString s] = Some (VBool (s = name)))"

definition hook_functions :: "(gostr \<times> sqlfun) list" where
  "hook_functions = map (\<lambda>(n, msg, f). (n, f)) sessionFuncs @ catalogFuncs"

lemma hook_functions_distinct: "distinct (map fst hook_functions)"
  by (simp add: hook_functions_def sessionFuncs_def catalogFuncs_def)

lemma hook_functions_find: "distinct (map fst fs) \<Longrightarrow> (n, f) \<in> set fs \<Longrightarrow> (t ++ map_of fs) n = Some f"
  by (simp add: map_add_def)

lemma call_registered:
  assumes "(n, f) \<in> set hook_functions"
  shows "call_sql (t ++ map_of hook_functions) n args = f args"
  using hook_functions_find [OF hook_functions_distinct assms] by (simp add: call_sql_def)

lemmas go_funcs = currentCatalog_def currentSchema_def currentUser_def sessionUser_def user_def pgGetExpr_def
  pgGetConstraintdef_def pgGetIndexdef_def pgGetFunctionIdentityArguments_def pgGetUserbyid_def pgTableIsVisible_def
  pgFunctionIsVisible_def pgTypeIsVisible_def objDescription_def colDescription_def shobjDescription_def
  hasTablePrivilege_def hasSchemaPrivilege_def hasColumnPrivilege_def hasDatabasePrivilege_def hasAnyColumnPrivilege_def
  pgEncodingToChar_def pgBackendPid_def pgGetServerVersionNum_def func0_def funcN_def func1_def func2_def

lemmas hook_lists = hook_functions_def sessionFuncs_def catalogFuncs_def

lemma calls:
  "call_sql (t ++ map_of hook_functions) ''current_catalog'' args = func0 (VString currentCatalog) args"
  "call_sql (t ++ map_of hook_functions) ''current_schema'' args = func0 (VString currentSchema) args"
  "call_sql (t ++ map_of hook_functions) ''current_user'' args = func0 (VString currentUser) args"
  "call_sql (t ++ map_of hook_functions) ''session_user'' args = func0 (VString sessionUser) args"
  "call_sql (t ++ map_of hook_functions) ''user'' args = func0 (VString user) args"
  "call_sql (t ++ map_of hook_functions) ''show'' args = func1 (\<lambda>a. VString (show_setting a)) args"
  "call_sql (t ++ map_of hook_functions) ''format_type'' args = funcN (\<lambda>args. VString (formatType args)) args"
  "call_sql (t ++ map_of hook_functions) ''version'' args = func0 (VString version) args"
  "call_sql (t ++ map_of hook_functions) ''current_database'' args = func0 (VString currentDatabase) args"
  "call_sql (t ++ map_of hook_functions) ''current_setting'' args = funcN (\<lambda>args. VString (currentSetting args)) args"
  "call_sql (t ++ map_of hook_functions) ''pg_get_userbyid'' args = funcN (\<lambda>args. VString (pgGetUserbyid args)) args"
  "call_sql (t ++ map_of hook_functions) ''pg_encoding_to_char'' args = funcN (\<lambda>args. VString (pgEncodingToChar args)) args"
  "call_sql (t ++ map_of hook_functions) ''pg_backend_pid'' args = func0 (VInt pgBackendPid) args"
  "call_sql (t ++ map_of hook_functions) ''pg_get_server_version_num'' args = func0 (VInt pgGetServerVersionNum) args"
  "call_sql (t ++ map_of hook_functions) ''regexp'' args = func2 (\<lambda>pattern s. VBool (regexpMatch pattern s)) args"
  "call_sql (t ++ map_of hook_functions) ''__pg_type_name'' args = func1 (\<lambda>decl. VString (sqliteDeclToPGType decl)) args"
  "call_sql (t ++ map_of hook_functions) ''__pg_udt_name'' args = func1 (\<lambda>decl. VString (sqliteDeclToUDT decl)) args"
  "call_sql (t ++ map_of hook_functions) ''__pg_type_oid'' args = func1 (\<lambda>decl. VInt (sqliteDeclToOID decl)) args"
  by (rule call_registered, simp add: hook_lists)+

lemma show_known: "show_setting ''server_version'' = ''14.0''" "show_setting ''server_encoding'' = ''UTF8''"
  by code_simp+

lemma session_contract_holds: "session_contract (t ++ map_of hook_functions)"
  by (simp add: session_contract_def calls go_funcs currentDatabase_def currentSetting_def version_def show_known ServerVersion_def)

lemma catalog_contract_holds: "catalog_contract (t ++ map_of hook_functions)"
proof -
  have "call_sql (t ++ map_of hook_functions) n args = Some (VInt 1)"
    if "(n, funcN (\<lambda>_. VInt 1)) \<in> set hook_functions" for n args
    using call_registered [OF that] by (simp add: funcN_def)
  moreover have "call_sql (t ++ map_of hook_functions) n args = Some (VString [])"
    if "(n, funcN (\<lambda>_. VString [])) \<in> set hook_functions" for n args
    using call_registered [OF that] by (simp add: funcN_def)
  ultimately show ?thesis by (simp add: catalog_contract_def hook_lists go_funcs(6-22))
qed

lemma type_contract_holds: "type_contract (t ++ map_of hook_functions)"
proof -
  have "\<exists>ty \<in> set pgTypes. ty_oid ty = sint (sqliteDeclToOID decl) \<and> ty_typname ty = sqliteDeclToUDT decl" for decl
    using type_in_catalog [of decl] by blast
  then show ?thesis
    by (simp add: type_contract_def calls func1_def func2_def funcN_def regexpMatch_def declared_names matchPattern_exact)
qed

section \<open>What is registered\<close>

lemma register_functions:
  assumes "\<And>h n f h'. RegisterFunc R h n f = (None, h') \<Longrightarrow> look h' = (look h)(n \<mapsto> f)"
  shows "register_all (\<lambda>h (n, f). RegisterFunc R h n f) xs h = (None, h') \<Longrightarrow> distinct (map fst (map fst xs)) \<Longrightarrow>
    look h' = look h ++ map_of (map fst xs)"
proof (induction xs arbitrary: h)
  case (Cons x xs)
  obtain n f fail where x: "x = ((n, f), fail)" by (metis prod.exhaust)
  with Cons.prems(1) obtain h1 where 1: "RegisterFunc R h n f = (None, h1)"
      "register_all (\<lambda>h (n, f). RegisterFunc R h n f) xs h1 = (None, h')"
    by (auto split: prod.splits option.splits)
  from Cons.prems(2) x have "n \<notin> dom (map_of (map fst xs))" by (simp add: dom_map_of_conv_image_fst image_image)
  have "look h' = (look h)(n \<mapsto> f) ++ map_of (map fst xs)"
    unfolding assms [OF 1(1), symmetric] using Cons.IH [OF 1(2)] Cons.prems(2) by simp
  also have "\<dots> = (look h ++ map_of (map fst xs))(n \<mapsto> f)"
    using \<open>n \<notin> dom _\<close> by (rule map_add_upd_left)
  also have "\<dots> = look h ++ map_of (map fst (x # xs))"
    unfolding x by (simp only: list.map fst_conv map_of.simps snd_conv map_add_upd)
  finally show ?case .
qed simp

lemma register_modules:
  assumes "\<And>h n h'. CreateModule R h n = (None, h') \<Longrightarrow> look h' = look h"
  shows "register_all (\<lambda>h n. CreateModule R h n) xs h = (None, h') \<Longrightarrow> look h' = look h"
proof (induction xs arbitrary: h)
  case (Cons x xs)
  then show ?case using assms by (cases x) (fastforce split: prod.splits option.splits)
qed simp

lemma hook_table:
  assumes "\<And>h n f h'. RegisterFunc R h n f = (None, h') \<Longrightarrow> look h' = (look h)(n \<mapsto> f)"
    and "\<And>h n h'. CreateModule R h n = (None, h') \<Longrightarrow> look h' = look h"
    and order: "mset order = mset catalogFuncs" and done': "ConnectHook R order h = (None, h')"
  shows "look h' = look h ++ map_of hook_functions"
proof -
  let ?session = "map (\<lambda>(n, msg, f). ((n, f), \<lambda>_ :: go_error. ErrMsg msg)) sessionFuncs"
  let ?catalog = "map (\<lambda>(n, f). ((n, f), \<lambda>e. ErrWrap (''cannot register '' @ n @ ''() function: '') e [])) order"
  obtain h1 h2 where
    1: "register_all (\<lambda>h (n, f). RegisterFunc R h n f) ?session h = (None, h1)" and
    2: "register_all (\<lambda>h (n, f). RegisterFunc R h n f) ?catalog h1 = (None, h2)" and
    3: "register_all (\<lambda>h n. CreateModule R h n) (map (\<lambda>(n, msg, _). (n, \<lambda>_. ErrMsg msg)) hookModules) h2 = (None, h')"
    using done' unfolding ConnectHook_def by (auto simp: Let_def split: prod.splits option.splits)
  have fst_s: "map fst ?session = map (\<lambda>(n, msg, f). (n, f)) sessionFuncs" and fst_c: "map fst ?catalog = order"
    by (simp_all add: comp_def split_def)
  have keys: "mset (map fst order) = mset (map fst catalogFuncs)" using order by simp
  have "distinct (map fst catalogFuncs)" using hook_functions_distinct by (simp add: hook_functions_def)
  with mset_eq_imp_distinct_iff [OF keys] have d: "distinct (map fst order)" "distinct (map fst catalogFuncs)" by simp_all
  have m: "map_of order = map_of catalogFuncs"
    by (rule iffD2 [OF map_of_inject_set [OF d] mset_eq_setD [OF order]])
  have "look h1 = look h ++ map_of (map (\<lambda>(n, msg, f). (n, f)) sessionFuncs)"
    by (rule register_functions [OF assms(1) 1, unfolded fst_s])
      (assumption | rule conjunct1 [OF hook_functions_distinct [unfolded hook_functions_def map_append distinct_append]])+
  moreover have "look h2 = look h1 ++ map_of catalogFuncs"
    unfolding m [symmetric] by (rule register_functions [OF assms(1) 2, unfolded fst_c]) (assumption | rule d(1))+
  moreover have "look h' = look h2" using register_modules [OF assms(2) 3] .
  moreover have "map_of hook_functions = map_of (map (\<lambda>(n, msg, f). (n, f)) sessionFuncs) ++ map_of catalogFuncs"
  proof -
    have "dom (map_of (map (\<lambda>(n, msg, f). (n, f)) sessionFuncs)) \<inter> dom (map_of catalogFuncs) = {}"
      using hook_functions_distinct unfolding hook_functions_def by (simp add: dom_map_of_conv_image_fst image_image)
    then show ?thesis unfolding hook_functions_def map_of_append by (rule map_add_comm [symmetric])
  qed
  ultimately show ?thesis by simp
qed

text \<open>C34: The functions of a connection: when the driver accepts every registration (the driver keeps
  a function under its name, and creating a module leaves the functions alone), then in whatever
  order Go walks the map \<^verbatim>\<open>catalogFuncs\<close> the connection ends up with the same functions, and they
  answer what clients and the catalog views rely on: the session functions name one schema and
  one user, the version functions, \<^verbatim>\<open>show\<close> and \<^verbatim>\<open>current_setting\<close> agree, every visibility and
  privilege function says 1 and every comment and definition is empty, whatever the arguments; for
  every SQLite declaration \<^verbatim>\<open>format_type\<close>, \<^verbatim>\<open>__pg_type_name\<close>, \<^verbatim>\<open>__pg_udt_name\<close> and the rows of
  \<^verbatim>\<open>pg_type\<close> agree about the type that \<^verbatim>\<open>__pg_type_oid\<close> gives; and the REGEXP operator accepts for
  the pattern \<^verbatim>\<open>^(name)$\<close> exactly the name.  No function under another name is touched.\<close>

theorem hook_registers_functions:
  assumes "\<And>h n f h'. RegisterFunc R h n f = (None, h') \<Longrightarrow> look h' = (look h)(n \<mapsto> f)"
    and "\<And>h n h'. CreateModule R h n = (None, h') \<Longrightarrow> look h' = look h"
    and "mset order = mset catalogFuncs" and "ConnectHook R order h = (None, h')"
  shows "session_contract (look h') \<and> catalog_contract (look h') \<and> type_contract (look h') \<and>
    (\<forall>n. n \<notin> fst ` set sessionFuncs \<union> fst ` set catalogFuncs \<longrightarrow> look h' n = look h n) \<and>
    (\<forall>order2 h2. mset order2 = mset catalogFuncs \<longrightarrow> ConnectHook R order2 h = (None, h2) \<longrightarrow> look h2 = look h')"
proof -
  have table: "look h2 = look h ++ map_of hook_functions"
    if "mset o2 = mset catalogFuncs" "ConnectHook R o2 h = (None, h2)" for o2 h2
    by (rule hook_table [OF assms(1,2) that])
  have "look h' n = look h n" if "n \<notin> fst ` set sessionFuncs \<union> fst ` set catalogFuncs" for n
  proof -
    from that have "n \<notin> fst ` set hook_functions" by (simp add: hook_functions_def image_Un image_image split_def)
    then have "map_of hook_functions n = None" by (simp add: map_of_eq_None_iff)
    then show ?thesis using table [OF assms(3,4)] by (simp add: map_add_def)
  qed
  then show ?thesis
    using session_contract_holds catalog_contract_holds type_contract_holds table table [OF assms(3,4)] by simp
qed

text \<open>A driver that accepts everything, with the map walked backwards.\<close>

theorem hook_registers_functions_witness:
  "\<exists>h'. ConnectHook \<lparr>RegisterFunc = (\<lambda>h n f. (None, h(n \<mapsto> f))), CreateModule = (\<lambda>h n. (None, h))\<rparr> (rev catalogFuncs) Map.empty = (None, h') \<and>
     type_contract h'"
proof -
  let ?R = "\<lparr>RegisterFunc = (\<lambda>h n f. (None, h(n \<mapsto> f))), CreateModule = (\<lambda>h n. (None, h))\<rparr> :: (gostr \<rightharpoonup> sqlfun) registrar"
  have all: "fst (register_all (\<lambda>h (n, f). (None, h(n \<mapsto> f))) xs h) = None" for xs :: "((gostr \<times> sqlfun) \<times> (go_error \<Rightarrow> go_error)) list"
      and h :: "gostr \<rightharpoonup> sqlfun"
    by (induction xs arbitrary: h) auto
  have mods: "register_all (\<lambda>h n. (None, h)) xs h = (None, h)" for xs :: "(gostr \<times> (go_error \<Rightarrow> go_error)) list" and h :: "gostr \<rightharpoonup> sqlfun"
    by (induction xs) auto
  have "fst (ConnectHook ?R (rev catalogFuncs) Map.empty) = None"
  proof -
    have "register_all (\<lambda>h (n, f). (None, h(n \<mapsto> f))) xs h = (None, snd (register_all (\<lambda>h (n, f). (None, h(n \<mapsto> f))) xs h))"
      for xs :: "((gostr \<times> sqlfun) \<times> (go_error \<Rightarrow> go_error)) list" and h :: "gostr \<rightharpoonup> sqlfun"
      using all [of xs h] by (metis prod.collapse)
    from this [of "map (\<lambda>(n, msg, f). ((n, f), \<lambda>_. ErrMsg msg)) sessionFuncs"] this [of "map (\<lambda>(n, f). ((n, f), \<lambda>e. ErrWrap (''cannot register '' @ n @ ''() function: '') e [])) (rev catalogFuncs)"] mods
    show ?thesis unfolding ConnectHook_def Let_def registrar.simps by (metis (no_types, lifting) fst_conv option.case(1) prod.case)
  qed
  then obtain h' where h': "ConnectHook ?R (rev catalogFuncs) Map.empty = (None, h')" by (metis prod.collapse)
  have "type_contract h'"
    using hook_registers_functions [where R = ?R and look = "\<lambda>h. h", OF _ _ _ h'] by simp
  with h' show ?thesis by blast
qed

section \<open>Startup and the modules\<close>

text \<open>How a CREATE VIRTUAL TABLE statement of startup names its columns.\<close>

definition using_columns :: "gostr \<Rightarrow> gostr \<Rightarrow> (gostr \<times> gostr) list \<Rightarrow> gostr" where
  "using_columns tbl modname decl =
     ''CREATE VIRTUAL TABLE IF NOT EXISTS pg_catalog.'' @ tbl @ '' USING '' @ modname @ '' ('' @ Join (map fst decl) '', '' @ '')''"

lemmas module_defs =
  pgNamespaceModule_Create_def pgDescriptionModule_Create_def pgSettingsModule_Create_def pgTypeModule_Create_def
  pgClassModule_Create_def pgRangeModule_Create_def create_module_def

text \<open>C35: Startup uses what the hook registered: after the ATTACH, each statement of startup creates
  one of the five tables with a registered module, and lists exactly the columns which the
  module's Create declares to SQLite, in that order.\<close>

theorem startup_uses_modules:
  "list_all2 (\<lambda>stmt (tbl, m). \<exists>msg create decl. (m, msg, create) \<in> set hookModules \<and>
       (\<forall>dv name args. create dv (name # args) = VOk (dv name decl)) \<and> stmt = using_columns tbl m decl)
     (map snd (tl startup_stmts))
     [(''pg_namespace'', ''pg_namespace_module''), (''pg_description'', ''pg_description_module''),
      (''pg_settings'', ''pg_settings_module''), (''pg_type'', ''pg_type_module''), (''pg_range'', ''pg_range_module'')]"
proof -
  have m: "(''pg_namespace_module'', ''cannot register pg_namespace module'', pgNamespaceModule_Create) \<in> set hookModules"
    "(''pg_description_module'', ''cannot register pg_description module'', pgDescriptionModule_Create) \<in> set hookModules"
    "(''pg_settings_module'', ''cannot register pg_settings module'', pgSettingsModule_Create) \<in> set hookModules"
    "(''pg_type_module'', ''cannot register pg_type module'', pgTypeModule_Create) \<in> set hookModules"
    "(''pg_range_module'', ''cannot register pg_range module'', pgRangeModule_Create) \<in> set hookModules"
    by (simp_all add: hookModules_def)
  have s: "map snd (tl startup_stmts) =
     [using_columns ''pg_namespace'' ''pg_namespace_module'' pgNamespace_decl,
      using_columns ''pg_description'' ''pg_description_module'' pgDescription_decl,
      using_columns ''pg_settings'' ''pg_settings_module'' pgSetting_decl,
      using_columns ''pg_type'' ''pg_type_module'' pgType_decl,
      using_columns ''pg_range'' ''pg_range_module'' pgRange_decl]"
    by (simp add: startup_stmts_def using_columns_def pgNamespace_decl_def pgDescription_decl_def pgSetting_decl_def
        pgType_decl_def pgRange_decl_def)
  have u: "\<exists>msg create d. (mn, msg, create) \<in> set hookModules \<and> (\<forall>dv name args. create dv (name # args) = VOk (dv name d)) \<and>
      using_columns tbl mn decl = using_columns tbl mn d"
    if "(mn, msg, create) \<in> set hookModules" "\<And>dv name args. create dv (name # args) = VOk (dv name decl)"
    for mn msg create tbl decl using that by blast
  show ?thesis unfolding s
    by (simp only: list_all2_Cons list_all2_Nil prod.case simp_thms)
      (intro conjI u [OF m(1)] u [OF m(2)] u [OF m(3)] u [OF m(4)] u [OF m(5)]; simp add: module_defs)
qed

end
