(* ===== verification/Rewrite_Calls.thy ===== *)
theory Rewrite_Calls
  imports Rewrite
begin

text \<open>
  Calls by name in a query: the passes of \<^verbatim>\<open>rewrite.go\<close> that look for a word followed by an
  opening parenthesis (CONCAT, TO_CHAR, STRING_AGG) share the shape of their pattern.  The
  locale states it, and where such a pattern is found; what \<^verbatim>\<open>rewriteToChar\<close> makes of the
  calls it finds follows from it.
\<close>

section \<open>Finding a call\<close>

text \<open>The word stands here, in any case; it stands nowhere.\<close>

definition word_here :: "gostr \<Rightarrow> gostr \<Rightarrow> bool" where
  "word_here w s \<longleftrightarrow> ToLower (take (length w) s) = w"

definition word_free :: "gostr \<Rightarrow> gostr \<Rightarrow> bool" where
  "word_free w s \<longleftrightarrow> list_all (\<lambda>k. \<not> word_here w (drop k s)) [0..<length s]"

lemma word_here_length: "word_here w s \<Longrightarrow> length w \<le> length s"
  by (drule arg_cong [of _ _ length, OF word_here_def [THEN iffD1]]) (simp add: ToLower_def)

lemma word_free_at: "word_free w s \<Longrightarrow> w \<noteq> [] \<Longrightarrow> \<not> word_here w (drop k s)"
  using word_here_length [of w "drop k s"] by (cases "k < length s") (auto simp: word_free_def list_all_iff)

locale keyword_call =
  fixes w :: gostr and r :: re
  assumes pattern: "r = RSeqs [RWordB, ILit w, Sps, ILit ''('']"
    and word_nonempty: "w \<noteq> []" and word_chars: "\<forall>c \<in> set w. is_word c" and word_lower: "ToLower w = w"
begin

lemma absent: "k \<le> length q \<Longrightarrow> \<not> word_here w (drop k q) \<Longrightarrow> no_match q r k"
proof -
  assume k: "k \<le> length q" and n: "\<not> word_here w (drop k q)"
  have "\<not> lit_at True w q k"
  proof
    assume "lit_at True w q k"
    from lit_at_ToLower [OF this] have "ToLower (take (length w) (drop k q)) = ToLower w"
      by (simp add: slice_def)
    with n word_lower show False by (simp add: word_here_def)
  qed
  then have "no_match q (ILit w) k"
    using matches_lit_at [OF k, of True w] by (simp add: no_match_def del: matches.simps)
  then show ?thesis
    unfolding pattern RSeqs.simps by (intro nm_wordb_seq nm_seq)
qed

lemma nowhere: "word_free w q \<Longrightarrow> find r q = None"
proof (rule ccontr)
  assume f: "word_free w q" and "find r q \<noteq> None"
  then obtain m where m: "find r q = Some m" by blast
  note s = find_Some [OF m]
  have "mstart m \<le> length q" using s(3,4) by linarith
  from match_here_no [OF absent [OF this word_free_at [OF f word_nonempty]]] s(1) show False by simp
qed

lemma called:
  assumes "pre = [] \<or> \<not> is_word (last pre)" "word_free w pre" "ToLower u = w"
  shows "find r (pre @ u @ ''('' @ rest) = Some \<lparr>mstart = length pre, mend = length pre + length w + 1, mcaps = []\<rparr>"
proof (rule find_first)
  let ?q = "pre @ u @ ''('' @ rest" and ?n = "length pre"
  have lw: "length u = length w" using assms(3) by (auto simp: ToLower_def)
  show "?n \<le> length ?q" by simp
  show "no_match ?q r k" if "k < ?n" for k
  proof (rule absent)
    show "k \<le> length ?q" using that by simp
    show "\<not> word_here w (drop k ?q)"
    proof
      assume h: "word_here w (drop k ?q)"
      show False
      proof (cases "length w \<le> length (drop k pre)")
        case True
        with h that have "word_here w (drop k pre)" by (simp add: word_here_def ToLower_def)
        with word_free_at [OF assms(2) word_nonempty] show False by blast
      next
        case False
        have ne: "drop k pre \<noteq> []" "pre \<noteq> []" using that by auto
        then have "last pre \<in> set (take (length w) (drop k ?q))"
          using False that by (auto simp: last_drop [symmetric] simp del: last_drop)
        then have "lower_char (last pre) \<in> set (ToLower (take (length w) (drop k ?q)))"
          unfolding ToLower_def set_map by (rule imageI)
        with h have "lower_char (last pre) \<in> set w" by (simp add: word_here_def)
        then have "is_word (lower_char (last pre))" using word_chars by blast
        with assms(1) ne(2) is_word_lower show False by blast
      qed
    qed
  qed
  have d: "drop ?n ?q = u @ ''('' @ rest" "drop (?n + length w) ?q = ''('' @ rest" using lw by simp_all
  have b: "boundary ?q ?n"
  proof -
    obtain c cs where u: "u = c # cs" using lw word_nonempty by (cases u) auto
    then have "lower_char c \<in> set w" using assms(3) by (auto simp: ToLower_def)
    then have "is_word c" using word_chars is_word_lower by blast
    then have "is_word (?q ! ?n)" by (simp add: nth_append u)
    moreover have "\<not> (0 < ?n \<and> is_word (?q ! (?n - 1)))"
      using assms(1) by (cases pre rule: rev_cases) (auto simp: nth_append)
    ultimately show ?thesis by (simp add: boundary_def)
  qed
  have "list_all2 (lit_char True) w u"
    using assms(3) word_lower by (auto simp: ToLower_def list_all2_conv_all_nth lit_char_def)
  then have 1: "first_match ?q (ILit w) ?n g (?n + length w) g" for g
    by (rule fm_lit_to [OF d(1)]) simp_all
  have 2: "first_match ?q Sps (?n + length w) g (?n + length w) g" for g
  proof -
    have "first_match ?q Sps (?n + length w) g (?n + length w + length ([] :: gostr)) g"
      by (rule fm_star_sp [where rest = "''('' @ rest"]) (use d(2) lw in \<open>auto simp: is_re_space_def\<close>)
    then show ?thesis by simp
  qed
  have "list_all2 (lit_char True) ''('' ''(''" by code_simp
  then have 3: "first_match ?q (ILit ''('') (?n + length w) g (?n + length w + 1) g" for g
    by (rule fm_lit_to [OF d(2)]) (simp_all add: lw)
  show "first_match ?q r ?n [] (?n + length w + 1) []"
    unfolding pattern RSeqs.simps
    by (rule fm_seq [OF fm_wordb [OF b] fm_seq [OF 1 fm_seq [OF 2 fm_seq [OF 3 fm_empty]]]])
qed

end

interpretation concat_call: keyword_call "''concat''" concatRegex
  by unfold_locales (simp add: concatRegex_def, simp, code_simp+)

interpretation to_char_call: keyword_call "''to_char''" toCharRegex
  by unfold_locales (simp add: toCharRegex_def, simp, code_simp+)

interpretation string_agg_call: keyword_call "''string_agg''" stringAggRegex
  by unfold_locales (simp add: stringAggRegex_def, simp, code_simp+)

section \<open>TO_CHAR\<close>

definition to_char_text :: "gostr \<times> gostr \<times> gostr \<Rightarrow> gostr" where
  "to_char_text = (\<lambda>(pre, expr, format). pre @ ''TO_CHAR('' @ Join [expr, format] [comma] @ '')'')"

definition strftime_text :: "gostr \<times> gostr \<times> gostr \<Rightarrow> gostr" where
  "strftime_text = (\<lambda>(pre, expr, format). pre @ strftime_call (TrimSpace expr) (TrimSpace format))"

definition to_char_ok :: "gostr \<times> gostr \<times> gostr \<Rightarrow> bool" where
  "to_char_ok = (\<lambda>(pre, expr, format). (pre = [] \<or> \<not> is_word (last pre)) \<and> word_free ''to_char'' pre \<and>
     arg_text expr \<and> arg_text format \<and> is_quoted (TrimSpace format))"

lemma drop_pre: "drop (length a) (a @ b) = b" "take (length a) (a @ b) = a"
  by simp_all

lemma to_char_step:
  assumes "to_char_ok (pre, expr, format)"
  shows "to_char_loop (acc @ to_char_text (pre, expr, format) @ rest) (length acc) =
    to_char_loop ((acc @ strftime_text (pre, expr, format)) @ rest) (length (acc @ strftime_text (pre, expr, format)))"
proof -
  let ?u = "Join [expr, format] [comma]"
  define Q where "Q = acc @ to_char_text (pre, expr, format) @ rest"
  have ok: "pre = [] \<or> \<not> is_word (last pre)" "word_free ''to_char'' pre" "arg_text expr" "arg_text format"
    "is_quoted (TrimSpace format)" using assms by (simp_all add: to_char_ok_def)
  have q: "Q = acc @ pre @ ''TO_CHAR'' @ ''('' @ (?u @ '')'' @ rest)" by (simp add: Q_def to_char_text_def)
  have "ToLower ''TO_CHAR'' = ''to_char''" by code_simp
  from to_char_call.called [OF ok(1,2) this, of "?u @ '')'' @ rest"]
  have f: "find toCharRegex (drop (length acc) Q) = Some \<lparr>mstart = length pre, mend = length pre + 8, mcaps = []\<rparr>"
    unfolding q drop_pre by simp
  have bal: "balanced ?u" by (rule balanced_Join) (use ok in auto)
  let ?o = "length acc + length pre + 7"
  have m: "matchParen Q ?o = Some (?o + length ?u + 1)"
    using matchParen_append [OF bal, of "acc @ pre @ ''TO_CHAR''" rest] unfolding q by (simp add: eval_nat_numeral)
  have s: "slice Q (?o + 1) (?o + length ?u + 1) = ?u"
    unfolding q slice_def by (simp add: eval_nat_numeral)
  have sp: "splitArgs ?u = [expr, format]" by (rule splitArgs_args) (use ok in auto)
  have t: "take (length acc + length pre) Q = acc @ pre" unfolding q by simp
  have d: "drop (?o + length ?u + 1 + 1) Q = rest" unfolding q by (simp add: eval_nat_numeral)
  have l: "length acc \<le> length Q" unfolding q by simp
  have "to_char_loop Q (length acc) =
    to_char_loop (take (length acc + length pre) Q @ strftime_call (TrimSpace expr) (TrimSpace format) @ drop (?o + length ?u + 1 + 1) Q)
      (length acc + length pre + length (strftime_call (TrimSpace expr) (TrimSpace format)))"
    using f m s sp ok(5) l by (subst to_char_loop.simps) (simp add: Let_def add.commute add.left_commute del: Join.simps)
  then show ?thesis unfolding t d Q_def [symmetric] by (simp add: strftime_text_def add.assoc)
qed

text \<open>C23: Every TO_CHAR call becomes a strftime call: in a query made of any number of such calls with
  other text before, between and behind them, each call whose format is a string literal is
  replaced by \<^verbatim>\<open>strftime\<close> with the translated format and the untouched expression (which may
  contain literals, nested calls and commas inside them), and nothing else changes.\<close>

theorem to_char_rewritten:
  assumes "\<forall>x \<in> set calls. to_char_ok x" "word_free ''to_char'' post"
  shows "rewriteToChar (concat (map to_char_text calls) @ post) = concat (map strftime_text calls) @ post"
proof -
  have "to_char_loop (acc @ concat (map to_char_text calls) @ post) (length acc) = acc @ concat (map strftime_text calls) @ post" for acc
    using assms(1)
  proof (induction calls arbitrary: acc)
    case Nil
    then show ?case using to_char_call.nowhere [OF assms(2)]
      by (subst to_char_loop.simps) simp
  next
    case (Cons x calls)
    obtain pre expr format where x: "x = (pre, expr, format)" by (cases x)
    with Cons.prems have "to_char_ok (pre, expr, format)" by simp
    from to_char_step [OF this, of acc "concat (map to_char_text calls) @ post"] x
      Cons.IH [of "acc @ strftime_text x"] Cons.prems show ?case by simp
  qed
  from this [of "[]"] show ?thesis by (simp add: rewriteToChar_def)
qed

theorem to_char_rewritten_witness:
  "rewriteToChar (''SELECT '' @ ''TO_CHAR('' @ Join [''f(a,1)'', sqlStringLiteral ''YYYY-MM''] [comma] @ '')'' @ '' FROM t'') =
     ''SELECT '' @ strftime_call ''f(a,1)'' (sqlStringLiteral ''YYYY-MM'') @ '' FROM t''"
proof -
  let ?calls = "[(''SELECT '', ''f(a,1)'', sqlStringLiteral ''YYYY-MM'')]"
  have "arg_text ''f(a,1)''"
    by (rule arg_chr; (rule arg_par [of "''a,1''" "[]", simplified])?)
       (auto intro: balanced_intros(1,2) arg_nil)
  moreover have "word_free ''to_char'' ''SELECT ''" "\<not> is_word (last ''SELECT '')" "is_quoted (TrimSpace (sqlStringLiteral ''YYYY-MM''))"
    by code_simp+
  ultimately have "\<forall>x \<in> set ?calls. to_char_ok x"
    using arg_text_literal by (simp add: to_char_ok_def)
  moreover have "word_free ''to_char'' '' FROM t''" by code_simp
  moreover have "TrimSpace ''f(a,1)'' = ''f(a,1)''" "TrimSpace (sqlStringLiteral ''YYYY-MM'') = sqlStringLiteral ''YYYY-MM''"
    by code_simp+
  ultimately show ?thesis
    using to_char_rewritten [of ?calls "'' FROM t''"] by (simp add: to_char_text_def strftime_text_def)
qed

section \<open>Formats\<close>

text \<open>The tokens and their translations, in the order of the replacer.\<close>

definition time_tokens :: "(gostr \<times> gostr) list" where
  "time_tokens =
     [(''TZH:TZM'', ''+00:00''), (''HH24'', ''%H''), (''HH12'', ''%I''), (''YYYY'', ''%Y''),
      (''TZH'', ''+00''), (''TZM'', ''00''), (''US'', ''%f''), (''MS'', ''%f''), (''MM'', ''%m''),
      (''DD'', ''%d''), (''HH'', ''%H''), (''MI'', ''%M''), (''SS'', ''%S''), (''YY'', ''%Y'')]"

lemma pgToStrftime_tokens: "pgToStrftime = replacer time_tokens"
  by (simp add: pgToStrftime_def time_tokens_def)

definition separates :: "char \<Rightarrow> bool" where
  "separates c \<longleftrightarrow> \<not> is_letter c \<and> \<not> is_digit c"

lemma separates_not: "separates c \<Longrightarrow> is_letter d \<or> is_digit d \<Longrightarrow> c \<noteq> d"
  by (auto simp: separates_def)

lemma first_pair_head: "list_all (\<lambda>(t, _). t \<noteq> [] \<and> hd t \<noteq> c) ps \<Longrightarrow> first_pair ps (c # s) = None"
proof (induction ps)
  case (Cons p ps)
  then show ?case by (cases p; cases "fst p") auto
qed simp

lemma token_heads: "list_all (\<lambda>(t, _). t \<noteq> [] \<and> (is_letter (hd t) \<or> is_digit (hd t))) time_tokens"
  by code_simp

lemma separator_kept:
  assumes "separates c"
  shows "replacer time_tokens (c # s) = c # replacer time_tokens s"
proof -
  have "first_pair time_tokens (c # s) = None"
    by (rule first_pair_head) (use token_heads separates_not [OF assms] in \<open>fastforce simp: list_all_iff\<close>)
  then show ?thesis by simp
qed

lemma separators_kept: "list_all separates sep \<Longrightarrow> replacer time_tokens (sep @ s) = sep @ replacer time_tokens s"
  by (induction sep) (simp_all add: separator_kept del: replacer.simps(2))

text \<open>A field of a format: a token, and the text that separates it from the next one.\<close>

definition field_ok :: "gostr \<times> gostr \<Rightarrow> bool" where
  "field_ok = (\<lambda>(t, sep). t \<in> fst ` set time_tokens \<and> sep \<noteq> [] \<and> list_all separates sep \<and> (t = ''TZH'' \<longrightarrow> hd sep \<noteq> CHR '':''))"

definition field_text :: "gostr \<times> gostr \<Rightarrow> gostr" where
  "field_text = (\<lambda>(t, sep). t @ sep)"

definition field_strftime :: "gostr \<times> gostr \<Rightarrow> gostr" where
  "field_strftime = (\<lambda>(t, sep). the (map_of time_tokens t) @ sep)"

lemma first_pair_cong:
  "\<forall>p \<in> set ps. HasPrefix s (fst p) = HasPrefix s' (fst p) \<Longrightarrow> first_pair ps s = first_pair ps s'"
  by (induction ps) auto

lemma HasPrefix_extend: "HasPrefix t p \<Longrightarrow> HasPrefix (t @ u) p"
  by (induction t p rule: HasPrefix.induct) auto

lemma HasPrefix_break:
  "HasPrefix (t @ c # s) p \<Longrightarrow> HasPrefix t p \<or> length t < length p \<and> take (length t) p = t \<and> p ! length t = c"
proof (induction t arbitrary: p)
  case Nil
  then show ?case by (cases p) auto
next
  case (Cons d t)
  then show ?case by (cases p) auto
qed

lemma tokens_extend:
  "list_all (\<lambda>(t, _). list_all (\<lambda>(p, _). length t < length p \<and> take (length t) p = t \<longrightarrow>
     is_letter (p ! length t) \<or> is_digit (p ! length t) \<or> t = ''TZH'' \<and> p ! length t = CHR '':'') time_tokens) time_tokens"
  by code_simp

lemma tokens_alone: "list_all (\<lambda>(t, r). first_pair time_tokens t = Some (t, r)) time_tokens"
  by code_simp

lemma token_chosen:
  assumes t: "(t, r) \<in> set time_tokens" and c: "separates c" "t = ''TZH'' \<longrightarrow> c \<noteq> CHR '':''"
  shows "first_pair time_tokens (t @ c # s) = Some (t, r)"
proof -
  have "HasPrefix (t @ c # s) p = HasPrefix t p" if "(p, q) \<in> set time_tokens" for p q
  proof
    assume "HasPrefix (t @ c # s) p"
    from HasPrefix_break [OF this] show "HasPrefix t p"
    proof
      assume "length t < length p \<and> take (length t) p = t \<and> p ! length t = c"
      with tokens_extend t that c(2) have "is_letter c \<or> is_digit c" by (fastforce simp: list_all_iff)
      with c(1) show ?thesis by (simp add: separates_def)
    qed
  qed (rule HasPrefix_extend)
  then have "first_pair time_tokens (t @ c # s) = first_pair time_tokens t" by (intro first_pair_cong) auto
  with tokens_alone t show ?thesis by (auto simp: list_all_iff)
qed

text \<open>C24: A format is translated field by field: in a format made of the tokens, each followed by a
  separator (any characters but letters and digits), every token becomes its own translation,
  the longest one that stands there (YYYY and not twice YY, HH24 and not HH), and the separators
  stay.\<close>

theorem format_translated:
  assumes "\<forall>f \<in> set fs. field_ok f"
  shows "pgToStrftime (concat (map field_text fs)) = concat (map field_strftime fs)"
  using assms unfolding pgToStrftime_tokens
proof (induction fs)
  case (Cons f fs)
  obtain t c sep where f: "f = (t, c # sep)" and t: "t \<in> fst ` set time_tokens"
    and sep: "separates c" "list_all separates (c # sep)" "t = ''TZH'' \<longrightarrow> c \<noteq> CHR '':''"
    using Cons.prems by (cases f; cases "snd f") (auto simp: field_ok_def)
  obtain d t' where d: "t = d # t'" using t token_heads by (cases t) (auto simp: list_all_iff)
  obtain r where r: "(t, r) \<in> set time_tokens" "map_of time_tokens t = Some r"
    using t map_of_SomeD weak_map_of_SomeI by (metis imageE map_of_eq_None_iff not_None_eq)
  let ?rest = "concat (map field_text fs)"
  have "replacer time_tokens (t @ c # sep @ ?rest) = r @ replacer time_tokens ((c # sep) @ ?rest)"
    using token_chosen [OF r(1) sep(1,3), of "sep @ ?rest"] by (simp add: d del: replacer.simps) (simp add: d)
  then show ?case
    using Cons separators_kept [OF sep(2), of ?rest] by (simp add: f field_text_def field_strftime_def r(2) del: replacer.simps)
qed simp

theorem format_translated_witness: "pgToStrftime ''YYYY-MM-DD HH24:MI:SS '' = ''%Y-%m-%d %H:%M:%S ''"
proof -
  let ?f = "[(''YYYY'', ''-''), (''MM'', ''-''), (''DD'', '' ''), (''HH24'', '':''), (''MI'', '':''), (''SS'', '' '')] :: (gostr \<times> gostr) list"
  have "list_all field_ok ?f" by code_simp
  then have "pgToStrftime (concat (map field_text ?f)) = concat (map field_strftime ?f)"
    unfolding list_all_iff by (rule format_translated)
  then show ?thesis by (simp add: field_text_def field_strftime_def time_tokens_def)
qed

end
