(* ===== verification/Rewrite_Ddl.thy ===== *)
theory Rewrite_Ddl
  imports Rewrite
begin

text \<open>
  The type names of DDL.  Most passes of \<^verbatim>\<open>translateDDL\<close> replace whole words
  (\<^verbatim>\<open>\b...\b\<close> patterns); such a pass is exactly the substitution of words in the text, whatever
  the text is, and the passes together are one table from PostgreSQL's types to SQLite's.
\<close>

section \<open>Words\<close>

text \<open>The text with every maximal run of word characters replaced.\<close>

function word_map :: "(gostr \<Rightarrow> gostr) \<Rightarrow> gostr \<Rightarrow> gostr" where
  "word_map f [] = []"
| "word_map f (c # cs) =
     (if is_word c then f (takeWhile is_word (c # cs)) @ word_map f (dropWhile is_word (c # cs))
      else c # word_map f cs)"
  by pat_completeness auto
termination
  by (relation "measure (\<lambda>(f, s). length s)") (auto simp: less_Suc_eq_le length_dropWhile_le)

declare word_map.simps(2) [simp del]

definition is_name :: "gostr \<Rightarrow> bool" where
  "is_name w \<longleftrightarrow> w \<noteq> [] \<and> list_all is_word w"

definition at_end :: "gostr \<Rightarrow> bool" where
  "at_end s \<longleftrightarrow> s = [] \<or> \<not> is_word (hd s)"

lemma word_map_other: "\<not> is_word c \<Longrightarrow> word_map f (c # s) = c # word_map f s"
  by (simp add: word_map.simps(2))

lemma word_map_name: "is_name w \<Longrightarrow> at_end s \<Longrightarrow> word_map f (w @ s) = f w @ word_map f s"
proof -
  assume w: "is_name w" and s: "at_end s"
  then have "takeWhile is_word (w @ s) = w" "dropWhile is_word (w @ s) = s"
    by (cases s; simp add: is_name_def at_end_def list_all_iff takeWhile_append2 dropWhile_append2)+
  moreover obtain c cs where "w = c # cs" "is_word c" using w by (cases w) (auto simp: is_name_def)
  ultimately show ?thesis by (simp add: word_map.simps(2))
qed

text \<open>A text is empty, starts with another character, or with a name.\<close>

lemma words_induct [case_names Nil Other Name]:
  assumes "P []" "\<And>c s. \<not> is_word c \<Longrightarrow> P s \<Longrightarrow> P (c # s)" "\<And>w s. is_name w \<Longrightarrow> at_end s \<Longrightarrow> P s \<Longrightarrow> P (w @ s)"
  shows "P s"
proof (induction s rule: length_induct)
  case (1 s)
  show ?case
  proof (cases s)
    case Nil
    with assms(1) show ?thesis by simp
  next
    case (Cons c cs)
    show ?thesis
    proof (cases "is_word c")
      case True
      let ?w = "takeWhile is_word s" and ?t = "dropWhile is_word s"
      have "is_name ?w" using True Cons by (simp add: is_name_def list_all_iff) (metis set_takeWhileD)
      moreover have "at_end ?t" by (cases "?t = []") (auto simp: at_end_def hd_dropWhile)
      moreover have "P ?t" using 1 True Cons by (simp add: less_Suc_eq_le length_dropWhile_le)
      ultimately have "P (?w @ ?t)" by (rule assms(3))
      then show ?thesis by simp
    qed (use 1 Cons assms(2) in simp)
  qed
qed

lemma word_map_end: "at_end s \<Longrightarrow> at_end (word_map f s)"
  by (cases s) (auto simp: at_end_def word_map_other)

lemma word_map_comp:
  "(\<And>w. is_name w \<Longrightarrow> is_name (g w)) \<Longrightarrow> word_map f (word_map g s) = word_map (\<lambda>w. f (g w)) s"
  by (induction s rule: words_induct) (simp_all add: word_map_other word_map_name word_map_end)

section \<open>Patterns of whole words\<close>

text \<open>The literals of a pattern without loops, in the order they are tried.\<close>

primrec literals :: "re \<Rightarrow> gostr list option" where
  "literals REmpty = Some [[]]"
| "literals (RLit ci w) = (if ci then Some [w] else None)"
| "literals (RCls ci cl) = None"
| "literals RBegin = None"
| "literals REnd = None"
| "literals RWordB = None"
| "literals (RSeq r1 r2) =
     (case (literals r1, literals r2) of
        (Some as, Some bs) \<Rightarrow> Some (concat (map (\<lambda>a. map ((@) a) bs) as))
      | _ \<Rightarrow> None)"
| "literals (RAlt r1 r2) =
     (case (literals r1, literals r2) of (Some as, Some bs) \<Rightarrow> Some (as @ bs) | _ \<Rightarrow> None)"
| "literals (RStar greedy r) = None"
| "literals (RGroup n r) = None"

text \<open>What stands between the two word boundaries.\<close>

fun tail_words :: "re \<Rightarrow> gostr list option" where
  "tail_words (RSeq RWordB REmpty) = Some [[]]"
| "tail_words (RSeq r1 r2) =
     (case (literals r1, tail_words r2) of
        (Some as, Some bs) \<Rightarrow> Some (concat (map (\<lambda>a. map ((@) a) bs) as))
      | _ \<Rightarrow> None)"
| "tail_words r = None"

fun pattern_words :: "re \<Rightarrow> gostr list option" where
  "pattern_words (RSeq RWordB r) = tail_words r"
| "pattern_words r = None"

lemma lit_at_append:
  "lit_at ci (a @ b) s i \<longleftrightarrow> lit_at ci a s i \<and> lit_at ci b s (i + length a)"
proof (cases "i + length a + length b \<le> length s")
  case True
  have "slice s i (i + length (a @ b)) = slice s i (i + length a) @ slice s (i + length a) (i + length a + length b)"
    using True slice_join [of i "i + length a" "i + length a + length b" s] by (simp add: add.assoc)
  then show ?thesis using True by (simp add: lit_at_def add.assoc list_all2_append)
qed (auto simp: lit_at_def)

lemma lit_at_bound: "lit_at ci a s i \<Longrightarrow> i + length a \<le> length s"
  by (simp add: lit_at_def)

lemma literals_matches:
  "literals r = Some as \<Longrightarrow> i \<le> length s \<Longrightarrow>
     matches r (cursor_at s i, g) = map (\<lambda>a. (cursor_at s (i + length a), g)) (filter (\<lambda>a. lit_at True a s i) as)"
proof (induction r arbitrary: as i)
  case REmpty
  then show ?case by (auto simp: lit_at_def)
next
  case (RLit ci w)
  then show ?case using matches_lit_at [of i s True w g] by (auto split: if_splits simp del: matches.simps)
next
  case (RSeq r1 r2)
  then obtain as1 bs where a: "literals r1 = Some as1" and b: "literals r2 = Some bs"
    and as: "as = concat (map (\<lambda>a. map ((@) a) bs) as1)"
    by (auto split: option.splits)
  have 2: "matches r2 (cursor_at s (i + length a), g) =
      map (\<lambda>b. (cursor_at s (i + length (a @ b)), g)) (filter (\<lambda>b. lit_at True b s (i + length a)) bs)"
    if "lit_at True a s i" for a
    using RSeq.IH(2) [OF b lit_at_bound [OF that]] by (simp add: add.assoc)
  have "concat (map (\<lambda>a. matches r2 (cursor_at s (i + length a), g)) (filter (\<lambda>a. lit_at True a s i) xs)) =
      map (\<lambda>a. (cursor_at s (i + length a), g)) (filter (\<lambda>a. lit_at True a s i) (concat (map (\<lambda>a. map ((@) a) bs) xs)))" for xs
    by (induction xs) (simp_all add: 2 lit_at_append filter_map comp_def)
  then show ?case unfolding as using RSeq.IH(1) [OF a RSeq.prems(2)] by (simp add: comp_def)
qed (auto split: option.splits)

lemma tail_matches:
  "tail_words r = Some ws \<Longrightarrow> i \<le> length s \<Longrightarrow>
     matches r (cursor_at s i, g) =
       map (\<lambda>w. (cursor_at s (i + length w), g)) (filter (\<lambda>w. lit_at True w s i \<and> boundary s (i + length w)) ws)"
proof (induction r arbitrary: ws i)
  case (RSeq r1 r2)
  show ?case
  proof (cases "r1 = RWordB \<and> r2 = REmpty")
    case True
    with RSeq.prems show ?thesis
      using matches_wordb_at [of s i g] by (auto simp: lit_at_def simp del: matches.simps(6))
  next
    case False
    then have "tail_words (RSeq r1 r2) = (case (literals r1, tail_words r2) of
        (Some as, Some bs) \<Rightarrow> Some (concat (map (\<lambda>a. map ((@) a) bs) as)) | _ \<Rightarrow> None)"
      by (cases r1; cases r2) simp_all
    with RSeq.prems obtain as bs where a: "literals r1 = Some as" and b: "tail_words r2 = Some bs"
      and ws: "ws = concat (map (\<lambda>a. map ((@) a) bs) as)"
      by (auto split: option.splits)
    have 2: "matches r2 (cursor_at s (i + length a), g) =
        map (\<lambda>b. (cursor_at s (i + length (a @ b)), g))
          (filter (\<lambda>b. lit_at True b s (i + length a) \<and> boundary s (i + length (a @ b))) bs)"
      if "lit_at True a s i" for a
      using RSeq.IH(2) [OF b lit_at_bound [OF that]] by (simp add: add.assoc)
    have "concat (map (\<lambda>a. matches r2 (cursor_at s (i + length a), g)) (filter (\<lambda>a. lit_at True a s i) xs)) =
        map (\<lambda>w. (cursor_at s (i + length w), g))
          (filter (\<lambda>w. lit_at True w s i \<and> boundary s (i + length w)) (concat (map (\<lambda>a. map ((@) a) bs) xs)))" for xs
      by (induction xs) (simp_all add: 2 lit_at_append filter_map comp_def conj_ac)
    then show ?thesis unfolding ws using literals_matches [OF a RSeq.prems(2)] by (simp add: comp_def)
  qed
qed simp_all

section \<open>A pass over whole words\<close>

lemma search_from_skip: "pos < length s \<Longrightarrow> no_match s r pos \<Longrightarrow> search_from r s pos = search_from r s (Suc pos)"
  using match_here_no [of s r pos]
  by (simp add: search_from_def drop_Cons_nth cursor_at_def)

lemma replaced_from_skip:
  assumes "0 < min_len r" "\<And>k. pos \<le> k \<Longrightarrow> k < pos + n \<Longrightarrow> no_match s r k" "pos + n \<le> length s"
  shows "replaced_from r f s pos = slice s pos (pos + n) @ replaced_from r f s (pos + n)"
  using assms(2,3)
proof (induction n arbitrary: pos)
  case (Suc n)
  then have lt: "pos < length s" and e: "search_from r s pos = search_from r s (Suc pos)"
    by (simp_all add: search_from_skip)
  have "replaced_from r f s pos = s ! pos # replaced_from r f s (Suc pos)"
  proof (cases "search_from r s (Suc pos)")
    case None
    then show ?thesis
      using lt e replaced_from_unfold [OF assms(1), of pos s f] replaced_from_unfold [OF assms(1), of "Suc pos" s f]
      by (simp add: drop_Cons_nth)
  next
    case (Some m)
    have "Suc pos \<le> mstart m" "mstart m \<le> length s" using search_from_bounds [OF Some] lt by simp_all
    then show ?thesis
      using Some lt e replaced_from_unfold [OF assms(1), of pos s f] replaced_from_unfold [OF assms(1), of "Suc pos" s f]
      by (simp add: slice_Suc [of pos "mstart m"])
  qed
  moreover have "replaced_from r f s (Suc pos) = slice s (Suc pos) (Suc pos + n) @ replaced_from r f s (Suc pos + n)"
    using Suc.prems by (intro Suc.IH) auto
  ultimately show ?case using Suc.prems(2) by (simp add: slice_Suc [of pos])
qed simp

lemma expand_plain: "CHR ''$'' \<notin> set t \<Longrightarrow> expand t grp = t"
  by (induction t) auto

lemma lit_at_word:
  assumes "lit_at True v s i" "is_name v" "j < length v"
  shows "is_word (s ! (i + j))"
proof -
  have "lit_char True (v ! j) (slice s i (i + length v) ! j)"
    using assms(1,3) by (simp add: lit_at_def list_all2_conv_all_nth)
  then have "lower_char (v ! j) = lower_char (s ! (i + j))"
    using assms(1,3) by (simp add: lit_char_def slice_def lit_at_def)
  moreover have "is_word (v ! j)" using assms(2,3) by (simp add: is_name_def list_all_length)
  ultimately show ?thesis by (metis is_word_lower)
qed

lemma name_boundaries:
  assumes "is_name w" "at_end s" "pre = [] \<or> \<not> is_word (last pre)"
  shows "boundary (pre @ w @ s) (length pre)" "boundary (pre @ w @ s) (length pre + length w)"
    "0 < j \<Longrightarrow> j < length w \<Longrightarrow> \<not> boundary (pre @ w @ s) (length pre + j)"
proof -
  have w: "w \<noteq> []" "\<And>j. j < length w \<Longrightarrow> is_word (w ! j)" using assms(1) by (auto simp: is_name_def list_all_length)
  show "boundary (pre @ w @ s) (length pre)"
    using w assms(3) by (cases pre rule: rev_cases) (auto simp: boundary_def nth_append)
  show "boundary (pre @ w @ s) (length pre + length w)"
    using w(1) w(2) [of "length w - 1"] assms(2)
    by (cases w rule: rev_cases; cases s) (auto simp: boundary_def nth_append at_end_def)
  show "0 < j \<Longrightarrow> j < length w \<Longrightarrow> \<not> boundary (pre @ w @ s) (length pre + j)"
    using w(2) [of j] w(2) [of "j - 1"] by (auto simp: boundary_def nth_append)
qed

lemma name_literal:
  assumes "is_name w" "at_end s" "pre = [] \<or> \<not> is_word (last pre)" "is_name v" "ToLower v = v"
  shows "lit_at True v (pre @ w @ s) (length pre) \<and> boundary (pre @ w @ s) (length pre + length v) \<longleftrightarrow> ToLower w = v"
proof
  assume h: "lit_at True v (pre @ w @ s) (length pre) \<and> boundary (pre @ w @ s) (length pre + length v)"
  have "\<not> length v < length w"
    using h name_boundaries(3) [OF assms(1-3), of "length v"] assms(4) by (auto simp: is_name_def)
  moreover have "\<not> length w < length v"
  proof
    assume l: "length w < length v"
    then have "is_word ((pre @ w @ s) ! (length pre + length w))" using h lit_at_word assms(4) by blast
    moreover have "s \<noteq> []" using h l by (auto simp: lit_at_def)
    ultimately show False using assms(2) by (cases s) (auto simp: at_end_def nth_append)
  qed
  ultimately have "length v = length w" by simp
  with lit_at_ToLower [of True v "pre @ w @ s" "length pre"] h assms(5) show "ToLower w = v"
    by (simp add: slice_def)
next
  assume l: "ToLower w = v"
  then have "length v = length w" by (auto simp: ToLower_def)
  moreover have "list_all2 (lit_char True) v w"
    using l assms(5) by (auto simp: ToLower_def list_all2_conv_all_nth lit_char_def)
  ultimately show "lit_at True v (pre @ w @ s) (length pre) \<and> boundary (pre @ w @ s) (length pre + length v)"
    using name_boundaries(2) [OF assms(1-3)] by (simp add: lit_at_def slice_def)
qed

text \<open>The pass: whatever the text, each word of the pattern, in any case, becomes the
  replacement, and nothing else changes.\<close>

locale whole_words =
  fixes r :: re and ws :: "gostr list"
  assumes pattern: "pattern_words r = Some ws"
    and names: "list_all (\<lambda>w. is_name w \<and> ToLower w = w) ws"
    and consumes: "0 < min_len r"
begin

lemma name: "w \<in> set ws \<Longrightarrow> is_name w" "w \<in> set ws \<Longrightarrow> ToLower w = w"
  using names by (auto simp: list_all_iff)

lemma matches_at:
  assumes "k \<le> length q"
  shows "matches r (cursor_at q k, g) =
    (if boundary q k then map (\<lambda>w. (cursor_at q (k + length w), g)) (filter (\<lambda>w. lit_at True w q k \<and> boundary q (k + length w)) ws)
     else [])"
proof -
  obtain r' where r: "r = RSeq RWordB r'" and r': "tail_words r' = Some ws"
    using pattern by (cases r rule: pattern_words.cases) auto
  show ?thesis
    using tail_matches [OF r' assms] matches_wordb_at [of q k g] by (simp add: r del: matches.simps(6))
qed

lemma no_match_at:
  "k \<le> length q \<Longrightarrow> (\<And>w. w \<in> set ws \<Longrightarrow> boundary q k \<Longrightarrow> lit_at True w q k \<Longrightarrow> \<not> boundary q (k + length w)) \<Longrightarrow> no_match q r k"
  by (auto simp: no_match_def matches_at filter_empty_conv)

lemma no_match_other:
  assumes "k \<le> length q" "k = length q \<or> \<not> is_word (q ! k)"
  shows "no_match q r k"
proof (rule no_match_at [OF assms(1)])
  fix w assume w: "w \<in> set ws" "lit_at True w q k"
  from lit_at_word [OF w(2) name(1) [OF w(1)], of 0] lit_at_bound [OF w(2)] name(1) [OF w(1)] assms(2)
  show "\<not> boundary q (k + length w)" by (cases w) (auto simp: is_name_def)
qed

text \<open>At a name that the pattern has, and at one it does not have.\<close>

lemma hit:
  assumes "is_name w" "at_end s" "pre = [] \<or> \<not> is_word (last pre)" "ToLower w \<in> set ws"
  shows "search_from r (pre @ w @ s) (length pre) = Some \<lparr>mstart = length pre, mend = length (pre @ w), mcaps = []\<rparr>"
proof -
  let ?q = "pre @ w @ s"
  let ?hits = "filter (\<lambda>v. lit_at True v ?q (length pre) \<and> boundary ?q (length pre + length v)) ws"
  note lit = name_literal [OF assms(1-3)]
  have "v = ToLower w" if "v \<in> set ?hits" for v
    using that lit [OF name] by auto
  moreover have "ToLower w \<in> set ?hits" using assms(4) lit [OF name [OF assms(4)]] by auto
  ultimately obtain vs where "?hits = ToLower w # vs" by (cases ?hits) auto
  then have "first_match ?q r (length pre) [] (length (pre @ w)) []"
    using name_boundaries(1) [OF assms(1-3)] matches_at [of "length pre" ?q "[]"] by (simp add: first_match_def ToLower_def)
  from match_here_first [OF this] show ?thesis
    using assms(1) by (cases w) (simp_all add: search_from_def cursor_at_def is_name_def)
qed

lemma miss:
  assumes "is_name w" "at_end s" "pre = [] \<or> \<not> is_word (last pre)" "ToLower w \<notin> set ws"
    and k: "length pre \<le> k" "k < length pre + length w"
  shows "no_match (pre @ w @ s) r k"
proof (rule no_match_at)
  fix v assume v: "v \<in> set ws" "boundary (pre @ w @ s) k" "lit_at True v (pre @ w @ s) k"
  show "\<not> boundary (pre @ w @ s) (k + length v)"
  proof (cases "k = length pre")
    case True
    with name_literal [OF assms(1-3) name(1) [OF v(1)] name(2) [OF v(1)]] assms(4) v
    show ?thesis by auto
  next
    case False
    then have "0 < k - length pre" "k - length pre < length w" using k by linarith+
    from name_boundaries(3) [OF assms(1-3) this] k(1) v(2) show ?thesis by simp
  qed
qed (use k in simp)

lemma replaced:
  assumes "CHR ''$'' \<notin> set t" "q = pre @ s" "pre = [] \<or> at_end s \<or> \<not> is_word (last pre)"
  shows "replaced_from r (\<lambda>m. expand t (group q m)) q (length pre) = word_map (\<lambda>w. if ToLower w \<in> set ws then t else w) s"
    (is "replaced_from r ?f q _ = word_map ?g s")
  using assms(2,3)
proof (induction s arbitrary: pre rule: words_induct)
  case Nil
  then have "search_from r q (length q) = None"
    using match_here_no [OF no_match_other [of "length q" q]] by (simp add: search_from_def cursor_at_def)
  then show ?case using Nil replaced_from_unfold [OF consumes, of "length q" q ?f] by simp
next
  case (Other c s)
  have q: "q ! length pre = c" "length pre < length q" using Other.prems by simp_all
  have none: "no_match q r k" if "length pre \<le> k" "k < length pre + 1" for k
  proof -
    have "k = length pre" using that by simp
    then show ?thesis using q Other.hyps(1) by (intro no_match_other) simp_all
  qed
  have "replaced_from r ?f q (length pre) = slice q (length pre) (length pre + 1) @ replaced_from r ?f q (length pre + 1)"
    by (rule replaced_from_skip [OF consumes none]) (use q in simp_all)
  with q have "replaced_from r ?f q (length pre) = [c] @ replaced_from r ?f q (length (pre @ [c]))"
    by (simp add: slice_Suc)
  with Other show ?case by (simp add: word_map_other)
next
  case (Name w s)
  have pre: "pre = [] \<or> \<not> is_word (last pre)"
    using Name.prems(2) Name.hyps(1) by (cases w) (auto simp: at_end_def is_name_def)
  have IH: "replaced_from r ?f q (length (pre @ w)) = word_map ?g s"
    using Name.prems Name.hyps(2) by (intro Name.IH) auto
  show ?case
  proof (cases "ToLower w \<in> set ws")
    case True
    from hit [OF Name.hyps(1,2) pre True] replaced_from_unfold [OF consumes, of "length pre" q ?f] Name.prems(1) IH expand_plain [OF assms(1)]
    have "replaced_from r ?f q (length pre) = t @ word_map ?g s" by simp
    then show ?thesis using word_map_name [OF Name.hyps(1,2)] True by simp
  next
    case False
    have "replaced_from r ?f q (length pre) = slice q (length pre) (length pre + length w) @ replaced_from r ?f q (length pre + length w)"
      by (rule replaced_from_skip [OF consumes miss [OF Name.hyps(1,2) pre False, folded Name.prems(1)]]) (use Name.prems(1) in simp_all)
    with Name.prems(1) have "replaced_from r ?f q (length pre) = w @ replaced_from r ?f q (length (pre @ w))"
      by (simp add: slice_def)
    then show ?thesis using IH word_map_name [OF Name.hyps(1,2)] False by simp
  qed
qed

lemma word_pass: "CHR ''$'' \<notin> set t \<Longrightarrow> ReplaceAllString r q t = word_map (\<lambda>w. if ToLower w \<in> set ws then t else w) q"
  using replaced [of t q "[]" q] by (simp add: ReplaceAllString_def ReplaceAllFunc_replaced)

end

interpretation serial_words: whole_words serialRegex "[''bigserial'', ''smallserial'', ''serial'']"
  by unfold_locales (code_simp+)

section \<open>The type names\<close>

text \<open>SQLite's name for the type that a word names; other words stay.\<close>

definition type_names :: "(gostr \<times> gostr) list" where
  "type_names =
     [(''bigserial'', ''INTEGER''), (''smallserial'', ''INTEGER''), (''serial'', ''INTEGER''),
      (''timestamptz'', ''TIMESTAMP''), (''timetz'', ''TIME''), (''bpchar'', ''TEXT''), (''bytea'', ''BLOB''),
      (''boolean'', ''BOOLEAN''), (''bigint'', ''INTEGER''), (''smallint'', ''INTEGER''), (''int8'', ''INTEGER''),
      (''int4'', ''INTEGER''), (''int2'', ''INTEGER''), (''integer'', ''INTEGER''), (''jsonb'', ''TEXT''),
      (''json'', ''TEXT''), (''uuid'', ''TEXT''), (''inet'', ''TEXT''), (''cidr'', ''TEXT''), (''macaddr'', ''TEXT'')]"

definition sqlite_type :: "gostr \<Rightarrow> gostr" where
  "sqlite_type w = (case map_of type_names (ToLower w) of Some t \<Rightarrow> t | None \<Rightarrow> w)"

text \<open>The words without which the other passes (of several words, and of nextval) do nothing.\<close>

definition phrase_words :: "gostr list" where
  "phrase_words = [''nextval'', ''zone'', ''character'', ''precision'']"

text \<open>The passes, in order; what one does to a word.\<close>

definition ddl_passes :: "(re \<times> gostr) list" where
  "ddl_passes = (serialRegex, ''INTEGER'') # (nextvalDefaultRegex, []) # ddlTypeMappings"

definition pass_word :: "gostr list option \<times> gostr \<Rightarrow> gostr \<Rightarrow> gostr" where
  "pass_word = (\<lambda>(ws, t) w. case ws of Some ws \<Rightarrow> if ToLower w \<in> set ws then t else w | None \<Rightarrow> w)"

definition pass_ok :: "re \<times> gostr \<Rightarrow> bool" where
  "pass_ok = (\<lambda>(r, t). case pattern_words r of
     Some ws \<Rightarrow> list_all (\<lambda>w. is_name w \<and> ToLower w = w) ws \<and> 0 < min_len r \<and>
       list_all (\<lambda>c. c \<noteq> CHR ''$'') t \<and> is_name t \<and> \<not> mentions t phrase_words
   | None \<Rightarrow> needs r phrase_words)"

lemma Contains_name_append:
  assumes "is_name x" "at_end s" "Contains (w @ s) x"
  shows "Contains w x \<or> Contains s x"
proof -
  obtain a b where "w @ s = a @ x @ b" using assms(3) unfolding Contains_iff by blast
  then consider us where "w = a @ us" "us @ s = x @ b" | us where "s = us @ x @ b"
    by (auto simp: append_eq_append_conv2)
  then show ?thesis
  proof cases
    case 1
    from 1(2) consider vs where "us = x @ vs" | vs where "x = us @ vs" "s = vs @ b"
      by (auto simp: append_eq_append_conv2)
    then show ?thesis
    proof cases
      case 1
      with \<open>w = a @ us\<close> show ?thesis unfolding Contains_iff by auto
    next
      case (2 vs)
      with assms(1,2) have "vs = []" by (cases vs) (simp_all add: is_name_def at_end_def)
      with 2 \<open>w = a @ us\<close> have "w = a @ x @ []" by simp
      then show ?thesis unfolding Contains_iff by blast
    qed
  next
    case 2
    then show ?thesis unfolding Contains_iff by blast
  qed
qed

lemma at_end_lower: "at_end (ToLower s) = at_end s"
  by (cases s) (simp_all add: at_end_def ToLower_def)

lemma mentions_name_append:
  "list_all is_name ws \<Longrightarrow> at_end s \<Longrightarrow> mentions (w @ s) ws \<longleftrightarrow> mentions w ws \<or> mentions s ws"
  using Contains_name_append [of _ "ToLower s" "ToLower w"] mentions_append [of w ws s]
  by (fastforce simp: mentions_def list_ex_iff list_all_iff ToLower_append at_end_lower)

lemma mentions_other:
  assumes "list_all is_name ws" "\<not> is_word c"
  shows "mentions (c # s) ws \<longleftrightarrow> mentions s ws"
proof -
  have "\<not> HasPrefix (ToLower (c # s)) x" if "x \<in> set ws" for x
    using assms that by (cases x) (auto simp: is_name_def list_all_iff ToLower_def)
  then show ?thesis by (auto simp: mentions_def list_ex_iff ToLower_def)
qed

lemma mentions_word_map:
  assumes "list_all is_name ws" "\<And>w. is_name w \<Longrightarrow> \<not> mentions w ws \<Longrightarrow> \<not> mentions (g w) ws"
  shows "\<not> mentions s ws \<Longrightarrow> \<not> mentions (word_map g s) ws"
proof (induction s rule: words_induct)
  case (Name w s)
  then show ?case
    using assms mentions_name_append [OF assms(1)] by (simp add: word_map_name word_map_end)
qed (simp_all add: word_map_other mentions_other [OF assms(1)])

lemma phrase_names: "list_all is_name phrase_words"
  by code_simp

lemma word_map_id: "word_map (\<lambda>w. w) s = s"
  by (induction s rule: words_induct) (simp_all add: word_map_other word_map_name)

lemma pass_is_word_map:
  assumes "pass_ok (r, t)" "\<not> mentions q phrase_words"
  shows "ReplaceAllString r q t = word_map (pass_word (pattern_words r, t)) q"
proof (cases "pattern_words r")
  case None
  with assms have "needs r phrase_words" by (simp add: pass_ok_def)
  from needs_no_match [OF this assms(2)] None show ?thesis
    by (simp add: ReplaceAllString_no_match pass_word_def word_map_id)
next
  case (Some ws)
  with assms(1) have "list_all (\<lambda>w. is_name w \<and> ToLower w = w) ws" "0 < min_len r" "CHR ''$'' \<notin> set t"
    by (auto simp: pass_ok_def list_all_iff)
  with whole_words.word_pass [OF whole_words.intro [OF Some], of t q] Some show ?thesis by (simp add: pass_word_def)
qed

lemma pass_word_name:
  assumes "pass_ok (r, t)" "is_name w"
  shows "is_name (pass_word (pattern_words r, t) w)"
    "\<not> mentions w phrase_words \<Longrightarrow> \<not> mentions (pass_word (pattern_words r, t) w) phrase_words"
  using assms by (auto simp: pass_ok_def pass_word_def split: option.splits)

definition pass_words_of :: "(re \<times> gostr) list \<Rightarrow> (gostr list option \<times> gostr) list" where
  "pass_words_of ps = map (\<lambda>(r, t). (pattern_words r, t)) ps"

definition passes_word :: "(gostr list option \<times> gostr) list \<Rightarrow> gostr \<Rightarrow> gostr" where
  "passes_word ps w = foldl (\<lambda>w p. pass_word p w) w ps"

lemma passes_are_word_map:
  assumes "list_all pass_ok ps" "\<not> mentions q phrase_words"
  shows "foldl (\<lambda>q (r, t). ReplaceAllString r q t) q ps = word_map (passes_word (pass_words_of ps)) q"
  using assms
proof (induction ps arbitrary: q)
  case Nil
  then show ?case by (simp add: passes_word_def pass_words_of_def word_map_id)
next
  case (Cons p ps)
  obtain r t where p: "p = (r, t)" by (cases p)
  with Cons.prems have ok: "pass_ok (r, t)" by simp
  let ?q = "word_map (pass_word (pattern_words r, t)) q"
  have "\<not> mentions ?q phrase_words"
    using pass_word_name(2) [OF ok] Cons.prems(2) by (intro mentions_word_map [OF phrase_names]) auto
  then have "foldl (\<lambda>q (r, t). ReplaceAllString r q t) ?q ps = word_map (passes_word (pass_words_of ps)) ?q"
    using Cons by simp
  then show ?case
    using pass_is_word_map [OF ok Cons.prems(2)] pass_word_name(1) [OF ok]
    by (simp add: p word_map_comp passes_word_def pass_words_of_def)
qed

section \<open>One table\<close>

text \<open>Each word with what its first pass makes of it.\<close>

fun words_table :: "(gostr list option \<times> gostr) list \<Rightarrow> (gostr \<times> gostr) list" where
  "words_table [] = []"
| "words_table ((None, t) # ps) = words_table ps"
| "words_table ((Some ws, t) # ps) = map (\<lambda>w. (w, t)) ws @ words_table ps"

text \<open>The passes leave \<open>t\<close>.\<close>

definition kept :: "(gostr list option \<times> gostr) list \<Rightarrow> gostr \<Rightarrow> bool" where
  "kept ps t = (let l = ToLower t in
     list_all (\<lambda>(ws, t'). case ws of Some ws \<Rightarrow> l \<in> set ws \<longrightarrow> t' = t | None \<Rightarrow> True) ps)"

lemma passes_word_kept: "kept ps t \<Longrightarrow> passes_word ps t = t"
  by (induction ps) (auto simp: kept_def passes_word_def pass_word_def Let_def split: option.splits)

lemma map_of_const: "map_of (map (\<lambda>w. (w, t)) ws @ tab) x = (if x \<in> set ws then Some t else map_of tab x)"
  by (induction ws) auto

lemma passes_word_table:
  "list_all (kept ps) (map snd ps) \<Longrightarrow>
     passes_word ps w = (case map_of (words_table ps) (ToLower w) of Some t \<Rightarrow> t | None \<Rightarrow> w)"
proof (induction ps rule: words_table.induct)
  case (2 t ps)
  then have "passes_word ps w = (case map_of (words_table ps) (ToLower w) of Some t \<Rightarrow> t | None \<Rightarrow> w)"
    by (intro 2) (auto simp: kept_def list_all_iff Let_def)
  then show ?case by (simp add: passes_word_def pass_word_def)
next
  case (3 ws t ps)
  then have "passes_word ps w = (case map_of (words_table ps) (ToLower w) of Some t \<Rightarrow> t | None \<Rightarrow> w)"
    by (intro 3) (auto simp: kept_def list_all_iff Let_def)
  moreover have "passes_word ps t = t"
    using 3 by (intro passes_word_kept) (auto simp: kept_def list_all_iff Let_def)
  ultimately show ?case by (simp add: passes_word_def pass_word_def map_of_const del: map_of_append)
qed (simp add: passes_word_def)

text \<open>The words of the passes, as the patterns list them; \<open>None\<close> is a pass over several words.\<close>

lemma ddl_passes_words:
  "pass_words_of ddl_passes =
     [(Some [''bigserial'', ''smallserial'', ''serial''], ''INTEGER''), (None, []), (None, ''TIMESTAMP''),
      (Some [''timestamptz''], ''TIMESTAMP''), (None, ''TIME''), (Some [''timetz''], ''TIME''),
      (None, ''VARCHAR$1''), (None, ''CHAR$1''), (Some [''bpchar''], ''TEXT''), (None, ''REAL''),
      (Some [''bytea''], ''BLOB''), (Some [''boolean''], ''BOOLEAN''), (Some [''bigint''], ''INTEGER''),
      (Some [''smallint''], ''INTEGER''), (Some [''int8''], ''INTEGER''), (Some [''int4''], ''INTEGER''),
      (Some [''int2''], ''INTEGER''), (Some [''integer''], ''INTEGER''),
      (Some [''jsonb'', ''json''], ''TEXT''), (Some [''uuid''], ''TEXT''),
      (Some [''inet'', ''cidr'', ''macaddr''], ''TEXT'')]"
  by code_simp

lemma ddl_passes_ok: "list_all pass_ok ddl_passes"
  by code_simp

lemma ddl_passes_kept: "list_all (kept (pass_words_of ddl_passes)) (remdups (map snd (pass_words_of ddl_passes)))"
  unfolding ddl_passes_words by code_simp

lemma ddl_word_type: "passes_word (pass_words_of ddl_passes) w = sqlite_type w"
proof -
  have "list_all (kept (pass_words_of ddl_passes)) (map snd (pass_words_of ddl_passes))"
    using ddl_passes_kept by (simp add: list_all_iff)
  moreover have "words_table (pass_words_of ddl_passes) = type_names"
    unfolding ddl_passes_words type_names_def by simp
  ultimately show ?thesis by (simp only: passes_word_table sqlite_type_def)
qed

lemma translateDDL_words:
  assumes "leadingKeyword q \<in> {''CREATE'', ''ALTER''}" "\<not> MatchString createSequenceRegex q" "\<not> MatchString alterSequenceRegex q"
    and "\<not> mentions q phrase_words"
  shows "translateDDL q = word_map sqlite_type q"
proof -
  have "translateDDL q = foldl (\<lambda>q (r, t). ReplaceAllString r q t) q ddl_passes"
    using assms(1-3) by (auto simp: translateDDL_def ddl_passes_def Let_def)
  also have "\<dots> = word_map (passes_word (pass_words_of ddl_passes)) q"
    by (rule passes_are_word_map [OF ddl_passes_ok assms(4)])
  also have "passes_word (pass_words_of ddl_passes) = sqlite_type"
    by (rule ext) (rule ddl_word_type)
  finally show ?thesis .
qed

section \<open>DDL through the rewriter\<close>

text \<open>A statement that starts with a keyword of DDL.\<close>

lemma is_word_upper: "is_word (upper_char c) = is_word c"
  by (metis is_word_lower lower_upper_char)

lemma ddl_keyword:
  assumes "ToUpper kw \<in> {''CREATE'', ''ALTER''}"
  shows "is_name kw" "sqlite_type kw = kw" "leadingKeyword (kw @ CHR '' '' # rest) = ToUpper kw"
proof -
  have "list_all is_word (ToUpper kw)" "ToUpper kw \<noteq> []" using assms by (auto simp: is_name_def) (code_simp+)
  then show name: "is_name kw" by (auto simp: is_name_def ToUpper_def list_all_iff is_word_upper)
  have "ToLower kw = ToLower (ToUpper kw)" by (simp add: ToLower_def ToUpper_def)
  moreover have "ToLower ''CREATE'' = ''create''" "ToLower ''ALTER'' = ''alter''" by code_simp+
  ultimately show "sqlite_type kw = kw" using assms by (auto simp: sqlite_type_def type_names_def)
  have paren: "\<not> is_word (CHR ''('')" "is_space (CHR '' '')" by code_simp+
  from name have "hd kw \<noteq> CHR ''(''" by (cases kw) (use paren in \<open>auto simp: is_name_def\<close>)
  with name paren(2) show "leadingKeyword (kw @ CHR '' '' # rest) = ToUpper kw"
    by (intro leadingKeyword_word) (auto simp: is_name_def list_all_iff dest: is_word_not_space)
qed

lemma rewrite_ddl:
  assumes kw: "ToUpper kw \<in> {''CREATE'', ''ALTER''}"
    and "\<not> MatchString createSequenceRegex (kw @ CHR '' '' # rest)" "\<not> MatchString alterSequenceRegex (kw @ CHR '' '' # rest)"
    and db: "\<not> MatchString databaseDDLRegex (TrimSpace (kw @ CHR '' '' # rest))"
    and ph: "\<not> mentions (kw @ CHR '' '' # rest) phrase_words"
    and dialect: "\<not> mentions (kw @ CHR '' '' # word_map sqlite_type rest) dialect_words"
  shows "conn_rewrite database (kw @ CHR '' '' # rest) = kw @ CHR '' '' # word_map sqlite_type rest"
proof -
  let ?q = "kw @ CHR '' '' # rest" and ?r = "kw @ CHR '' '' # word_map sqlite_type rest"
  note k = ddl_keyword [OF kw]
  have sp: "\<not> is_word (CHR '' '')" by code_simp
  then have "word_map sqlite_type ?q = ?r"
    using k by (simp add: word_map_name at_end_def word_map_other)
  moreover have "translateDDL ?q = word_map sqlite_type ?q"
    using kw by (intro translateDDL_words assms) (simp add: k(3))
  ultimately have t: "translateDDL ?q = ?r" by simp
  have "\<not> mentions ?r ws" if "set ws \<subseteq> set dialect_words" for ws
    using dialect mentions_mono [OF that] by blast
  from this [of pass_words] this [of system_words] this [of "[''current_database'']"]
  have m: "\<not> mentions ?r pass_words" "\<not> mentions ?r system_words" "\<not> mentions ?r [''current_database'']"
    by (auto simp: dialect_words_def system_words_def)
  have "leadingKeyword ?r \<noteq> ''SHOW''" using k(3) kw by auto
  with m(1) t have "rewrite_passes ?q = ReplaceAllStringFunc showRegex (ReplaceAllString systemFunctionRegex ?r ''$1()$2'') show_call"
    by (simp add: rewrite_passes_def Let_def pass_idle [OF m(1)])
  also have "ReplaceAllString systemFunctionRegex ?r ''$1()$2'' = ?r"
    using m(2) unfolding system_words_def by (rule system_function_pass.idle)
  also have "ReplaceAllStringFunc showRegex ?r show_call = ?r"
    by (rule show_pass) (use k(3) kw in auto)
  finally have "rewrite ?q = ?r"
    using db kw k(3) [of rest] by (auto simp: rewrite_def leadingKeyword_TrimSpace MatchString_def)
  with m(3) show ?thesis by (simp add: conn_rewrite_def Let_def current_database_pass.idle)
qed

text \<open>C22: Type names are translated word by word: in a CREATE or ALTER statement (not of a sequence or
  a database) without the phrases of several words and without what the other passes look for,
  exactly the words that name a PostgreSQL type, in any case, become SQLite's name of it;
  everything else SQLite gets as the client wrote it.\<close>

theorem ddl_types_translated:
  assumes "ToUpper kw \<in> {''CREATE'', ''ALTER''}"
    and "\<not> MatchString createSequenceRegex (kw @ CHR '' '' # rest)" "\<not> MatchString alterSequenceRegex (kw @ CHR '' '' # rest)"
    and "\<not> MatchString databaseDDLRegex (TrimSpace (kw @ CHR '' '' # rest))"
    and "\<not> mentions (kw @ CHR '' '' # rest) phrase_words"
    and "\<not> mentions (kw @ CHR '' '' # word_map sqlite_type rest) dialect_words"
  shows "conn_rewrite database (kw @ CHR '' '' # rest) = kw @ CHR '' '' # word_map sqlite_type rest"
  by (rule rewrite_ddl [OF assms])

theorem ddl_types_translated_witness:
  "conn_rewrite ''shop'' ''create TABLE t (id BIGSERIAL, payload jsonb, at timestamptz, ok BOOLEAN)'' =
     ''create TABLE t (id INTEGER, payload TEXT, at TIMESTAMP, ok BOOLEAN)''"
proof -
  let ?rest = "''TABLE t (id BIGSERIAL, payload jsonb, at timestamptz, ok BOOLEAN)''"
  have r: "word_map sqlite_type ?rest = ''TABLE t (id INTEGER, payload TEXT, at TIMESTAMP, ok BOOLEAN)''" by code_simp
  have "conn_rewrite ''shop'' (''create'' @ CHR '' '' # ?rest) = ''create'' @ CHR '' '' # word_map sqlite_type ?rest"
    by (rule ddl_types_translated; (subst r)?) code_simp+
  then show ?thesis unfolding r by simp
qed

text \<open>A word is a word wherever it stands: the labels of an enum that are called like a type are
  changed, too, and so is a column's name.\<close>

lemma ddl_changes_labels:
  "conn_rewrite ''shop'' (''CREATE TABLE f (uuid INT, kind TEXT CHECK (kind IN ('' @ sqlStringLiteral ''json'' @ '')))'') =
     ''CREATE TABLE f (TEXT INT, kind TEXT CHECK (kind IN ('' @ sqlStringLiteral ''TEXT'' @ '')))''"
proof -
  let ?rest = "''TABLE f (uuid INT, kind TEXT CHECK (kind IN ('' @ sqlStringLiteral ''json'' @ '')))''"
  let ?t = "''TABLE f (TEXT INT, kind TEXT CHECK (kind IN ('' @ sqlStringLiteral ''TEXT'' @ '')))''"
  have r: "word_map sqlite_type ?rest = ?t" by code_simp
  have "conn_rewrite ''shop'' (''CREATE'' @ CHR '' '' # ?rest) = ''CREATE'' @ CHR '' '' # word_map sqlite_type ?rest"
    by (rule rewrite_ddl; (subst r)?) code_simp+
  then show ?thesis unfolding r by simp
qed

end
