(* ===== verification/Spec2Isabelle.thy ===== *)
theory Spec2Isabelle
  imports Catalog_Refs Command_Line Resources Protocol Hook Rewrite_Calls Rewrite_Ddl
begin

text \<open>
  postlite (\<^verbatim>\<open>src/\<close>, Go) is a server that speaks the PostgreSQL wire protocol and answers from
  SQLite files.  A client connects (\<^verbatim>\<open>server.go\<close>), authenticates (\<^verbatim>\<open>auth.go\<close>) and names a
  database; the server opens the file, pins one SQLite connection to the session and sets up a
  PostgreSQL catalog on it: virtual tables with fixed rows (\<^verbatim>\<open>pg_*.go\<close>, \<^verbatim>\<open>catalog.go\<close>), views
  over SQLite's own schema (\<^verbatim>\<open>catalog.go\<close>, \<^verbatim>\<open>catalog_information_schema.go\<close>), SQL functions
  (\<^verbatim>\<open>pg_func.go\<close>) and tables of the enums it reads out of CHECK constraints (\<^verbatim>\<open>enum.go\<close>).  Then
  every statement of the client is rewritten to SQLite's dialect (\<^verbatim>\<open>rewrite.go\<close>), classified
  (\<^verbatim>\<open>command.go\<close>), run, and its result sent back in PostgreSQL's text form (\<^verbatim>\<open>oid.go\<close>).

  Theories and what they model:

  \<^item> \<open>Prelude\<close>: bytes, and what the code uses of \<^verbatim>\<open>strings\<close>, \<^verbatim>\<open>strconv\<close> and \<^verbatim>\<open>fmt\<close>; collections
    of facts.  A Go string is a list of bytes; case and white space are those of ASCII.
  \<^item> \<open>Regex\<close>: Go's regular expressions as data and leftmost-first matching, with find, replace
    and a calculus for what the first match is.  \<open>Filepath\<close>: \<^verbatim>\<open>filepath.Clean\<close> and \<^verbatim>\<open>Join\<close>.
    \<open>Md5\<close>: the digest and hexadecimal text.
  \<^item> \<open>Command\<close> (\<^verbatim>\<open>command.go\<close>): placeholders, keywords, tags, SQLSTATE codes.
  \<^item> \<open>Sql_Scan\<close>: \<^verbatim>\<open>matchParen\<close>, \<^verbatim>\<open>splitArgs\<close>, \<^verbatim>\<open>sqlStringLiteral\<close> against a grammar of balanced
    text.  \<open>Rewrite\<close> (\<^verbatim>\<open>rewrite.go\<close>): all passes of the rewriter, each an instance of the locale
    \<open>rewrite_pass\<close> that says when a pass does nothing.  \<open>Rewrite_Calls\<close>: the locale
    \<open>keyword_call\<close> of the passes that look for a call by name, the rewriting of TO_CHAR and its
    formats.  \<open>Rewrite_Ddl\<close>: a pass over a whole-word pattern is the substitution of words, and
    the type names of DDL are one table.
  \<^item> \<open>Enums\<close> (\<^verbatim>\<open>enum.go\<close>): parsing CHECK constraints and the rows of the enum tables.
  \<^item> \<open>Types\<close> (\<^verbatim>\<open>oid.go\<close>, \<^verbatim>\<open>pg_func.go\<close>): type OIDs, text encodings, catalog functions.
  \<^item> \<open>Session\<close> (\<^verbatim>\<open>server.go\<close>): the record \<open>conn\<close> is \<^verbatim>\<open>Conn\<close>, the \<open>handle...\<close> functions are the
    handlers, \<open>serve_loop\<close> the loop of \<^verbatim>\<open>serveConn\<close>, \<open>conn_close\<close> is \<^verbatim>\<open>(*Conn).Close\<close>.
    \<open>Session_Protocol\<close>: the contracts of handlers as locales, the transaction state machine.
    \<open>Session_Query\<close>: results, the agreement of the two protocols, the loop as a whole.
    \<open>Protocol\<close>: an abstract specification of what a client sees (\<open>proto\<close>, \<open>pstep\<close>: which replies
    are possible in which state and what they mean for it) and the refinement: every session of
    \<open>Session\<close> is a run of it.
  \<^item> \<open>Catalog_Sql\<close>: the text of the view statements and the filling-in of their tokens.
    \<open>VTab\<close> (\<^verbatim>\<open>pg_*.go\<close>, data of \<^verbatim>\<open>catalog.go\<close>): rows, columns and cursors, with the locale
    \<open>vtab_cursor\<close> between SQLite's scan and the six modules; the cells of a row are the column
    switch of the code, and they are compared with the fields of the record (\<open>pgType_fields\<close> and
    the like) under the declared column names.  \<open>Catalog_Views\<close>: the
    views as functions from the schema to rows, with SQLite's GROUP BY, which delivers the groups
    in the order of their keys, as \<open>group_by\<close>; \<open>Catalog\<close>: how they agree; \<open>Catalog_Refs\<close>: that what one
    view refers to is a row of another.
  \<^item> \<open>Startup\<close> (\<^verbatim>\<open>auth.go\<close>, \<^verbatim>\<open>server.go\<close>, \<^verbatim>\<open>enum.go\<close>, \<^verbatim>\<open>catalog.go\<close>): authentication, the
    startup packet, \<^verbatim>\<open>setupEnumCatalog\<close>, \<^verbatim>\<open>createCatalogViews\<close>, \<open>serveConn\<close>; \<open>Startup_Security\<close>:
    what it guarantees.
  \<^item> \<open>Hook\<close> (\<^verbatim>\<open>init\<close> of \<^verbatim>\<open>server.go\<close>): the functions and modules every SQLite connection is
    given, over the driver's two registration calls.  Each Go function is a definition of its own
    and registered as a value under its SQL name; what a call by that name returns is stated
    apart from the table, and the modules are those startup uses.  \<open>Resources\<close>: a driver wrapped so that it keeps a ledger of the prepared
    statements and result sets that are open, and what a session keeps of it.
  \<^item> \<open>Lifecycle\<close> (\<^verbatim>\<open>server.go\<close>): the accept loop, connections and Close as interleaved steps.  The
    steps of the server itself (\<open>server_step\<close>) are told apart from those that depend on a client
    or the caller (\<open>client_step\<close>): the session of a connection that Close has closed ends by
    itself, any other only when its client goes.  Close comes to an end unless it waits for the
    one connection that was accepted but not yet recorded.  \<open>Command_Line\<close> (\<^verbatim>\<open>cmd/postlite/main.go\<close>): the configuration, what
    \<^verbatim>\<open>run\<close> makes of it, the result of Close and the exit status.

  Parameters: the SQLite driver is a record of functions over an abstract state (\<open>driver\<close>),
  without laws except where a property names one; random bytes (\<open>entropy\<close>); the client's
  messages are lists, and a socket that accepts a number of writes (\<open>wfail\<close>).  A call that may
  not return is \<open>None\<close>: the loops over result sets are partial functions, and
  \<open>finite_results\<close> is what makes them return.  No fuel is used; every other loop has a
  termination proof.

  A \<open>Conn\<close> is closed once in \<open>conn_close\<close>; when the server shuts down it is closed by
  \<^verbatim>\<open>CloseClientConnections\<close> and again by the deferred \<^verbatim>\<open>CloseClientConnection\<close>, and that second
  call is outside the model of a connection.

  Not modelled: the bytes of messages (pgproto3), logging (the lines of \<^verbatim>\<open>run\<close> apart), the
  delivery of signals, the parsing of flags, SQLite itself, the white space of the CREATE TABLE texts of the virtual tables, and the order in
  which Go iterates over maps.  Unicode case and space are read as ASCII, and SQLite's LIKE
  compares bytes.
\<close>

section \<open>Startup and the virtual tables\<close>

text \<open>Startup and the modules agree: each CREATE VIRTUAL TABLE statement lists exactly the
  columns its module declares to SQLite, in that order.\<close>

theorem startup_declares_columns:
  "map snd (tl startup_stmts) =
     [using_columns ''pg_namespace'' ''pg_namespace_module'' pgNamespace_decl,
      using_columns ''pg_description'' ''pg_description_module'' pgDescription_decl,
      using_columns ''pg_settings'' ''pg_settings_module'' pgSetting_decl,
      using_columns ''pg_type'' ''pg_type_module'' pgType_decl,
      using_columns ''pg_range'' ''pg_range_module'' pgRange_decl]"
  by (simp add: startup_stmts_def using_columns_def pgNamespace_decl_def pgDescription_decl_def pgSetting_decl_def
      pgType_decl_def pgRange_decl_def)

section \<open>One value for every setting\<close>

text \<open>The parameters of the greeting.\<close>

definition reported :: "(gostr \<times> gostr) list" where
  "reported =
     [(''server_version'', ''14.0''), (''server_encoding'', ''UTF8''), (''client_encoding'', ''UTF8''),
      (''DateStyle'', ''ISO, MDY''), (''IntervalStyle'', ''postgres''), (''TimeZone'', ''UTC''),
      (''integer_datetimes'', ''on''), (''standard_conforming_strings'', ''on'')]"

lemma reported_agree:
  "list_all (\<lambda>(n, v). list_ex (\<lambda>s. se_name s = n \<and> se_setting s = v) pgSettings \<and>
     (show_setting n = v \<or> n = ''IntervalStyle'')) reported"
  by code_simp

text \<open>A client sees the same settings everywhere: each parameter the greeting reports (but
  for the client's own application name) has a row in \<^verbatim>\<open>pg_settings\<close> with that value, and SHOW
  returns it too, except for IntervalStyle.\<close>

theorem settings_agree:
  assumes "ParameterStatus n v \<in> set (greeting rnd ps)" "n \<noteq> ''application_name''"
  shows "(\<exists>s \<in> set pgSettings. se_name s = n \<and> se_setting s = v) \<and> (show_setting n = v \<or> n = ''IntervalStyle'')"
proof -
  have "(n, v) \<in> set reported"
    using assms unfolding greeting_def reported_def ServerVersion_def by simp
  with reported_agree have "(\<lambda>(n, v). list_ex (\<lambda>s. se_name s = n \<and> se_setting s = v) pgSettings \<and>
     (show_setting n = v \<or> n = ''IntervalStyle'')) (n, v)"
    unfolding list_all_iff by (rule bspec)
  then show ?thesis by (simp only: prod.case list_ex_iff)
qed
theorem settings_agree_witness: "show_setting ''DateStyle'' = ''ISO, MDY''"
  using settings_agree [of "''DateStyle''" "''ISO, MDY''" demo_entropy "[]"] by (simp add: greeting_def)

text \<open>The exception: SHOW knows nothing of a setting the greeting reports.\<close>

lemma show_IntervalStyle: "show_setting ''IntervalStyle'' = []"
  by code_simp

end
